(* ===== verification/Prelude.thy ===== *)
theory Prelude
  imports Main "HOL-Library.Word" "HOL-Library.Monad_Syntax" "HOL-Library.Signed_Division"
begin

text \<open>
  Shared vocabulary of the development: the machine integers of the C code, byte buffers with
  checked reads, the network and host byte orders, and C strings.

  A buffer is a \<open>byte list\<close>: the bytes from the pointer the C function receives to the end of
  the allocation behind it. A read past that end is undefined behaviour in C; here it is the
  value \<open>None\<close>, and the functions that read packets run in the option monad, so that
  \<open>None\<close> always means \<open>the C function has undefined behaviour on this input\<close>.
  All the ABIs the build names (arm64-v8a, armeabi-v7a, x86) are little-endian.
\<close>

unbundle bit_operations_syntax

section \<open>Machine integers\<close>

type_synonym byte = "8 word"
type_synonym u16 = "16 word"
type_synonym u32 = "32 word"
type_synonym u64 = "64 word"

text \<open>Lemma collections: byte layouts, the invariants of sessions, and facts on descriptors.\<close>

named_theorems wire \<open>lengths and shapes of byte layouts\<close>
named_theorems io_simps \<open>how the operating-system calls change the io state\<close>

section \<open>Checked reads\<close>

definition rd :: "byte list \<Rightarrow> nat \<Rightarrow> byte option" where
  "rd d i = (if i < length d then Some (d ! i) else None)"

definition rd_be16 :: "byte list \<Rightarrow> nat \<Rightarrow> u16 option" where
  "rd_be16 d i = do { a \<leftarrow> rd d i; b \<leftarrow> rd d (i + 1); Some (ucast a * 256 + ucast b) }"

definition rd_le16 :: "byte list \<Rightarrow> nat \<Rightarrow> u16 option" where
  "rd_le16 d i = do { a \<leftarrow> rd d i; b \<leftarrow> rd d (i + 1); Some (ucast b * 256 + ucast a) }"

definition rd_be32 :: "byte list \<Rightarrow> nat \<Rightarrow> u32 option" where
  "rd_be32 d i = do { a \<leftarrow> rd_be16 d i; b \<leftarrow> rd_be16 d (i + 2); Some (ucast a * 65536 + ucast b) }"

text \<open>The source of a \<open>memcpy\<close> of \<open>n\<close> bytes from offset \<open>i\<close>.\<close>

definition rd_block :: "byte list \<Rightarrow> nat \<Rightarrow> nat \<Rightarrow> byte list option" where
  "rd_block d i n = (if i + n \<le> length d then Some (take n (drop i d)) else None)"

text \<open>Writing a block into a buffer.\<close>

definition wr_block :: "byte list \<Rightarrow> nat \<Rightarrow> byte list \<Rightarrow> byte list option" where
  "wr_block q i bs =
     (if i + length bs \<le> length q then Some (take i q @ bs @ drop (i + length bs) q) else None)"

lemma wr_block_length: "wr_block q i bs = Some q' \<Longrightarrow> length q' = length q"
  by (auto simp: wr_block_def split: if_splits)

lemma rd_Some_iff: "rd d i = Some b \<longleftrightarrow> i < length d \<and> b = d ! i"
  by (auto simp: rd_def)

lemma rd_ok: "i < length d \<Longrightarrow> rd d i = Some (d ! i)"
  by (simp add: rd_def)

lemma rd_append1: "i < length a \<Longrightarrow> rd (a @ b) i = rd a i"
  by (simp add: rd_def nth_append)

lemma rd_append2: "rd (a @ b) (length a + i) = rd b i"
  by (simp add: rd_def nth_append)

lemma rd_block_length: "rd_block d i n = Some b \<Longrightarrow> length b = n"
  by (auto simp: rd_block_def split: if_splits)

lemma rd_block_append: "rd_block (a @ b @ c) (length a) (length b) = Some b"
  by (simp add: rd_block_def)

section \<open>Byte orders\<close>

text \<open>\<open>be16\<close> is what \<open>htons\<close> leaves in memory, \<open>le16\<close> what a plain store of a
  16-bit integer leaves there.\<close>

definition be16 :: "u16 \<Rightarrow> byte list" where
  "be16 w = [ucast (drop_bit 8 w), ucast w]"

definition le16 :: "u16 \<Rightarrow> byte list" where
  "le16 w = [ucast w, ucast (drop_bit 8 w)]"

definition be32 :: "u32 \<Rightarrow> byte list" where
  "be32 w = be16 (ucast (drop_bit 16 w)) @ be16 (ucast w)"

definition bytes_be16 :: "byte \<Rightarrow> byte \<Rightarrow> u16" where
  "bytes_be16 a b = ucast a * 256 + ucast b"

lemma length_be16 [simp, wire]: "length (be16 w) = 2"
  by (simp add: be16_def)

lemma length_le16 [simp, wire]: "length (le16 w) = 2"
  by (simp add: le16_def)

lemma length_be32 [simp, wire]: "length (be32 w) = 4"
  by (simp add: be32_def)

lemma unat_drop: "unat (drop_bit n w) = unat w div 2 ^ n" for w :: "'a::len word"
  by (simp add: unat_drop_bit_eq drop_bit_eq_div [where ?'a = nat])

lemma unat_cast: "unat (ucast w :: 'c::len word) = unat w mod 2 ^ LENGTH('c)" for w :: "'a::len word"
  by (simp add: unsigned_ucast_eq take_bit_eq_mod)

lemma unat_hi_byte: "unat (ucast (drop_bit 8 (w :: u16)) :: byte) = unat w div 256"
proof -
  have "unat w < 65536" using unsigned_less [of w, where ?'a = nat] by simp
  then show ?thesis by (simp add: unat_cast unat_drop)
qed

lemma unat_lo_byte: "unat (ucast (w :: u16) :: byte) = unat w mod 256"
  by (simp add: unat_cast)

lemma unat_byte_less [simp]: "unat (b :: byte) < 256"
  using unsigned_less [of b, where ?'a = nat] by simp

lemma unat_u16_less [simp]: "unat (w :: u16) < 65536"
  using unsigned_less [of w, where ?'a = nat] by simp

lemma unat_u32_less [simp]: "unat (w :: u32) < 4294967296"
  using unsigned_less [of w, where ?'a = nat] by simp

lemma unat_ucast_byte16 [simp]: "unat (ucast (b :: byte) :: u16) = unat b"
  by (simp add: unat_cast order.strict_trans [OF unat_byte_less] order.strict_trans [OF unat_u16_less])

lemma unat_ucast_byte32 [simp]: "unat (ucast (b :: byte) :: u32) = unat b"
  by (simp add: unat_cast order.strict_trans [OF unat_byte_less] order.strict_trans [OF unat_u16_less])

lemma unat_ucast_u16_32 [simp]: "unat (ucast (w :: u16) :: u32) = unat w"
  by (simp add: unat_cast order.strict_trans [OF unat_byte_less] order.strict_trans [OF unat_u16_less])

lemma unat_bytes_be16: "unat (bytes_be16 a b) = unat a * 256 + unat b"
proof -
  have "unat a * 256 + unat b < 65536" using unat_byte_less [of a] unat_byte_less [of b] by linarith
  then show ?thesis by (simp add: bytes_be16_def unat_word_ariths)
qed

lemma bytes_be16_parts: "bytes_be16 (ucast (drop_bit 8 w)) (ucast w) = w"
proof (rule word_unat_eq_iff [THEN iffD2])
  show "unat (bytes_be16 (ucast (drop_bit 8 w)) (ucast w)) = unat w"
    by (simp only: unat_bytes_be16 unat_hi_byte) (simp add: unat_lo_byte)
qed

lemma rd_be16_bytes:
  "rd_be16 d i = (if Suc i < length d then Some (bytes_be16 (d ! i) (d ! Suc i)) else None)"
  by (auto simp: rd_be16_def rd_def bytes_be16_def)

text \<open>Round trips of the byte orders.\<close>

lemma rd_be16_at: "rd_be16 (a @ be16 w @ b) (length a) = Some w"
  by (simp add: rd_be16_bytes be16_def nth_append bytes_be16_parts)

lemma rd_le16_at: "rd_le16 (a @ le16 w @ b) (length a) = Some w"
  using bytes_be16_parts [of w] by (simp add: rd_le16_def rd_def le16_def nth_append bytes_be16_def)

lemma u32_halves: "ucast (ucast (drop_bit 16 w) :: u16) * 65536 + ucast (ucast w :: u16) = (w :: u32)"
proof -
  have "unat w div 65536 < 65536" using unat_u32_less [of w] by linarith
  then have "unat (ucast (drop_bit 16 w) :: u16) = unat w div 65536"
    by (simp add: unat_cast unat_drop)
  moreover have "unat (ucast w :: u16) = unat w mod 65536" by (simp add: unat_cast)
  moreover have "unat w div 65536 * 65536 < 4294967296" using unat_u32_less [of w] by linarith
  moreover have "unat w div 65536 * 65536 + unat w mod 65536 = unat w" by simp
  ultimately show ?thesis
    by (intro word_unat_eq_iff [THEN iffD2]) (simp add: unat_word_ariths)
qed

lemma rd_be32_at: "rd_be32 (a @ be32 w @ b) (length a) = Some w"
proof -
  let ?h = "ucast (drop_bit 16 w) :: u16" and ?l = "ucast w :: u16"
  have "rd_be16 (a @ be16 ?h @ (be16 ?l @ b)) (length a) = Some ?h" by (rule rd_be16_at)
  moreover have "rd_be16 ((a @ be16 ?h) @ be16 ?l @ b) (length (a @ be16 ?h)) = Some ?l"
    by (rule rd_be16_at)
  ultimately show ?thesis by (simp add: rd_be32_def be32_def u32_halves)
qed

section \<open>C strings\<close>

text \<open>The bytes of a C string literal, without its terminating NUL, and the part of a buffer
  before its first NUL (what \<open>strlen\<close>, \<open>strcpy\<close> and \<open>strncpy\<close> see).\<close>

definition cstr :: "string \<Rightarrow> byte list" where
  "cstr s = map of_char s"

definition upto_nul :: "byte list \<Rightarrow> byte list" where
  "upto_nul d = takeWhile (\<lambda>b. b \<noteq> 0) d"

lemma length_cstr [simp]: "length (cstr s) = length s"
  by (simp add: cstr_def)

lemma length_upto_nul_le: "length (upto_nul d) \<le> length d"
  by (simp add: upto_nul_def length_takeWhile_le)

text \<open>\<open>strncpy\<close> reads up to \<open>n\<close> bytes and stops at a NUL; the value is the C string copied.\<close>

definition strncpy :: "byte list \<Rightarrow> nat \<Rightarrow> nat \<Rightarrow> byte list option" where
  "strncpy d i n =
     (let s = take n (drop i d) in if length s = n \<or> 0 \<in> set s then Some (upto_nul s) else None)"

lemma strncpy_ok: "i + n \<le> length d \<Longrightarrow> strncpy d i n = Some (upto_nul (take n (drop i d)))"
  by (simp add: strncpy_def Let_def)

text \<open>\<open>strncasecmp (s, d + i, strlen (s)) == 0\<close> for a literal \<open>s\<close>: it reads \<open>d\<close> up to the first
  difference.\<close>

definition tolower :: "byte \<Rightarrow> byte" where
  "tolower b = (if 65 \<le> b \<and> b \<le> 90 then b + 32 else b)"

fun strncasecmp_eq :: "byte list \<Rightarrow> byte list \<Rightarrow> nat \<Rightarrow> bool option" where
  "strncasecmp_eq [] d i = Some True"
| "strncasecmp_eq (c # cs) d i = do {
     b \<leftarrow> rd d i;
     if tolower b = tolower c then strncasecmp_eq cs d (i + 1) else Some False
   }"

lemma strncasecmp_eq_defined:
  "i + length s \<le> length d \<Longrightarrow>
     strncasecmp_eq s d i = Some (map tolower (take (length s) (drop i d)) = map tolower s)"
proof (induction s arbitrary: i)
  case (Cons c cs)
  then have "drop i d = d ! i # drop (i + 1) d" using Cons_nth_drop_Suc [of i d] by simp
  with Cons show ?case by (auto simp: rd_def)
qed simp

lemma strncasecmp_eq_True:
  "strncasecmp_eq s d i = Some True \<Longrightarrow>
     i + length s \<le> max i (length d) \<and> map tolower (take (length s) (drop i d)) = map tolower s"
proof (induction s arbitrary: i)
  case (Cons c cs)
  then have i: "i < length d" and e: "tolower (d ! i) = tolower c" and
    r: "strncasecmp_eq cs d (i + 1) = Some True"
    by (auto simp: rd_def split: if_splits)
  have "drop i d = d ! i # drop (i + 1) d" using i Cons_nth_drop_Suc [of i d] by simp
  with Cons.IH [OF r] i e show ?case by auto
qed simp

section \<open>Small facts on lists and options\<close>

lemma bind_Some_iff: "Option.bind m f = Some y \<longleftrightarrow> (\<exists>x. m = Some x \<and> f x = Some y)"
  by (cases m) auto

lemma take_drop_split: "n \<le> length xs \<Longrightarrow> take n xs @ drop n xs = xs"
  by simp

section \<open>Loops that may not end\<close>

text \<open>The first \<open>n\<close> passes of a loop whose body goes on (\<open>Inl\<close>), ends it (\<open>Inr\<close>) or has undefined
  behaviour (\<open>None\<close>). A loop that is still at \<open>Inl\<close> after every number of passes does not end.\<close>

fun passes :: "nat \<Rightarrow> ('s \<Rightarrow> ('s + 'r) option) \<Rightarrow> 's \<Rightarrow> ('s + 'r) option" where
  "passes 0 body x = Some (Inl x)"
| "passes (Suc n) body x =
     (case body x of None \<Rightarrow> None | Some (Inr r) \<Rightarrow> Some (Inr r) | Some (Inl y) \<Rightarrow> passes n body y)"

lemma passes_trapped:
  assumes "P x" "\<And>x. P x \<Longrightarrow> \<exists>y. body x = Some (Inl y) \<and> P y"
  shows "\<exists>y. passes n body x = Some (Inl y) \<and> P y"
  using assms(1)
proof (induction n arbitrary: x)
  case (Suc n)
  from assms(2) [OF Suc.prems] obtain y where "body x = Some (Inl y)" "P y" by blast
  with Suc.IH [of y] show ?case by simp
qed simp

end
