(* ===== verification/Kernel.thy ===== *)
theory Kernel
  imports Prelude
begin

text \<open>
  The operating system as the code meets it. What each call answers is not under the
  repository's control, so it is a parameter: an \<open>os\<close> gives, for the \<open>n\<close>-th call made, the
  answer of that call, whichever it is. What POSIX promises of an answer is built into the calls:
  \<open>send\<close>, \<open>sendto\<close> and \<open>write\<close> return \<open>-1\<close> or a count of at most the bytes offered,
  \<open>recv\<close> fills at most the buffer, \<open>socket\<close> returns a descriptor that is not open, and a
  call on a descriptor that is not open fails with \<open>EBADF\<close>. The state \<open>io\<close> counts the calls,
  holds the open descriptors and what \<open>recv\<close> will find on each, and records every effect in
  order. \<open>malloc\<close> is taken to succeed (the code never checks it); logging has no effect.
\<close>

section \<open>Constants\<close>

definition EINTR :: int where "EINTR = 4"
definition EBADF :: int where "EBADF = 9"
definition EAGAIN :: int where "EAGAIN = 11"
definition EINPROGRESS :: int where "EINPROGRESS = 115"

definition EPOLLIN :: u32 where "EPOLLIN = 1"
definition EPOLLOUT :: u32 where "EPOLLOUT = 4"
definition EPOLLERR :: u32 where "EPOLLERR = 8"

definition IPPROTO_ICMP :: byte where "IPPROTO_ICMP = 1"
definition IPPROTO_TCP :: byte where "IPPROTO_TCP = 6"
definition IPPROTO_UDP :: byte where "IPPROTO_UDP = 17"
definition IPPROTO_ICMPV6 :: byte where "IPPROTO_ICMPV6 = 58"

definition IPDEFTTL :: byte where "IPDEFTTL = 64"

text \<open>The definitions of \<^verbatim>\<open>tun2http.h\<close>; times are in seconds but for \<open>EPOLL_MIN_CHECK\<close>.\<close>

definition EPOLL_TIMEOUT :: int where "EPOLL_TIMEOUT = 3600"
definition EPOLL_MIN_CHECK :: int where "EPOLL_MIN_CHECK = 100"
definition ICMP_TIMEOUT :: int where "ICMP_TIMEOUT = 15"
definition UDP_TIMEOUT_53 :: int where "UDP_TIMEOUT_53 = 15"
definition UDP_TIMEOUT_ANY :: int where "UDP_TIMEOUT_ANY = 300"
definition UDP_KEEP_TIMEOUT :: int where "UDP_KEEP_TIMEOUT = 60"
definition TCP_INIT_TIMEOUT :: int where "TCP_INIT_TIMEOUT = 30"
definition TCP_IDLE_TIMEOUT :: int where "TCP_IDLE_TIMEOUT = 3600"
definition TCP_CLOSE_TIMEOUT :: int where "TCP_CLOSE_TIMEOUT = 30"
definition TCP_KEEP_TIMEOUT :: int where "TCP_KEEP_TIMEOUT = 300"
definition SESSION_LIMIT :: nat where "SESSION_LIMIT = 40"
definition MTU :: u16 where "MTU = 10000"

definition ICMP4_MAXMSG :: nat where "ICMP4_MAXMSG = 65535 - 20 - 8"
definition ICMP6_MAXMSG :: nat where "ICMP6_MAXMSG = 65535 - 40 - 8"
definition UDP4_MAXMSG :: nat where "UDP4_MAXMSG = 65535 - 20 - 8"
definition UDP6_MAXMSG :: nat where "UDP6_MAXMSG = 65535 - 40 - 8"

section \<open>Answers, effects and the io state\<close>

datatype answer = Fails int | Returns nat

text \<open>A line of a table of \<^verbatim>\<open>/proc/net\<close> as \<open>sscanf\<close> reads it: source port, remote address in
  hexadecimal, remote port, user.\<close>

record proc_line =
  pl_sport :: int
  pl_hex :: "byte list"
  pl_dport :: int
  pl_uid :: int

text \<open>The environment; \<open>os_signed_char\<close> is the signedness of \<open>char\<close> on the target,
  \<open>os_garbage\<close> what uninitialised memory holds,
  \<open>os_proc\<close> the lines of a file after the first (\<open>None\<close> for one that does not have four fields). What one
  \<open>recv\<close> finds: an error, or bytes (none at end of file). A datagram longer than the
  buffer is cut; on a stream the rest stays.\<close>

datatype rx = Rx_Err int | Rx_Data "byte list"

record os =
  os_signed_char :: bool
  os_garbage :: "nat \<Rightarrow> byte"
  os_time :: "nat \<Rightarrow> int"
  os_ms :: "nat \<Rightarrow> int"
  os_tun_write :: "nat \<Rightarrow> answer"
  os_tun_read :: "nat \<Rightarrow> rx"
  os_send :: "nat \<Rightarrow> answer"
  os_sndbuf :: "nat \<Rightarrow> int option"
  os_outq :: "nat \<Rightarrow> int option"
  os_epoll_ctl :: "nat \<Rightarrow> bool"
  os_socket :: "nat \<Rightarrow> answer"
  os_protect :: "nat \<Rightarrow> bool"
  os_fcntl :: "nat \<Rightarrow> bool"
  os_connect :: "nat \<Rightarrow> answer"
  os_rand :: "nat \<Rightarrow> u32"
  os_poll :: "nat \<Rightarrow> bool"
  os_sockname :: "nat \<Rightarrow> u16 option"
  os_proc :: "string \<Rightarrow> proc_line option list option"

text \<open>Where a socket is connected to: an address of the packet, or the configured proxy.\<close>

datatype endpoint = Addr4 "byte list" u16 | Addr6 "byte list" u16
  | Proxy4 "byte list" u16 | Proxy6 "byte list" u16

datatype effect =
    Tun_Write "byte list" int
  | Sock_Open int
  | Sock_Close int
  | Bad_Close int
  | Sock_Connect int endpoint
  | Sock_Send int "byte list" bool int
  | Sock_Sendto int "byte list" endpoint int
  | Sock_Recv int rx
  | Sock_Option int string
  | Epoll_Add int u32
  | Epoll_Mod int u32

record io =
  tick :: nat
  fds :: "int list"
  rxq :: "int \<Rightarrow> rx list"
  trace :: "effect list"

definition step_io :: "effect list \<Rightarrow> io \<Rightarrow> io" where
  "step_io es w = w\<lparr>tick := tick w + 1, trace := trace w @ es\<rparr>"

section \<open>The calls\<close>

definition sys_time :: "os \<Rightarrow> io \<Rightarrow> int \<times> io" where
  "sys_time os w = (os_time os (tick w), step_io [] w)"

definition sys_ms :: "os \<Rightarrow> io \<Rightarrow> int \<times> io" where
  "sys_ms os w = (os_ms os (tick w), step_io [] w)"

definition sys_rand :: "os \<Rightarrow> io \<Rightarrow> u32 \<times> io" where
  "sys_rand os w = (os_rand os (tick w), step_io [] w)"

text \<open>The count a transfer returns, and the errno it leaves.\<close>

definition transfer :: "answer \<Rightarrow> nat \<Rightarrow> int \<times> int" where
  "transfer a n = (case a of Fails e \<Rightarrow> (- 1, e) | Returns k \<Rightarrow> (int (min k n), 0))"

definition sys_tun_write :: "os \<Rightarrow> byte list \<Rightarrow> io \<Rightarrow> int \<times> io" where
  "sys_tun_write os buf w =
     (let r = fst (transfer (os_tun_write os (tick w)) (length buf))
      in (r, step_io [Tun_Write buf r] w))"

definition sys_tun_read :: "os \<Rightarrow> nat \<Rightarrow> io \<Rightarrow> rx \<times> io" where
  "sys_tun_read os n w =
     (case os_tun_read os (tick w) of Rx_Err e \<Rightarrow> Rx_Err e | Rx_Data bs \<Rightarrow> Rx_Data (take n bs), step_io [] w)"

definition sys_send :: "os \<Rightarrow> int \<Rightarrow> byte list \<Rightarrow> bool \<Rightarrow> io \<Rightarrow> (int \<times> int) \<times> io" where
  "sys_send os fd buf msg_more w =
     (let r = (if 0 \<le> fd \<and> fd \<in> set (fds w) then transfer (os_send os (tick w)) (length buf)
               else (- 1, EBADF))
      in (r, step_io [Sock_Send fd buf msg_more (fst r)] w))"

definition sys_sendto :: "os \<Rightarrow> int \<Rightarrow> byte list \<Rightarrow> endpoint \<Rightarrow> io \<Rightarrow> (int \<times> int) \<times> io" where
  "sys_sendto os fd buf ep w =
     (let r = (if 0 \<le> fd \<and> fd \<in> set (fds w) then transfer (os_send os (tick w)) (length buf)
               else (- 1, EBADF))
      in (r, step_io [Sock_Sendto fd buf ep (fst r)] w))"

definition sys_recv :: "int \<Rightarrow> nat \<Rightarrow> io \<Rightarrow> rx \<times> io" where
  "sys_recv fd n w =
     (let (r, q) =
        (if fd \<notin> set (fds w) then (Rx_Err EBADF, rxq w fd)
         else case rxq w fd of
             [] \<Rightarrow> (Rx_Err EAGAIN, [])
           | Rx_Err e # q \<Rightarrow> (Rx_Err e, q)
           | Rx_Data bs # q \<Rightarrow> (Rx_Data (take n bs), q))
      in (r, step_io [Sock_Recv fd r] (w\<lparr>rxq := (rxq w)(fd := q)\<rparr>)))"

text \<open>\<open>recv\<close> on a stream: what does not fit stays for the next call, and so does the end of file.\<close>

definition sys_recv_stream :: "int \<Rightarrow> nat \<Rightarrow> io \<Rightarrow> rx \<times> io" where
  "sys_recv_stream fd n w =
     (let (r, q) =
        (if fd < 0 \<or> fd \<notin> set (fds w) then (Rx_Err EBADF, rxq w fd)
         else case rxq w fd of
             [] \<Rightarrow> (Rx_Err EAGAIN, [])
           | Rx_Err e # q \<Rightarrow> (Rx_Err e, q)
           | Rx_Data bs # q \<Rightarrow>
               (Rx_Data (take n bs), if bs = [] \<or> n < length bs then Rx_Data (drop n bs) # q else q))
      in (r, step_io [Sock_Recv fd r] (w\<lparr>rxq := (rxq w)(fd := q)\<rparr>)))"

definition sys_close :: "int \<Rightarrow> io \<Rightarrow> io" where
  "sys_close fd w =
     (if fd \<in> set (fds w) then step_io [Sock_Close fd] (w\<lparr>fds := removeAll fd (fds w)\<rparr>)
      else step_io [Bad_Close fd] w)"

definition sys_socket :: "os \<Rightarrow> io \<Rightarrow> int \<times> io" where
  "sys_socket os w =
     (case os_socket os (tick w) of
        Fails e \<Rightarrow> (- 1, step_io [] w)
      | Returns n \<Rightarrow>
          if int n \<in> set (fds w) then (- 1, step_io [] w)
          else (int n, step_io [Sock_Open (int n)] (w\<lparr>fds := int n # fds w\<rparr>)))"

definition sys_protect :: "os \<Rightarrow> int \<Rightarrow> io \<Rightarrow> bool \<times> io" where
  "sys_protect os fd w = (os_protect os (tick w), step_io [] w)"

definition sys_fcntl :: "os \<Rightarrow> int \<Rightarrow> io \<Rightarrow> bool \<times> io" where
  "sys_fcntl os fd w = (os_fcntl os (tick w), step_io [] w)"

definition sys_connect :: "os \<Rightarrow> int \<Rightarrow> endpoint \<Rightarrow> io \<Rightarrow> (int \<times> int) \<times> io" where
  "sys_connect os fd ep w =
     (case os_connect os (tick w) of Fails e \<Rightarrow> (- 1, e) | Returns _ \<Rightarrow> (0, 0),
      step_io [Sock_Connect fd ep] w)"

definition sys_setsockopt :: "int \<Rightarrow> string \<Rightarrow> io \<Rightarrow> io" where
  "sys_setsockopt fd opt w = step_io [Sock_Option fd opt] w"

definition sys_sndbuf :: "os \<Rightarrow> int \<Rightarrow> io \<Rightarrow> int option \<times> io" where
  "sys_sndbuf os fd w = (os_sndbuf os (tick w), step_io [] w)"

definition sys_outq :: "os \<Rightarrow> int \<Rightarrow> io \<Rightarrow> int option \<times> io" where
  "sys_outq os fd w = (os_outq os (tick w), step_io [] w)"

definition sys_epoll_add :: "os \<Rightarrow> int \<Rightarrow> u32 \<Rightarrow> io \<Rightarrow> bool \<times> io" where
  "sys_epoll_add os fd ev w = (os_epoll_ctl os (tick w), step_io [Epoll_Add fd ev] w)"

definition sys_epoll_mod :: "os \<Rightarrow> int \<Rightarrow> u32 \<Rightarrow> io \<Rightarrow> bool \<times> io" where
  "sys_epoll_mod os fd ev w = (os_epoll_ctl os (tick w), step_io [Epoll_Mod fd ev] w)"

text \<open>\<open>is_readable\<close> of \<^verbatim>\<open>util.c\<close>: \<open>poll\<close> with no timeout; it ignores negative descriptors.\<close>

definition is_readable :: "os \<Rightarrow> int \<Rightarrow> io \<Rightarrow> bool \<times> io" where
  "is_readable os fd w = (0 \<le> fd \<and> os_poll os (tick w), step_io [] w)"

text \<open>\<open>is_writable\<close>, the same for the other event, which nothing calls; and \<open>get_local_port\<close>, the name of a
  socket, which is asked for in order to log it.\<close>

definition is_writable :: "os \<Rightarrow> int \<Rightarrow> io \<Rightarrow> bool \<times> io" where
  "is_writable os fd w = (0 \<le> fd \<and> os_poll os (tick w), step_io [] w)"

definition get_local_port :: "os \<Rightarrow> int \<Rightarrow> io \<Rightarrow> int \<times> io" where
  "get_local_port os fd w = (case os_sockname os (tick w) of None \<Rightarrow> - 1 | Some port \<Rightarrow> uint port, step_io [] w)"

text \<open>A buffer of \<open>n\<close> bytes of which the first are known.\<close>

definition buffer_of :: "os \<Rightarrow> nat \<Rightarrow> byte list \<Rightarrow> byte list" where
  "buffer_of os n bs = bs @ map (os_garbage os) [length bs..<n]"

text \<open>An environment in which every call succeeds at once and time stands still, for examples.\<close>

definition calm_os :: os where
  "calm_os = \<lparr>os_signed_char = True, os_garbage = (\<lambda>_. 0), os_time = (\<lambda>_. 1000), os_ms = (\<lambda>_. 1000000), os_tun_write = (\<lambda>_. Returns 100000),
     os_tun_read = (\<lambda>_. Rx_Err EAGAIN), os_send = (\<lambda>_. Returns 100000), os_sndbuf = (\<lambda>_. Some 65536),
     os_outq = (\<lambda>_. Some 0), os_epoll_ctl = (\<lambda>_. True), os_socket = (\<lambda>n. Returns (n + 10)),
     os_protect = (\<lambda>_. True), os_fcntl = (\<lambda>_. True), os_connect = (\<lambda>_. Fails EINPROGRESS),
     os_rand = (\<lambda>_. 7000), os_poll = (\<lambda>_. False), os_sockname = (\<lambda>_. None), os_proc = (\<lambda>_. None)\<rparr>"

definition empty_io :: io where
  "empty_io = \<lparr>tick = 0, fds = [], rxq = (\<lambda>_. []), trace = []\<rparr>"

section \<open>How the calls change the io state\<close>

lemma step_io_simps [simp, io_simps]:
  "fds (step_io es w) = fds w" "trace (step_io es w) = trace w @ es"
  "tick (step_io es w) = Suc (tick w)" "rxq (step_io es w) = rxq w"
  by (simp_all add: step_io_def)

lemma transfer_le: "fst (transfer a n) \<le> int n" and transfer_ge: "- 1 \<le> fst (transfer a n)"
  by (simp_all add: transfer_def split: answer.split)

lemmas sys_defs = sys_time_def sys_ms_def sys_rand_def sys_tun_write_def sys_send_def sys_sendto_def
  sys_protect_def sys_fcntl_def sys_connect_def sys_setsockopt_def sys_sndbuf_def sys_outq_def
  sys_epoll_add_def sys_epoll_mod_def is_readable_def Let_def

text \<open>Only \<open>socket\<close> and \<open>close\<close> change the set of open descriptors.\<close>

lemma fds_sys [simp, io_simps]:
  "fds (snd (sys_time os w)) = fds w" "fds (snd (sys_ms os w)) = fds w"
  "fds (snd (sys_rand os w)) = fds w" "fds (snd (sys_tun_write os b w)) = fds w"
  "fds (snd (sys_send os fd b m w)) = fds w" "fds (snd (sys_sendto os fd b ep w)) = fds w"
  "fds (snd (sys_protect os fd w)) = fds w" "fds (snd (sys_fcntl os fd w)) = fds w"
  "fds (snd (sys_connect os fd ep w)) = fds w" "fds (sys_setsockopt fd opt w) = fds w"
  "fds (snd (sys_sndbuf os fd w)) = fds w" "fds (snd (sys_outq os fd w)) = fds w"
  "fds (snd (sys_epoll_add os fd ev w)) = fds w" "fds (snd (sys_epoll_mod os fd ev w)) = fds w"
  "fds (snd (is_readable os fd w)) = fds w"
  by (simp_all add: sys_defs)

lemma fds_sys_recv [simp, io_simps]: "fds (snd (sys_recv fd n w)) = fds w"
  by (simp add: sys_recv_def Let_def split: prod.split)

lemma fds_sys_close [simp, io_simps]: "set (fds (sys_close fd w)) = set (fds w) - {fd}"
  by (auto simp: sys_close_def)

lemma sys_socket_cases:
  "(fst (sys_socket os w) = - 1 \<and> fds (snd (sys_socket os w)) = fds w) \<or>
   (0 \<le> fst (sys_socket os w) \<and> fst (sys_socket os w) \<notin> set (fds w) \<and>
    fds (snd (sys_socket os w)) = fst (sys_socket os w) # fds w)"
  by (simp add: sys_socket_def split: answer.split)

lemma sys_recv_length: "sys_recv fd n w = (Rx_Data bs, w') \<Longrightarrow> length bs \<le> n"
  by (auto simp: sys_recv_def Let_def split: if_splits list.splits rx.splits prod.splits)

subsection \<open>Clean traces: no descriptor is closed that is not open\<close>

definition clean :: "io \<Rightarrow> bool" where
  "clean w \<longleftrightarrow> (\<forall>fd. Bad_Close fd \<notin> set (trace w))"

lemma clean_sys [simp, io_simps]:
  "clean (snd (sys_time os w)) = clean w" "clean (snd (sys_ms os w)) = clean w"
  "clean (snd (sys_rand os w)) = clean w" "clean (snd (sys_tun_write os b w)) = clean w"
  "clean (snd (sys_send os fd b m w)) = clean w" "clean (snd (sys_sendto os fd b ep w)) = clean w"
  "clean (snd (sys_protect os fd w)) = clean w" "clean (snd (sys_fcntl os fd w)) = clean w"
  "clean (snd (sys_connect os fd ep w)) = clean w" "clean (sys_setsockopt fd opt w) = clean w"
  "clean (snd (sys_sndbuf os fd w)) = clean w" "clean (snd (sys_outq os fd w)) = clean w"
  "clean (snd (sys_epoll_add os fd ev w)) = clean w" "clean (snd (sys_epoll_mod os fd ev w)) = clean w"
  "clean (snd (is_readable os fd w)) = clean w" "clean (snd (sys_recv fd n w)) = clean w"
  "clean (snd (sys_socket os w)) = clean w"
  by (auto simp: clean_def sys_defs sys_recv_def sys_socket_def split: prod.split answer.split)

lemma sys_recv_stream_io [simp, io_simps]:
  "fds (snd (sys_recv_stream fd n w)) = fds w" "clean (snd (sys_recv_stream fd n w)) = clean w"
  by (auto simp: sys_recv_stream_def Let_def clean_def split: prod.split)

lemma sys_recv_stream_length: "sys_recv_stream fd n w = (Rx_Data bs, w') \<Longrightarrow> length bs \<le> n"
  by (auto simp: sys_recv_stream_def Let_def split: if_splits list.splits rx.splits prod.splits)

text \<open>What a stream still holds for its reader.\<close>

fun rx_size :: "rx list \<Rightarrow> nat" where
  "rx_size [] = 0"
| "rx_size (Rx_Err e # q) = 1 + rx_size q"
| "rx_size (Rx_Data bs # q) = 1 + length bs + rx_size q"

lemma sys_recv_stream_size:
  "sys_recv_stream fd n w = (Rx_Data bs, w') \<Longrightarrow> bs \<noteq> [] \<Longrightarrow> rx_size (rxq w' fd) < rx_size (rxq w fd)"
  by (auto simp: sys_recv_stream_def Let_def split: if_splits list.splits rx.splits prod.splits)

lemma clean_sys_close [simp, io_simps]: "clean (sys_close fd w) \<longleftrightarrow> clean w \<and> fd \<in> set (fds w)"
  by (auto simp: clean_def sys_close_def)

end
