(* ===== verification/Util.thy ===== *)
theory Util
  imports Prelude
begin

text \<open>
  \<^verbatim>\<open>app/src/main/cpp/util.c\<close>: the internet checksum, the comparison of TCP sequence
  numbers, hexadecimal text, and trimming. The checksum is characterised by ones' complement
  arithmetic on the sum of the 16-bit words, and the interface \<open>ones_sum\<close> gives its clients
  (the packet writers) the two laws they need: sums continue across buffers, and a checksum
  stored in its field makes the whole verify.
\<close>

section \<open>The internet checksum\<close>

text \<open>The first loop of \<open>calc_checksum\<close>: little-endian 16-bit words, then an odd last byte.\<close>

fun csum_words :: "u32 \<Rightarrow> byte list \<Rightarrow> u32" where
  "csum_words s (a # b # buf) = csum_words (s + (ucast a + ucast b * 256)) buf"
| "csum_words s [a] = s + ucast a"
| "csum_words s [] = s"

text \<open>The second loop folds the carries back in; it stops because folding shrinks the sum.\<close>

function csum_fold :: "u32 \<Rightarrow> u32" where
  "csum_fold s = (if drop_bit 16 s \<noteq> 0 then csum_fold ((s AND 0xFFFF) + drop_bit 16 s) else s)"
  by pat_completeness auto

lemma unat_drop16: "unat (drop_bit 16 (s :: u32)) = unat s div 65536"
  by (simp add: unat_drop)

lemma unat_low16: "unat ((s :: u32) AND 0xFFFF) = unat s mod 65536"
proof -
  have "s AND 0xFFFF = take_bit 16 s"
    using take_bit_eq_mask [of 16 s] by (simp add: mask_eq_exp_minus_1)
  then show ?thesis by (simp add: unsigned_take_bit_eq take_bit_eq_mod [where ?'a = nat])
qed

lemma unat_fold_step:
  "unat ((s AND 0xFFFF) + drop_bit 16 (s :: u32)) = unat s mod 65536 + unat s div 65536"
proof -
  have "unat s div 65536 < 65536" using unat_u32_less [of s] by linarith
  then have "unat s mod 65536 + unat s div 65536 < 4294967296"
    using mod_less_divisor [of 65536 "unat s"] by linarith
  then show ?thesis by (simp add: unat_word_ariths unat_drop16 unat_low16)
qed

termination csum_fold
proof (relation "measure unat", simp)
  fix s :: u32
  assume "drop_bit 16 s \<noteq> 0"
  then have "unat s div 65536 \<noteq> 0" by (metis unat_drop16 unat_eq_zero)
  moreover have "unat s = unat s div 65536 * 65536 + unat s mod 65536" by simp
  ultimately have "unat s mod 65536 + unat s div 65536 < unat s" by linarith
  then show "((s AND 0xFFFF) + drop_bit 16 s, s) \<in> measure unat"
    by (simp add: unat_fold_step)
qed

declare csum_fold.simps [simp del]

definition calc_checksum :: "u16 \<Rightarrow> byte list \<Rightarrow> u16" where
  "calc_checksum start buffer = ucast (csum_fold (csum_words (ucast start) buffer))"

subsection \<open>What it computes\<close>

text \<open>The sum of the 16-bit words as a natural number, and its ones' complement residue: 0 only
  for 0, else the representative of the class modulo 65535 between 1 and 65535.\<close>

fun word_sum :: "byte list \<Rightarrow> nat" where
  "word_sum (a # b # buf) = unat a + unat b * 256 + word_sum buf"
| "word_sum [a] = unat a"
| "word_sum [] = 0"

definition ones_norm :: "nat \<Rightarrow> nat" where
  "ones_norm n = (if n = 0 then 0 else (n - 1) mod 65535 + 1)"

lemma word_sum_bound: "word_sum b \<le> 65535 * ((length b + 1) div 2)"
proof (induction b rule: word_sum.induct)
  case (1 a b buf)
  have "unat a + unat b * 256 \<le> 65535"
    using unat_byte_less [of a] unat_byte_less [of b] by linarith
  with 1 have "word_sum (a # b # buf) \<le> 65535 + 65535 * ((length buf + 1) div 2)"
    unfolding word_sum.simps by linarith
  then show ?case by simp
next
  case (2 a)
  have "unat a \<le> 65535" using unat_byte_less [of a] by linarith
  then show ?case by simp
next
  case 3
  then show ?case by simp
qed

lemma word_sum_append: "even (length a) \<Longrightarrow> word_sum (a @ b) = word_sum a + word_sum b"
  by (induction a rule: word_sum.induct) auto

lemma unat_csum_words:
  "unat s + word_sum b < 4294967296 \<Longrightarrow> unat (csum_words s b) = unat s + word_sum b"
proof (induction s b rule: csum_words.induct)
  case (1 s a b buf)
  have small: "unat a + unat b * 256 < 65536"
    using unat_byte_less [of a] unat_byte_less [of b] by linarith
  then have "unat (ucast a + ucast b * 256 :: u32) = unat a + unat b * 256"
    by (simp add: unat_word_ariths)
  moreover have "unat s + (unat a + unat b * 256) < 4294967296" using 1 by simp
  ultimately have "unat (s + (ucast a + ucast b * 256)) = unat s + (unat a + unat b * 256)"
    by (simp only: unat_plus_if') simp
  with 1 show ?case by simp
next
  case (2 s a)
  then show ?case by (simp add: unat_word_ariths)
next
  case (3 s)
  then show ?case by simp
qed

lemma ones_norm_le: "ones_norm n \<le> 65535"
  by (simp add: ones_norm_def Suc_le_eq)

lemma pred_mod_cong:
  fixes k :: nat
  assumes "m mod k = n mod k" "0 < m" "0 < n"
  shows "(m - Suc 0) mod k = (n - Suc 0) mod k"
  using assms
proof (induction n m rule: linorder_wlog)
  case (le n m)
  then have "k dvd (m - Suc 0) - (n - Suc 0)" by (simp add: mod_eq_dvd_iff_nat [of n m])
  moreover have "n - Suc 0 \<le> m - Suc 0" using le by simp
  ultimately show ?case by (simp only: mod_eq_dvd_iff_nat [of "n - Suc 0" "m - Suc 0"])
next
  case (sym n m)
  then show ?case by simp
qed

lemma ones_norm_cong:
  "m mod 65535 = n mod 65535 \<Longrightarrow> (m = 0 \<longleftrightarrow> n = 0) \<Longrightarrow> ones_norm m = ones_norm n"
  using pred_mod_cong [of m 65535 n] by (auto simp: ones_norm_def)

lemma ones_norm_mod: "ones_norm n mod 65535 = n mod 65535"
proof (cases n)
  case (Suc m)
  then have "ones_norm n = Suc (m mod 65535)" by (simp add: ones_norm_def)
  with Suc show ?thesis by (metis mod_Suc_eq)
qed (simp add: ones_norm_def)

lemma ones_norm_0_iff: "ones_norm n = 0 \<longleftrightarrow> n = 0"
  by (simp add: ones_norm_def)

lemma ones_norm_add: "ones_norm (ones_norm m + n) = ones_norm (m + n)"
  by (rule ones_norm_cong) (simp_all add: ones_norm_0_iff mod_add_cong [OF ones_norm_mod])

lemma ones_norm_small: "n \<le> 65535 \<Longrightarrow> ones_norm n = n"
  by (simp add: ones_norm_def)

lemma ones_norm_complement: "0 < n + m \<Longrightarrow> m = 65535 - ones_norm n \<Longrightarrow> ones_norm (n + m) = 65535"
proof -
  assume *: "0 < n + m" "m = 65535 - ones_norm n"
  then have "ones_norm (n + m) = ones_norm (ones_norm n + m)" by (simp add: ones_norm_add)
  also have "ones_norm n + m = 65535" using * ones_norm_le [of n] by simp
  finally show ?thesis by (simp add: ones_norm_def)
qed

lemma unat_csum_fold: "unat (csum_fold s) = ones_norm (unat s)"
proof (induction s rule: csum_fold.induct)
  case (1 s)
  have eq: "unat s = unat s div 65536 * 65536 + unat s mod 65536" by simp
  show ?case
  proof (cases "drop_bit 16 s = 0")
    case True
    then have "unat s div 65536 = 0" by (metis unat_drop16 unsigned_0)
    then have "unat s \<le> 65535" by simp
    with True show ?thesis by (simp add: csum_fold.simps [of s] ones_norm_small)
  next
    case False
    then have nz: "unat s div 65536 \<noteq> 0" by (metis unat_drop16 unat_0_iff)
    have "unat s = (unat s mod 65536 + unat s div 65536) + 65535 * (unat s div 65536)"
      using eq by linarith
    then have "(unat s mod 65536 + unat s div 65536) mod 65535 = unat s mod 65535"
      by (metis mod_mult_self2)
    with nz eq have "ones_norm (unat s mod 65536 + unat s div 65536) = ones_norm (unat s)"
      by (intro ones_norm_cong) auto
    with 1 False show ?thesis by (simp add: csum_fold.simps [of s] unat_fold_step)
  qed
qed

text \<open>The characterisation: for buffers up to 128 KiB (beyond which the 32-bit sum could
  wrap) the result is the ones' complement sum.\<close>

lemma unat_calc_checksum:
  assumes "length b \<le> 131072"
  shows "unat (calc_checksum start b) = ones_norm (unat start + word_sum b)"
proof -
  have "(length b + 1) div 2 \<le> 65536" using assms by simp
  then have "word_sum b \<le> 65535 * 65536"
    using word_sum_bound [of b] mult_le_mono2 [of "(length b + 1) div 2" 65536 65535] by linarith
  then have *: "unat (ucast start :: u32) + word_sum b < 4294967296"
    using unat_u16_less [of start] unat_ucast_u16_32 [of start] by linarith
  have "ones_norm (unat start + word_sum b) < 65536"
    using ones_norm_le [of "unat start + word_sum b"] by linarith
  then show ?thesis
    by (simp add: calc_checksum_def unat_cast unat_csum_fold unat_csum_words [OF *])
qed

subsection \<open>The interface the packet writers use\<close>

text \<open>
  A checksum routine as its clients see it: \<open>csum\<close> computes the ones' complement residue of
  the start value and the weight of the buffer, the weight is additive over buffers of even
  length, and a 16-bit field weighs what it stores. The clients' laws: the routine continues
  over consecutive buffers, the order of two even buffers does not matter, and storing the
  complement of the sum in a zeroed field makes the whole sum up to \<open>0xFFFF\<close>, which is what a
  receiver checks.
\<close>

lemma unat_not16: "unat (NOT w) = 65535 - unat (w :: u16)"
proof -
  have "NOT w = - 1 - w" by (simp add: not_eq_complement)
  moreover have "unat (- 1 - w) = unat (- 1 :: u16) - unat w"
    by (rule unat_sub) (rule word_order.extremum)
  ultimately show ?thesis by (simp add: unsigned_minus_1_eq_mask mask_eq_exp_minus_1)
qed

lemma unat_FFFF: "unat (0xFFFF :: u16) = 65535"
  by simp

locale ones_sum =
  fixes csum :: "u16 \<Rightarrow> byte list \<Rightarrow> u16"
    and weight :: "byte list \<Rightarrow> nat"
    and store :: "u16 \<Rightarrow> byte list"
    and bound :: nat
  assumes csum_weight: "length b \<le> bound \<Longrightarrow> unat (csum start b) = ones_norm (unat start + weight b)"
    and weight_append: "even (length a) \<Longrightarrow> weight (a @ b) = weight a + weight b"
    and weight_store: "weight (store w) = unat w"
    and length_store: "length (store w) = 2"
begin

lemma csum_chain:
  assumes "even (length a)" and "length (a @ b) \<le> bound"
  shows "csum (csum start a) b = csum start (a @ b)"
proof (rule word_unat_eq_iff [THEN iffD2])
  have "unat (csum (csum start a) b) = ones_norm (ones_norm (unat start + weight a) + weight b)"
    using assms by (simp add: csum_weight)
  also have "\<dots> = unat (csum start (a @ b))"
    using assms by (simp add: csum_weight weight_append ones_norm_add add.assoc)
  finally show "unat (csum (csum start a) b) = unat (csum start (a @ b))" .
qed

lemma csum_perm:
  assumes "even (length a)" and "even (length b)" and "length (a @ b @ c) \<le> bound"
  shows "csum start (a @ b @ c) = csum start (b @ a @ c)"
proof (rule word_unat_eq_iff [THEN iffD2])
  show "unat (csum start (a @ b @ c)) = unat (csum start (b @ a @ c))"
    using assms by (simp add: csum_weight weight_append add_ac)
qed

lemma csum_verifies:
  assumes even: "even (length a)" and len: "length (a @ store 0 @ b) \<le> bound"
    and field: "ck = NOT (csum start (a @ store 0 @ b))"
  shows "csum start (a @ store ck @ b) = 0xFFFF"
proof (rule word_unat_eq_iff [THEN iffD2])
  let ?n = "unat start + (weight a + weight b)"
  have w: "weight (a @ store v @ b) = weight a + (unat v + weight b)" for v
    using even by (simp add: weight_append weight_store length_store)
  have "unat (csum start (a @ store 0 @ b)) = ones_norm ?n"
    using len by (simp add: csum_weight w)
  then have ck: "unat ck = 65535 - ones_norm ?n"
    by (simp add: field unat_not16)
  have "ones_norm (?n + unat ck) = 65535"
    using ones_norm_le [of ?n] ones_norm_0_iff [of ?n] by (intro ones_norm_complement ck) (auto simp: ck)
  moreover have "unat (csum start (a @ store ck @ b)) = ones_norm (?n + unat ck)"
    using len by (simp add: csum_weight w length_store add_ac)
  ultimately show "unat (csum start (a @ store ck @ b)) = unat (0xFFFF :: u16)"
    by (simp only: unat_FFFF)
qed

end

lemma word_sum_le16: "word_sum (le16 w) = unat w"
  by (simp only: le16_def word_sum.simps unat_hi_byte) (simp add: unat_lo_byte)

interpretation inet: ones_sum calc_checksum word_sum le16 131072
  by unfold_locales (simp_all add: unat_calc_checksum word_sum_append word_sum_le16)

section \<open>Comparing sequence numbers\<close>

text \<open>
  \<open>compare_u32\<close> stores its arguments in \<open>int\<close> variables. The subtractions are the
  two's-complement ones of the target (C leaves their overflow undefined).
\<close>

definition compare_u32 :: "u32 \<Rightarrow> u32 \<Rightarrow> int" where
  "compare_u32 s1 s2 =
     (if s1 = s2 then 0
      else if (sint s1 < sint s2 \<and> sint (s2 - s1) < 0x7FFFFFFF)
           \<or> (sint s1 > sint s2 \<and> sint (s1 - s2) > 0x7FFFFFFF) then - 1
      else 1)"

text \<open>RFC 1982 serial number comparison, which the comment in the code cites.\<close>

definition serial_compare :: "u32 \<Rightarrow> u32 \<Rightarrow> int" where
  "serial_compare s1 s2 = (if s1 = s2 then 0 else if sint (s1 - s2) < 0 then - 1 else 1)"

lemma sint_diff_wrap:
  "sint (a - b) =
     (if sint a - sint b < - 2147483648 then sint a - sint b + 4294967296
      else if sint a - sint b < 2147483648 then sint a - sint b
      else sint a - sint b - 4294967296)" for a b :: u32
proof -
  let ?d = "sint a - sint b"
  have ab: "- 2147483648 \<le> sint a" "sint a < 2147483648" "- 2147483648 \<le> sint b" "sint b < 2147483648"
    using sint_ge [of a] sint_lt [of a] sint_ge [of b] sint_lt [of b] by simp_all
  have eq: "sint (a - b) = (?d + 2147483648) mod 4294967296 - 2147483648"
    by (simp add: sint_word_ariths(2) signed_take_bit_eq_take_bit_shift take_bit_eq_mod)
  have "(?d + 2147483648) mod 4294967296 =
     (if ?d < - 2147483648 then ?d + 6442450944
      else if ?d < 2147483648 then ?d + 2147483648 else ?d - 2147483648)"
  proof -
    have "?d < - 2147483648 \<Longrightarrow> (?d + 2147483648) mod 4294967296 = ?d + 6442450944"
      using ab mod_pos_pos_trivial [of "?d + 6442450944" 4294967296]
        mod_add_self2 [of "?d + 2147483648" 4294967296] by (simp add: algebra_simps)
    moreover have "- 2147483648 \<le> ?d \<Longrightarrow> ?d < 2147483648 \<Longrightarrow>
        (?d + 2147483648) mod 4294967296 = ?d + 2147483648"
      by (rule mod_pos_pos_trivial) simp_all
    moreover have "2147483648 \<le> ?d \<Longrightarrow> (?d + 2147483648) mod 4294967296 = ?d - 2147483648"
      using ab mod_pos_pos_trivial [of "?d - 2147483648" 4294967296]
        mod_add_self2 [of "?d - 2147483648" 4294967296] by (simp add: algebra_simps)
    ultimately show ?thesis by simp
  qed
  with eq show ?thesis by simp
qed

lemma sint_eq_iff32: "sint a = sint b \<longleftrightarrow> a = b" for a b :: u32
  by (auto intro: signed_word_eqI)

text \<open>Whatever it was meant to be, \<open>compare_u32\<close> is the plain signed comparison, except
  that two numbers exactly \<open>0x7FFFFFFF\<close> apart compare as greater in both directions.\<close>

lemma compare_u32_signed:
  "compare_u32 a b =
     (if a = b then 0
      else if sint a < sint b \<and> sint b - sint a \<noteq> 0x7FFFFFFF then - 1 else 1)"
proof -
  have "sint a < 2147483648" "- 2147483648 \<le> sint a" "sint b < 2147483648" "- 2147483648 \<le> sint b"
    using sint_ge [of a] sint_lt [of a] sint_ge [of b] sint_lt [of b] by simp_all
  then show ?thesis unfolding compare_u32_def sint_diff_wrap by auto
qed

lemma compare_u32_zero_iff: "compare_u32 a b = 0 \<longleftrightarrow> a = b"
  by (simp add: compare_u32_signed)

text \<open>Where no two numbers are \<open>0x7FFFFFFF\<close> apart, the order is the signed one.\<close>

lemma compare_u32_less:
  "\<bar>sint a - sint b\<bar> \<noteq> 0x7FFFFFFF \<Longrightarrow> compare_u32 a b < 0 \<longleftrightarrow> sint a < sint b"
  by (auto simp: compare_u32_signed)

lemma compare_u32_greater:
  "\<bar>sint a - sint b\<bar> \<noteq> 0x7FFFFFFF \<Longrightarrow> compare_u32 a b > 0 \<longleftrightarrow> sint a > sint b"
  using sint_eq_iff32 [of a b] by (auto simp: compare_u32_signed)

section \<open>Hexadecimal text\<close>

definition char2nible :: "byte \<Rightarrow> byte" where
  "char2nible c =
     (if c \<ge> 48 \<and> c \<le> 57 then c - 48
      else if c \<ge> 97 \<and> c \<le> 102 then (c - 97) + 10
      else if c \<ge> 65 \<and> c \<le> 70 then (c - 65) + 10
      else 255)"

text \<open>\<open>hex2bytes\<close> walks the string in steps of two; an odd last character is paired with
  the terminating NUL.\<close>

fun hex2bytes :: "byte list \<Rightarrow> byte list" where
  "hex2bytes (a # b # h) = (push_bit 4 (char2nible a) OR char2nible b) # hex2bytes h"
| "hex2bytes [a] = [push_bit 4 (char2nible a) OR char2nible 0]"
| "hex2bytes [] = []"

definition hex_digit :: "byte \<Rightarrow> byte" where
  "hex_digit n = cstr ''0123456789ABCDEF'' ! unat n"

definition hex :: "byte list \<Rightarrow> byte list" where
  "hex data = concat (map (\<lambda>b. [hex_digit (drop_bit 4 b AND 0x0F), hex_digit (b AND 0x0F), 32]) data)"

text \<open>The sixteen digits, checked one by one.\<close>

lemma hex_digits_checked:
  "list_all (\<lambda>i. char2nible (hex_digit (word_of_nat i)) = word_of_nat i \<and> hex_digit (word_of_nat i) \<noteq> 32) [0..<16]"
  by (simp add: upt_rec hex_digit_def cstr_def char2nible_def)

lemma hex_digit_checked: "unat n < 16 \<Longrightarrow> char2nible (hex_digit n) = n \<and> hex_digit n \<noteq> 32"
  using hex_digits_checked by (auto simp: list_all_iff dest!: bspec [where x = "unat n"])

lemma char2nible_hex_digit: "unat n < 16 \<Longrightarrow> char2nible (hex_digit n) = n"
  using hex_digit_checked by blast

lemma hex_digit_not_space: "unat n < 16 \<Longrightarrow> hex_digit n \<noteq> 32"
  using hex_digit_checked by blast

lemma and_0F: "b AND 0x0F = take_bit 4 b" for b :: byte
  using take_bit_eq_mask [of 4 b] by (simp add: mask_eq_exp_minus_1)

lemma unat_nibble: "unat ((b :: byte) AND 0x0F) < 16"
  by (simp add: and_0F unsigned_take_bit_eq take_bit_eq_mod [where ?'a = nat])

lemma nibbles_join: "push_bit 4 (drop_bit 4 b AND 0x0F) OR (b AND 0x0F) = (b :: byte)"
  unfolding and_0F
proof (rule bit_word_eqI)
  fix n assume "n < LENGTH(8)"
  then have "n < 8" by simp
  then show "bit (push_bit 4 (take_bit 4 (drop_bit 4 b)) OR take_bit 4 b) n = bit b n"
    by (simp only: bit_or_iff bit_push_bit_iff bit_take_bit_iff bit_drop_bit_eq o_def) auto
qed

lemma length_hex: "length (hex d) = 3 * length d"
  by (induction d) (simp_all add: hex_def)

text \<open>Reading back what \<open>hex\<close> printed, its separating blanks dropped.\<close>

text \<open>The hexadecimal text of \<open>hex\<close>, without its spaces, is read back by \<open>hex2bytes\<close>.\<close>

theorem hex2bytes_hex: "hex2bytes (filter (\<lambda>c. c \<noteq> 32) (hex d)) = d"
proof (induction d)
  case (Cons b d)
  have "hex (b # d) = [hex_digit (drop_bit 4 b AND 0x0F), hex_digit (b AND 0x0F), 32] @ hex d"
    by (simp add: hex_def)
  then have "hex2bytes (filter (\<lambda>c. c \<noteq> 32) (hex (b # d))) =
      (push_bit 4 (drop_bit 4 b AND 0x0F) OR (b AND 0x0F)) # hex2bytes (filter (\<lambda>c. c \<noteq> 32) (hex d))"
    by (simp add: hex_digit_not_space unat_nibble char2nible_hex_digit del: push_bit_and)
  with Cons show ?case by (simp only: nibbles_join)
qed (simp add: hex_def)

text \<open>C20: on two numbers of the same half of the number space \<open>compare_u32\<close> is the serial number
  comparison of RFC 1982, unless they are exactly \<open>0x7FFFFFFF\<close> apart; across the middle of the
  space (where a sequence number passes from \<open>0x7FFFFFFF\<close> to \<open>0x80000000\<close>) it is not.\<close>

theorem compare_u32_serial:
  assumes "sint a < 0 \<longleftrightarrow> sint b < 0" "\<bar>sint a - sint b\<bar> \<noteq> 0x7FFFFFFF"
  shows "compare_u32 a b = serial_compare a b \<and>
    compare_u32 0x7FFFFFFF 0x80000000 = 1 \<and> serial_compare 0x7FFFFFFF 0x80000000 = - 1"
proof -
  have ab: "sint a < 2147483648" "- 2147483648 \<le> sint a" "sint b < 2147483648" "- 2147483648 \<le> sint b"
    using sint_ge [of a] sint_lt [of a] sint_ge [of b] sint_lt [of b] by simp_all
  have "sint (a - b) = sint a - sint b" using assms(1) ab unfolding sint_diff_wrap by auto
  then have "compare_u32 a b = serial_compare a b"
    using assms(2) sint_eq_iff32 [of a b] by (auto simp: compare_u32_signed serial_compare_def)
  moreover have "compare_u32 0x7FFFFFFF 0x80000000 = 1" by code_simp
  moreover have "serial_compare 0x7FFFFFFF 0x80000000 = - 1" by code_simp
  ultimately show ?thesis by simp
qed

theorem compare_u32_serial_witness:
  "compare_u32 5 9 = serial_compare 5 9 \<and>
    compare_u32 0x7FFFFFFF 0x80000000 = 1 \<and> serial_compare 0x7FFFFFFF 0x80000000 = - 1"
  by (rule compare_u32_serial) simp_all

section \<open>Trimming\<close>

text \<open>A string is given by its characters before the NUL. The pointer \<open>end\<close> is its distance from the
  start, which the loop never passes.\<close>

definition isspace :: "byte \<Rightarrow> bool" where
  "isspace c \<longleftrightarrow> c = 32 \<or> 9 \<le> c \<and> c \<le> 13"

fun trim_end :: "byte list \<Rightarrow> nat \<Rightarrow> nat" where
  "trim_end str 0 = 0"
| "trim_end str (Suc n) = (if isspace (str ! Suc n) then trim_end str n else Suc n)"

definition trim :: "byte list \<Rightarrow> byte list" where
  "trim str =
     (let str = dropWhile isspace str
      in if str = [] then [] else take (trim_end str (length str - 1) + 1) str)"

lemma trim_end_le: "trim_end str n \<le> n"
  by (induction n) (auto intro: le_SucI)

lemma trim_end_spaces: "trim_end str n < k \<Longrightarrow> k \<le> n \<Longrightarrow> isspace (str ! k)"
  by (induction n) (auto simp: le_Suc_eq split: if_splits)

lemma trim_end_stops: "trim_end str n \<noteq> 0 \<Longrightarrow> \<not> isspace (str ! trim_end str n)"
  by (induction n) (auto split: if_splits)

text \<open>Trimming takes white space away at both ends, and all of it.\<close>

lemma trim_parts:
  "\<exists>xs ys. str = xs @ trim str @ ys \<and> list_all isspace xs \<and> list_all isspace ys \<and>
    (trim str \<noteq> [] \<longrightarrow> \<not> isspace (hd (trim str)) \<and> \<not> isspace (last (trim str)))"
proof (cases "dropWhile isspace str = []")
  case True
  then have "list_all isspace str" by (simp add: list_all_iff)
  with True show ?thesis by (intro exI [of _ str] exI [of _ "[]"]) (simp add: trim_def)
next
  case False
  let ?d = "dropWhile isspace str"
  let ?n = "trim_end ?d (length ?d - 1)"
  have t: "trim str = take (?n + 1) ?d" using False by (simp add: trim_def Let_def)
  have l: "?n < length ?d" using trim_end_le [of ?d "length ?d - 1"] False by (cases ?d) auto
  have h: "\<not> isspace (?d ! 0)" using False hd_dropWhile [of isspace str] by (simp add: hd_conv_nth)
  have "trim str \<noteq> []" "hd (trim str) = ?d ! 0" "last (trim str) = ?d ! ?n"
    using l False by (auto simp: t hd_conv_nth last_conv_nth)
  moreover have "\<not> isspace (?d ! ?n)" using h trim_end_stops [of ?d] by (cases "?n = 0") auto
  moreover have "list_all isspace (drop (?n + 1) ?d)"
    using trim_end_spaces [of ?d "length ?d - 1"] by (auto simp: list_all_length)
  moreover have "str = takeWhile isspace str @ trim str @ drop (?n + 1) ?d" by (simp add: t)
  moreover have "list_all isspace (takeWhile isspace str)" by (auto simp: list_all_iff dest: set_takeWhileD)
  ultimately show ?thesis using h by metis
qed

end
