(* ===== verification/Packets.thy ===== *)
theory Packets
  imports Kernel Util
begin

text \<open>
  The IP headers and pseudo headers that \<open>write_icmp\<close>, \<open>write_udp\<close> and \<open>write_tcp\<close> build
  byte by byte (the three functions repeat the same code), and what a receiver checks of them:
  the IPv4 header sums to \<open>0xFFFF\<close>, and so does the transport segment under the standard
  pseudo header. The facts rest on the laws of the checksum interface (\<open>inet\<close>).
\<close>

section \<open>Sizes (\<^verbatim>\<open>ip.c\<close>)\<close>

definition get_mtu :: u16 where
  "get_mtu = MTU"

definition get_default_mss :: "int \<Rightarrow> u16" where
  "get_default_mss version =
     (if version = 4 then get_mtu - 20 - 20 else get_mtu - 40 - 20)"

section \<open>Reading a packet\<close>

text \<open>The version of the packet and its addresses, as bytes.\<close>

definition pkt_version :: "byte list \<Rightarrow> int option" where
  "pkt_version pkt = do { b \<leftarrow> rd pkt 0; Some (uint (drop_bit 4 b)) }"

definition pkt_saddr :: "int \<Rightarrow> byte list \<Rightarrow> byte list option" where
  "pkt_saddr version pkt = (if version = 4 then rd_block pkt 12 4 else rd_block pkt 8 16)"

definition pkt_daddr :: "int \<Rightarrow> byte list \<Rightarrow> byte list option" where
  "pkt_daddr version pkt = (if version = 4 then rd_block pkt 16 4 else rd_block pkt 24 16)"

section \<open>Headers\<close>

text \<open>\<open>len\<close> is \<open>tot_len\<close>; \<open>htons\<close> keeps its low 16 bits. The checksum is a plain
  (little-endian) store, the rest of the multi-byte fields are in network order.\<close>

definition ip4_header_with :: "u16 \<Rightarrow> nat \<Rightarrow> byte \<Rightarrow> byte list \<Rightarrow> byte list \<Rightarrow> byte list" where
  "ip4_header_with check len protocol src dst =
     [0x45, 0] @ be16 (of_nat len) @ [0, 0, 0, 0, IPDEFTTL, protocol] @ le16 check @ src @ dst"

definition ip4_header :: "nat \<Rightarrow> byte \<Rightarrow> byte list \<Rightarrow> byte list \<Rightarrow> byte list" where
  "ip4_header len protocol src dst =
     ip4_header_with (NOT (calc_checksum 0 (ip4_header_with 0 len protocol src dst))) len protocol src dst"

definition ip4_pseudo :: "byte list \<Rightarrow> byte list \<Rightarrow> byte \<Rightarrow> nat \<Rightarrow> byte list" where
  "ip4_pseudo src dst protocol len = src @ dst @ [0, protocol] @ be16 (of_nat len)"

definition ip6_header :: "nat \<Rightarrow> byte \<Rightarrow> byte list \<Rightarrow> byte list \<Rightarrow> byte list" where
  "ip6_header plen nxt src dst =
     [0x60, 0, 0, 0] @ be16 (of_nat plen) @ [nxt, IPDEFTTL] @ src @ dst"

text \<open>The code fills the pseudo header of IPv6 from the new header with source and destination
  exchanged, and stores the 16-bit network-order length in the 32-bit field.\<close>

definition ip6_pseudo :: "byte list \<Rightarrow> byte list \<Rightarrow> byte \<Rightarrow> nat \<Rightarrow> byte list" where
  "ip6_pseudo src dst nxt plen = dst @ src @ be16 (of_nat plen) @ [0, 0] @ [0, 0, 0, nxt]"

text \<open>The pseudo header of RFC 8200, which a receiver uses.\<close>

definition ip6_pseudo_std :: "byte list \<Rightarrow> byte list \<Rightarrow> byte \<Rightarrow> nat \<Rightarrow> byte list" where
  "ip6_pseudo_std src dst nxt len = src @ dst @ be32 (of_nat len) @ [0, 0, 0, nxt]"

section \<open>Lengths\<close>

lemma length_ip4_header_with [wire]:
  "length (ip4_header_with ck n p src dst) = 12 + length src + length dst"
  by (simp add: ip4_header_with_def)

lemma length_ip4_header [wire]: "length (ip4_header n p src dst) = 12 + length src + length dst"
  by (simp add: ip4_header_def length_ip4_header_with)

lemma length_ip4_pseudo [wire]: "length (ip4_pseudo src dst p n) = 4 + length src + length dst"
  by (simp add: ip4_pseudo_def)

lemma length_ip6_header [wire]: "length (ip6_header n p src dst) = 8 + length src + length dst"
  by (simp add: ip6_header_def)

lemma length_ip6_pseudo [wire]: "length (ip6_pseudo src dst p n) = 8 + length src + length dst"
  by (simp add: ip6_pseudo_def)

section \<open>What a receiver checks\<close>

lemma ip4_header_verifies:
  assumes "length src = 4" "length dst = 4"
  shows "calc_checksum 0 (ip4_header len protocol src dst) = 0xFFFF"
proof -
  let ?a = "[0x45, 0] @ be16 (of_nat len) @ [0, 0, 0, 0, IPDEFTTL, protocol]"
  have w: "ip4_header_with ck len protocol src dst = ?a @ le16 ck @ (src @ dst)" for ck
    by (simp add: ip4_header_with_def)
  show ?thesis
    unfolding ip4_header_def w by (rule inet.csum_verifies [OF _ _ refl]) (simp_all add: assms)
qed

text \<open>A transport segment: header bytes \<open>a\<close>, the checksum field, header bytes \<open>b\<close>, then \<open>d\<close>.
  The code sums pseudo header, header with a zero field, and \<open>d\<close> one after the other.\<close>

lemma segment_verifies:
  assumes "even (length ph)" "even (length a)" "even (length b)"
    and "length ph + length a + length b + length d \<le> 131070"
    and "ck = NOT (calc_checksum (calc_checksum (calc_checksum 0 ph) (a @ le16 0 @ b)) d)"
  shows "calc_checksum 0 (ph @ a @ le16 ck @ b @ d) = 0xFFFF"
proof -
  have "calc_checksum (calc_checksum (calc_checksum 0 ph) (a @ le16 0 @ b)) d =
      calc_checksum (calc_checksum 0 (ph @ (a @ le16 0 @ b))) d"
    using assms by (subst inet.csum_chain) simp_all
  also have "\<dots> = calc_checksum 0 ((ph @ (a @ le16 0 @ b)) @ d)"
    using assms by (subst inet.csum_chain) simp_all
  finally have "ck = NOT (calc_checksum 0 ((ph @ a) @ le16 0 @ (b @ d)))"
    by (simp add: assms(5))
  then have "calc_checksum 0 ((ph @ a) @ le16 ck @ (b @ d)) = 0xFFFF"
    using assms by (intro inet.csum_verifies) simp_all
  then show ?thesis by simp
qed

text \<open>The code's IPv6 pseudo header has the same sum as the standard one.\<close>

lemma be32_small: "n < 65536 \<Longrightarrow> be32 (of_nat n) = [0, 0] @ be16 (of_nat n)"
proof -
  assume n: "n < 65536"
  then have u: "unat (of_nat n :: u32) = n" by (simp add: unat_of_nat)
  have "unat (ucast (drop_bit 16 (of_nat n :: u32)) :: u16) = 0"
    using n by (simp add: unat_cast unat_drop u)
  moreover have "unat (ucast (of_nat n :: u32) :: u16) = unat (of_nat n :: u16)"
    using n by (simp only: unat_cast u) (simp add: unat_of_nat)
  ultimately show ?thesis
    by (simp only: be32_def word_unat_eq_iff [symmetric] unat_0_iff) (simp add: be16_def)
qed

lemma ip6_pseudo_sum:
  assumes "length src = 16" "length dst = 16" "n < 65536" "length d \<le> 131000"
  shows "calc_checksum 0 (ip6_pseudo_std src dst nxt n @ d) = calc_checksum 0 (ip6_pseudo src dst nxt n @ d)"
proof -
  have "word_sum (ip6_pseudo_std src dst nxt n) = word_sum (ip6_pseudo src dst nxt n)"
    using assms by (simp add: ip6_pseudo_std_def ip6_pseudo_def word_sum_append be32_small)
  then have "word_sum (ip6_pseudo_std src dst nxt n @ d) = word_sum (ip6_pseudo src dst nxt n @ d)"
    using assms by (simp add: word_sum_append ip6_pseudo_std_def ip6_pseudo_def)
  then show ?thesis
    using assms by (simp add: word_unat_eq_iff unat_calc_checksum ip6_pseudo_std_def ip6_pseudo_def)
qed

end
