(* ===== verification/Sessions.thy ===== *)
theory Sessions
  imports Kernel Util
begin

text \<open>
  The data of \<^verbatim>\<open>tun2http.h\<close>: the three kinds of session, the segments a TCP session queues,
  and the linked list of sessions. Addresses are kept as their bytes in network order (4 for
  IPv4, 16 for IPv6); ports are in host order. A session is known to \<open>epoll\<close> by its address in
  memory, here \<open>sid\<close>; the allocator takes it from the call counter, so it is never one in use.
\<close>

section \<open>Configuration\<close>

text \<open>\<open>struct arguments\<close>, without the handles of the JVM and the tun device.\<close>

record arguments =
  fwd53 :: bool
  rcode :: int
  proxyIp :: "byte list"
  proxyPort :: int

text \<open>\<open>struct allowed\<close>; a missing one (\<open>NULL\<close>) is \<open>None\<close>.\<close>

record allowed =
  raddr :: "byte list"
  rport :: u16

section \<open>ICMP and UDP\<close>

record icmp_session =
  i_time :: int
  i_uid :: int
  i_version :: int
  i_saddr :: "byte list"
  i_daddr :: "byte list"
  i_id :: u16
  i_stop :: bool

datatype udp_state = UDP_ACTIVE | UDP_FINISHING | UDP_CLOSED | UDP_BLOCKED

text \<open>The order of the C constants 0 to 3 is the order of a session's life.\<close>

fun udp_code :: "udp_state \<Rightarrow> nat" where
  "udp_code UDP_ACTIVE = 0"
| "udp_code UDP_FINISHING = 1"
| "udp_code UDP_CLOSED = 2"
| "udp_code UDP_BLOCKED = 3"

lemma udp_code_inj: "udp_code a = udp_code b \<Longrightarrow> a = b"
  by (cases a; cases b) auto

instantiation udp_state :: linorder
begin

definition less_eq_udp_state :: "udp_state \<Rightarrow> udp_state \<Rightarrow> bool" where
  "less_eq_udp_state a b \<longleftrightarrow> udp_code a \<le> udp_code b"

definition less_udp_state :: "udp_state \<Rightarrow> udp_state \<Rightarrow> bool" where
  "less_udp_state a b \<longleftrightarrow> udp_code a < udp_code b"

instance
  by standard (auto simp: less_eq_udp_state_def less_udp_state_def udp_code_inj)

end

lemma udp_state_order [simp]:
  "UDP_ACTIVE \<le> s" "s \<le> UDP_BLOCKED" "UDP_FINISHING \<le> UDP_CLOSED"
  "UDP_FINISHING \<le> s \<longleftrightarrow> s \<noteq> UDP_ACTIVE" "s \<le> UDP_ACTIVE \<longleftrightarrow> s = UDP_ACTIVE"
  by (cases s; simp add: less_eq_udp_state_def)+

record udp_session =
  u_time :: int
  u_uid :: int
  u_version :: int
  u_mss :: u16
  u_sent :: u64
  u_received :: u64
  u_saddr :: "byte list"
  u_source :: u16
  u_daddr :: "byte list"
  u_dest :: u16
  u_state :: udp_state

section \<open>TCP\<close>

record segment =
  seg_seq :: u32
  seg_len :: u16
  seg_sent :: u16
  seg_psh :: bool
  seg_data :: "byte list"

datatype tcp_state = TCP_ESTABLISHED | TCP_SYN_SENT | TCP_SYN_RECV | TCP_FIN_WAIT1 | TCP_FIN_WAIT2
  | TCP_TIME_WAIT | TCP_CLOSE | TCP_CLOSE_WAIT | TCP_LAST_ACK | TCP_LISTEN | TCP_CLOSING

datatype connect_state = TCP_CONNECT_NOT_SENT | TCP_CONNECT_SENT | TCP_CONNECT_ESTABLISHED

record tcp_session =
  t_uid :: int
  t_time :: int
  t_version :: int
  t_mss :: u16
  recv_scale :: byte
  send_scale :: byte
  recv_window :: u32
  send_window :: u32
  remote_seq :: u32
  local_seq :: u32
  remote_start :: u32
  local_start :: u32
  acked :: u32
  last_keep_alive :: int
  t_sent :: u64
  t_received :: u64
  t_saddr :: "byte list"
  t_source :: u16
  t_daddr :: "byte list"
  t_dest :: u16
  t_state :: tcp_state
  forward :: "segment list"
  t_hostname :: "byte list"
  connect_sent :: connect_state

text \<open>\<open>strstate\<close> of \<^verbatim>\<open>util.c\<close>: every state has its own name, so the default is never taken.\<close>

fun strstate :: "tcp_state \<Rightarrow> string" where
  "strstate TCP_ESTABLISHED = ''ESTABLISHED''"
| "strstate TCP_SYN_SENT = ''SYN_SENT''"
| "strstate TCP_SYN_RECV = ''SYN_RECV''"
| "strstate TCP_FIN_WAIT1 = ''FIN_WAIT1''"
| "strstate TCP_FIN_WAIT2 = ''FIN_WAIT2''"
| "strstate TCP_TIME_WAIT = ''TIME_WAIT''"
| "strstate TCP_CLOSE = ''CLOSE''"
| "strstate TCP_CLOSE_WAIT = ''CLOSE_WAIT''"
| "strstate TCP_LAST_ACK = ''LAST_ACK''"
| "strstate TCP_LISTEN = ''LISTEN''"
| "strstate TCP_CLOSING = ''CLOSING''"

section \<open>The list of sessions\<close>

record 'p ng_session =
  sid :: nat
  socket :: int
  ev_events :: u32
  sess :: 'p

datatype session =
    Icmp "icmp_session ng_session"
  | Udp "udp_session ng_session"
  | Tcp "tcp_session ng_session"

fun sid_of :: "session \<Rightarrow> nat" where
  "sid_of (Icmp s) = sid s"
| "sid_of (Udp s) = sid s"
| "sid_of (Tcp s) = sid s"

fun socket_of :: "session \<Rightarrow> int" where
  "socket_of (Icmp s) = socket s"
| "socket_of (Udp s) = socket s"
| "socket_of (Tcp s) = socket s"

text \<open>Writing through a pointer to the first element that satisfies a test.\<close>

fun replace_first :: "('s \<Rightarrow> bool) \<Rightarrow> 's \<Rightarrow> 's list \<Rightarrow> 's list" where
  "replace_first P y [] = []"
| "replace_first P y (x # xs) = (if P x then y # xs else x # replace_first P y xs)"

text \<open>The session an event's pointer refers to.\<close>

definition session_at :: "nat \<Rightarrow> session list \<Rightarrow> session option" where
  "session_at i ss = find (\<lambda>x. sid_of x = i) ss"

text \<open>\<open>malloc\<close> of a session: an address that no live session has.\<close>

definition new_sid :: "io \<Rightarrow> nat \<times> io" where
  "new_sid w = (tick w, step_io [] w)"

lemma session_at_Some: "session_at i ss = Some s \<Longrightarrow> s \<in> set ss \<and> sid_of s = i"
  by (auto simp: session_at_def find_Some_iff)

lemma find_split:
  "find P ss = Some s \<Longrightarrow> P s \<and> (\<exists>xs ys. ss = xs @ s # ys \<and> (\<forall>y. replace_first P y ss = xs @ y # ys))"
proof (induction ss)
  case (Cons x ss)
  show ?case
  proof (cases "P x")
    case True
    with Cons.prems show ?thesis by (intro conjI exI [of _ "[]"] exI [of _ ss]) auto
  next
    case False
    with Cons obtain xs ys where "P s" "ss = xs @ s # ys" "\<forall>y. replace_first P y ss = xs @ y # ys" by auto
    with False show ?thesis by (intro conjI exI [of _ "x # xs"] exI [of _ ys]) auto
  qed
qed simp

lemma length_replace_first [simp]: "length (replace_first P y ss) = length ss"
  by (induction ss) auto

end
