(* ===== verification/Tcp_Write.thy ===== *)
theory Tcp_Write
  imports Packets Sessions
begin

text \<open>
  The writers of \<^verbatim>\<open>tcp.c\<close>: \<open>write_tcp\<close> builds the packet for the app behind the tun device
  and writes it, the small writers around it set the flags and close the session when the write
  fails, \<open>write_rst\<close> gives the session up. The lemmas show the layout of the packet, that its
  checksums verify, and what each writer does to the session.
\<close>

section \<open>Building the packet\<close>

text \<open>The MSS is stored without \<open>htons\<close>.\<close>

definition tcp_options :: "tcp_session \<Rightarrow> byte list" where
  "tcp_options cur =
     [2, 4] @ le16 (get_default_mss (t_version cur)) @ [3, 3, recv_scale cur, 0]"

definition tcp_flags :: "bool \<Rightarrow> bool \<Rightarrow> bool \<Rightarrow> bool \<Rightarrow> byte" where
  "tcp_flags syn ack fin rst =
     (if fin then 1 else 0) OR (if syn then 2 else 0) OR (if rst then 4 else 0) OR (if ack then 16 else 0)"

text \<open>The header up to the checksum field, and the 4 bytes from it on.\<close>

definition tcp_header_front :: "tcp_session \<Rightarrow> bool \<Rightarrow> bool \<Rightarrow> bool \<Rightarrow> bool \<Rightarrow> byte list" where
  "tcp_header_front cur syn ack fin rst =
     (let optlen = (if syn then 4 + 3 + 1 else 0) :: nat;
          doff = of_nat ((20 + optlen) div 4) :: byte
      in be16 (t_dest cur) @ be16 (t_source cur) @ be32 (local_seq cur) @
         be32 (if ack then remote_seq cur else 0) @
         [push_bit 4 doff, tcp_flags syn ack fin rst] @
         be16 (ucast (drop_bit (unat (recv_scale cur)) (recv_window cur))))"

definition tcp_header ::
    "u16 \<Rightarrow> tcp_session \<Rightarrow> bool \<Rightarrow> bool \<Rightarrow> bool \<Rightarrow> bool \<Rightarrow> byte list" where
  "tcp_header check cur syn ack fin rst =
     tcp_header_front cur syn ack fin rst @ le16 check @ [0, 0]"

definition tcp_packet ::
    "tcp_session \<Rightarrow> byte list \<Rightarrow> bool \<Rightarrow> bool \<Rightarrow> bool \<Rightarrow> bool \<Rightarrow> byte list" where
  "tcp_packet cur data syn ack fin rst =
     (let options = (if syn then tcp_options cur else []);
          tcplen = 20 + length options + length data;
          v4 = (t_version cur = 4);
          src = take (if v4 then 4 else 16) (t_daddr cur);
          dst = take (if v4 then 4 else 16) (t_saddr cur);
          ip = (if v4 then ip4_header (20 + tcplen) IPPROTO_TCP src dst
                else ip6_header tcplen IPPROTO_TCP src dst);
          pseudo = (if v4 then ip4_pseudo src dst IPPROTO_TCP tcplen
                    else ip6_pseudo src dst IPPROTO_TCP tcplen);
          csum = calc_checksum 0 pseudo;
          csum = calc_checksum csum (tcp_header 0 cur syn ack fin rst);
          csum = calc_checksum csum options;
          csum = calc_checksum csum data
      in ip @ tcp_header (NOT csum) cur syn ack fin rst @ options @ data)"

definition write_tcp ::
    "os \<Rightarrow> tcp_session \<Rightarrow> byte list \<Rightarrow> bool \<Rightarrow> bool \<Rightarrow> bool \<Rightarrow> bool \<Rightarrow> io \<Rightarrow> int \<times> io" where
  "write_tcp os cur data syn ack fin rst w =
     (let buffer = tcp_packet cur data syn ack fin rst;
          (res, w) = sys_tun_write os buffer w
      in if res \<noteq> int (length buffer) then (- 1, w) else (res, w))"

section \<open>The writers\<close>

definition write_syn_ack :: "os \<Rightarrow> tcp_session \<Rightarrow> io \<Rightarrow> int \<times> tcp_session \<times> io" where
  "write_syn_ack os cur w =
     (let (r, w) = write_tcp os cur [] True True False False w
      in if r < 0 then (- 1, cur\<lparr>t_state := TCP_CLOSING\<rparr>, w) else (0, cur, w))"

definition write_ack :: "os \<Rightarrow> tcp_session \<Rightarrow> io \<Rightarrow> int \<times> tcp_session \<times> io" where
  "write_ack os cur w =
     (let (r, w) = write_tcp os cur [] False True False False w
      in if r < 0 then (- 1, cur\<lparr>t_state := TCP_CLOSING\<rparr>, w) else (0, cur, w))"

definition write_data :: "os \<Rightarrow> tcp_session \<Rightarrow> byte list \<Rightarrow> io \<Rightarrow> int \<times> tcp_session \<times> io" where
  "write_data os cur buffer w =
     (let (r, w) = write_tcp os cur buffer False True False False w
      in if r < 0 then (- 1, cur\<lparr>t_state := TCP_CLOSING\<rparr>, w) else (0, cur, w))"

definition write_fin_ack :: "os \<Rightarrow> tcp_session \<Rightarrow> io \<Rightarrow> int \<times> tcp_session \<times> io" where
  "write_fin_ack os cur w =
     (let (r, w) = write_tcp os cur [] False True True False w
      in if r < 0 then (- 1, cur\<lparr>t_state := TCP_CLOSING\<rparr>, w) else (0, cur, w))"

definition write_rst :: "os \<Rightarrow> tcp_session \<Rightarrow> io \<Rightarrow> tcp_session \<times> io" where
  "write_rst os cur w =
     (let ack = (t_state cur = TCP_LISTEN);
          cur = (if ack then cur\<lparr>remote_seq := remote_seq cur + 1\<rparr> else cur);
          (_, w) = write_tcp os cur [] False ack False True w
      in (if t_state cur \<noteq> TCP_CLOSE then cur\<lparr>t_state := TCP_CLOSING\<rparr> else cur, w))"

section \<open>Layout\<close>

lemma length_tcp_options [wire]: "length (tcp_options cur) = 8"
  by (simp add: tcp_options_def)

lemma length_tcp_header_front [wire]: "length (tcp_header_front cur syn ack fin rst) = 16"
  by (simp add: tcp_header_front_def Let_def)

lemma length_tcp_header [wire]: "length (tcp_header ck cur syn ack fin rst) = 20"
  by (simp add: tcp_header_def length_tcp_header_front)

text \<open>Every field of the header reads back.\<close>

lemma tcp_header_fields:
  assumes "hdr = tcp_header ck cur syn ack fin rst @ rest"
  shows "rd_be16 hdr 0 = Some (t_dest cur)" "rd_be16 hdr 2 = Some (t_source cur)"
    "rd_be32 hdr 4 = Some (local_seq cur)"
    "rd_be32 hdr 8 = Some (if ack then remote_seq cur else 0)"
    "rd hdr 12 = Some (if syn then 0x70 else 0x50)"
    "rd hdr 13 = Some (tcp_flags syn ack fin rst)"
    "rd_be16 hdr 14 = Some (ucast (drop_bit (unat (recv_scale cur)) (recv_window cur)))"
proof -
  let ?p = "be16 (t_dest cur)" and ?q = "be16 (t_source cur)" and ?s = "be32 (local_seq cur)"
    and ?a = "be32 (if ack then remote_seq cur else 0)"
  obtain x y z where h: "hdr = ?p @ ?q @ ?s @ ?a @ [x, y] @ z @ le16 ck @ [0, 0] @ rest"
    and x: "x = (if syn then 0x70 else 0x50)" and y: "y = tcp_flags syn ack fin rst"
    and z: "z = be16 (ucast (drop_bit (unat (recv_scale cur)) (recv_window cur)))"
    using assms by (simp add: tcp_header_def tcp_header_front_def Let_def)
  show "rd_be16 hdr 0 = Some (t_dest cur)"
    using rd_be16_at [of "[]" "t_dest cur"] by (simp add: h)
  show "rd_be16 hdr 2 = Some (t_source cur)"
    using rd_be16_at [of ?p "t_source cur"] by (simp add: h)
  show "rd_be32 hdr 4 = Some (local_seq cur)"
    using rd_be32_at [of "?p @ ?q" "local_seq cur"] by (simp add: h)
  show "rd_be32 hdr 8 = Some (if ack then remote_seq cur else 0)"
    using rd_be32_at [of "?p @ ?q @ ?s" "if ack then remote_seq cur else 0"] by (simp add: h)
  show "rd hdr 12 = Some (if syn then 0x70 else 0x50)"
    by (simp add: h x rd_def nth_append)
  show "rd hdr 13 = Some (tcp_flags syn ack fin rst)"
    by (simp add: h y rd_def nth_append)
  show "rd_be16 hdr 14 = Some (ucast (drop_bit (unat (recv_scale cur)) (recv_window cur)))"
    using rd_be16_at [of "?p @ ?q @ ?s @ ?a @ [x, y]"] by (simp add: h z)
qed

section \<open>Well-formed addresses and packets\<close>

definition tcp_addrs :: "tcp_session \<Rightarrow> bool" where
  "tcp_addrs cur \<longleftrightarrow>
     length (t_saddr cur) = (if t_version cur = 4 then 4 else 16) \<and>
     length (t_daddr cur) = (if t_version cur = 4 then 4 else 16)"

definition tcp_segment :: "tcp_session \<Rightarrow> byte list \<Rightarrow> bool \<Rightarrow> bool \<Rightarrow> bool \<Rightarrow> bool \<Rightarrow> byte list" where
  "tcp_segment cur data syn ack fin rst =
     drop (if t_version cur = 4 then 20 else 40) (tcp_packet cur data syn ack fin rst)"

lemma length_tcp_packet [wire]:
  "tcp_addrs cur \<Longrightarrow> length (tcp_packet cur data syn ack fin rst) =
     (if t_version cur = 4 then 20 else 40) + 20 + (if syn then 8 else 0) + length data"
  by (simp add: tcp_packet_def tcp_addrs_def Let_def wire)

lemma tcp_packet_v4:
  assumes "tcp_addrs cur" "t_version cur = 4"
  obtains ck where
    "tcp_packet cur data syn ack fin rst =
       ip4_header (20 + (20 + (if syn then 8 else 0) + length data)) IPPROTO_TCP (t_daddr cur) (t_saddr cur) @
       tcp_header ck cur syn ack fin rst @ (if syn then tcp_options cur else []) @ data"
    "ck = NOT (calc_checksum (calc_checksum (calc_checksum (calc_checksum 0
       (ip4_pseudo (t_daddr cur) (t_saddr cur) IPPROTO_TCP (20 + (if syn then 8 else 0) + length data)))
       (tcp_header 0 cur syn ack fin rst)) (if syn then tcp_options cur else [])) data)"
  using assms by (simp add: tcp_packet_def tcp_addrs_def Let_def wire split: if_splits)

lemma tcp_packet_v6:
  assumes "tcp_addrs cur" "t_version cur \<noteq> 4"
  obtains ck where
    "tcp_packet cur data syn ack fin rst =
       ip6_header (20 + (if syn then 8 else 0) + length data) IPPROTO_TCP (t_daddr cur) (t_saddr cur) @
       tcp_header ck cur syn ack fin rst @ (if syn then tcp_options cur else []) @ data"
    "ck = NOT (calc_checksum (calc_checksum (calc_checksum (calc_checksum 0
       (ip6_pseudo (t_daddr cur) (t_saddr cur) IPPROTO_TCP (20 + (if syn then 8 else 0) + length data)))
       (tcp_header 0 cur syn ack fin rst)) (if syn then tcp_options cur else [])) data)"
  using assms by (simp add: tcp_packet_def tcp_addrs_def Let_def wire split: if_splits)

text \<open>The sum over pseudo header, header, options and data.\<close>

lemma tcp_sum_verifies:
  assumes "even (length ph)" "length ph \<le> 40" "length opts \<le> 8" "even (length opts)" "length data \<le> 65535"
    and "ck = NOT (calc_checksum (calc_checksum (calc_checksum (calc_checksum 0 ph)
           (tcp_header 0 cur syn ack fin rst)) opts) data)"
  shows "calc_checksum 0 (ph @ tcp_header ck cur syn ack fin rst @ opts @ data) = 0xFFFF"
proof -
  let ?f = "tcp_header_front cur syn ack fin rst"
  have "calc_checksum (calc_checksum (calc_checksum 0 ph) (tcp_header 0 cur syn ack fin rst)) opts =
      calc_checksum (calc_checksum 0 ph) (tcp_header 0 cur syn ack fin rst @ opts)"
    using assms by (intro inet.csum_chain) (simp_all add: wire)
  then have "ck = NOT (calc_checksum (calc_checksum (calc_checksum 0 ph) (?f @ le16 0 @ ([0, 0] @ opts))) data)"
    by (simp add: assms(6) tcp_header_def)
  then have "calc_checksum 0 (ph @ ?f @ le16 ck @ ([0, 0] @ opts) @ data) = 0xFFFF"
    using assms by (intro segment_verifies) (simp_all add: wire)
  then show ?thesis by (simp add: tcp_header_def)
qed

lemma tcp_packet_verifies_v4:
  assumes "tcp_addrs cur" "t_version cur = 4" "length data \<le> 65535"
  shows "calc_checksum 0 (take 20 (tcp_packet cur data syn ack fin rst)) = 0xFFFF"
    "calc_checksum 0 (ip4_pseudo (t_daddr cur) (t_saddr cur) IPPROTO_TCP
       (length (tcp_segment cur data syn ack fin rst)) @ tcp_segment cur data syn ack fin rst) = 0xFFFF"
proof -
  obtain ck where p: "tcp_packet cur data syn ack fin rst =
       ip4_header (20 + (20 + (if syn then 8 else 0) + length data)) IPPROTO_TCP (t_daddr cur) (t_saddr cur) @
       tcp_header ck cur syn ack fin rst @ (if syn then tcp_options cur else []) @ data"
    and ck: "ck = NOT (calc_checksum (calc_checksum (calc_checksum (calc_checksum 0
       (ip4_pseudo (t_daddr cur) (t_saddr cur) IPPROTO_TCP (20 + (if syn then 8 else 0) + length data)))
       (tcp_header 0 cur syn ack fin rst)) (if syn then tcp_options cur else [])) data)"
    using tcp_packet_v4 [OF assms(1,2)] by blast
  have addr: "length (t_saddr cur) = 4" "length (t_daddr cur) = 4"
    using assms(1,2) by (simp_all add: tcp_addrs_def)
  show "calc_checksum 0 (take 20 (tcp_packet cur data syn ack fin rst)) = 0xFFFF"
    unfolding p using addr by (simp add: ip4_header_verifies wire)
  have seg: "tcp_segment cur data syn ack fin rst =
      tcp_header ck cur syn ack fin rst @ (if syn then tcp_options cur else []) @ data"
    unfolding tcp_segment_def p using assms(2) addr by (simp add: wire)
  have n: "length (tcp_segment cur data syn ack fin rst) = 20 + (if syn then 8 else 0) + length data"
    unfolding seg by (simp add: wire)
  show "calc_checksum 0 (ip4_pseudo (t_daddr cur) (t_saddr cur) IPPROTO_TCP
       (length (tcp_segment cur data syn ack fin rst)) @ tcp_segment cur data syn ack fin rst) = 0xFFFF"
    unfolding n unfolding seg using assms(3) addr by (intro tcp_sum_verifies [OF _ _ _ _ _ ck]) (auto simp: wire)
qed

lemma tcp_packet_verifies_v6:
  assumes "tcp_addrs cur" "t_version cur \<noteq> 4" "length data \<le> 65475"
  shows "calc_checksum 0 (ip6_pseudo_std (t_daddr cur) (t_saddr cur) IPPROTO_TCP
       (length (tcp_segment cur data syn ack fin rst)) @ tcp_segment cur data syn ack fin rst) = 0xFFFF"
proof -
  obtain ck where p: "tcp_packet cur data syn ack fin rst =
       ip6_header (20 + (if syn then 8 else 0) + length data) IPPROTO_TCP (t_daddr cur) (t_saddr cur) @
       tcp_header ck cur syn ack fin rst @ (if syn then tcp_options cur else []) @ data"
    and ck: "ck = NOT (calc_checksum (calc_checksum (calc_checksum (calc_checksum 0
       (ip6_pseudo (t_daddr cur) (t_saddr cur) IPPROTO_TCP (20 + (if syn then 8 else 0) + length data)))
       (tcp_header 0 cur syn ack fin rst)) (if syn then tcp_options cur else [])) data)"
    using tcp_packet_v6 [OF assms(1,2)] by blast
  have addr: "length (t_saddr cur) = 16" "length (t_daddr cur) = 16"
    using assms(1,2) by (simp_all add: tcp_addrs_def)
  have seg: "tcp_segment cur data syn ack fin rst =
      tcp_header ck cur syn ack fin rst @ (if syn then tcp_options cur else []) @ data"
    unfolding tcp_segment_def p using assms(2) addr by (simp add: wire)
  have n: "length (tcp_segment cur data syn ack fin rst) = 20 + (if syn then 8 else 0) + length data"
    unfolding seg by (simp add: wire)
  have "calc_checksum 0 (ip6_pseudo (t_daddr cur) (t_saddr cur) IPPROTO_TCP
       (length (tcp_segment cur data syn ack fin rst)) @ tcp_segment cur data syn ack fin rst) = 0xFFFF"
    unfolding n unfolding seg using assms(3) addr by (intro tcp_sum_verifies [OF _ _ _ _ _ ck]) (auto simp: wire)
  then show ?thesis
    using assms(3) addr n by (subst ip6_pseudo_sum) (auto simp: wire)
qed

section \<open>What the writers do to the session\<close>

lemma write_tcp_io [simp, io_simps]:
  "fds (snd (write_tcp os cur data syn ack fin rst w)) = fds w"
  "clean (snd (write_tcp os cur data syn ack fin rst w)) = clean w"
  by (simp_all add: write_tcp_def Let_def split: prod.split)
     (metis clean_sys(4) fds_sys(4) snd_conv)+

text \<open>A writer either succeeds and leaves the session alone, or moves it to \<open>CLOSING\<close>.\<close>

definition wrote :: "int \<Rightarrow> tcp_session \<Rightarrow> io \<Rightarrow> tcp_session \<Rightarrow> io \<Rightarrow> bool" where
  "wrote r t w t' w' \<longleftrightarrow>
     (r = 0 \<and> t' = t \<or> r = - 1 \<and> t' = t\<lparr>t_state := TCP_CLOSING\<rparr>) \<and> fds w' = fds w \<and> clean w' = clean w"

lemma write_tcp_frame:
  "write_tcp os cur data syn ack fin rst w = (r, w') \<Longrightarrow> fds w' = fds w \<and> clean w' = clean w"
  using write_tcp_io [of os cur data syn ack fin rst w] by simp

lemma writer_wrote:
  "write_syn_ack os t w = (r, t', w') \<Longrightarrow> wrote r t w t' w'"
  "write_ack os t w = (r, t', w') \<Longrightarrow> wrote r t w t' w'"
  "write_data os t d w = (r, t', w') \<Longrightarrow> wrote r t w t' w'"
  "write_fin_ack os t w = (r, t', w') \<Longrightarrow> wrote r t w t' w'"
  by (auto simp: write_syn_ack_def write_ack_def write_data_def write_fin_ack_def wrote_def Let_def
      split: prod.splits if_splits dest: write_tcp_frame)

lemma write_rst_frame:
  "write_rst os t w = (t', w') \<Longrightarrow> fds w' = fds w \<and> clean w' = clean w"
  by (auto simp: write_rst_def Let_def split: prod.splits dest: write_tcp_frame)

text \<open>After \<open>write_rst\<close> only the state and, for a session in \<open>LISTEN\<close>, the remote sequence number
  differ.\<close>

lemma write_rst_session:
  "fst (write_rst os t w) = t\<lparr>
     remote_seq := (if t_state t = TCP_LISTEN then remote_seq t + 1 else remote_seq t),
     t_state := (if t_state t = TCP_CLOSE then TCP_CLOSE else TCP_CLOSING)\<rparr>"
  by (auto simp: write_rst_def Let_def split: prod.splits)

lemma write_rst_eq:
  "write_rst os t w = (t', w') \<Longrightarrow> t' = t\<lparr>
     remote_seq := (if t_state t = TCP_LISTEN then remote_seq t + 1 else remote_seq t),
     t_state := (if t_state t = TCP_CLOSE then TCP_CLOSE else TCP_CLOSING)\<rparr>"
  using write_rst_session [of os t w] by simp

lemma write_rst_effect:
  "write_rst os t w = (t', w') \<Longrightarrow> fds w' = fds w \<and> clean w' = clean w \<and> t' = t\<lparr>
     remote_seq := (if t_state t = TCP_LISTEN then remote_seq t + 1 else remote_seq t),
     t_state := (if t_state t = TCP_CLOSE then TCP_CLOSE else TCP_CLOSING)\<rparr>"
  using write_rst_frame write_rst_eq by blast

section \<open>Every packet verifies\<close>

text \<open>Every TCP packet written to the tun device verifies at its receiver: the checksum of the
  segment under the standard pseudo header of its IP version and, for IPv4, that of the header.\<close>

theorem tcp_packet_checksums:
  assumes "tcp_addrs cur" "length data \<le> 65475"
  shows "calc_checksum 0 ((if t_version cur = 4 then ip4_pseudo else ip6_pseudo_std) (t_daddr cur) (t_saddr cur) IPPROTO_TCP
       (length (tcp_segment cur data syn ack fin rst)) @ tcp_segment cur data syn ack fin rst) = 0xFFFF \<and>
    (t_version cur = 4 \<longrightarrow> calc_checksum 0 (take 20 (tcp_packet cur data syn ack fin rst)) = 0xFFFF)"
  using tcp_packet_verifies_v4 [OF assms(1)] tcp_packet_verifies_v6 [OF assms(1)] assms(2) by simp

text \<open>An established session of IPv4, for examples.\<close>

definition example_tcp :: tcp_session where
  "example_tcp = \<lparr>t_uid = 10001, t_time = 990, t_version = 4, t_mss = 1460, recv_scale = 2, send_scale = 2,
     recv_window = 40000, send_window = 80000, remote_seq = 1001, local_seq = 7001, remote_start = 1000,
     local_start = 7000, acked = 7001, last_keep_alive = 0, t_sent = 0, t_received = 0,
     t_saddr = [10, 1, 10, 1], t_source = 40000, t_daddr = [93, 184, 216, 34], t_dest = 8443,
     t_state = TCP_ESTABLISHED, forward = [], t_hostname = [], connect_sent = TCP_CONNECT_NOT_SENT\<rparr>"

theorem tcp_packet_checksums_witness:
  "calc_checksum 0 ((if t_version example_tcp = 4 then ip4_pseudo else ip6_pseudo_std)
      (t_daddr example_tcp) (t_saddr example_tcp) IPPROTO_TCP
      (length (tcp_segment example_tcp [1, 2, 3] False True False False)) @
      tcp_segment example_tcp [1, 2, 3] False True False False) = 0xFFFF \<and>
    calc_checksum 0 (take 20 (tcp_packet example_tcp [1, 2, 3] False True False False)) = 0xFFFF"
proof -
  have "tcp_addrs example_tcp" "t_version example_tcp = 4" by (simp_all add: example_tcp_def tcp_addrs_def)
  then show ?thesis using tcp_packet_checksums [of example_tcp "[1, 2, 3]" False True False False] by simp
qed

end
