(* ===== verification/Contracts.thy ===== *)
theory Contracts
  imports Sessions
begin

text \<open>
  What the event loop relies on when it hands one session to a protocol's code: the interface
  \<open>session_op\<close>. The operation keeps the session's own invariant, touches no descriptor but the
  session's own (it keeps it, or closes it once and sets the field to \<open>-1\<close>), and never closes
  a descriptor that is not open. The clients' lemmas lift this to the list of sessions: no two
  sessions share a descriptor, and every descriptor a session holds is open. \<open>session_check\<close>
  adds the periodic check's promise that a session reported for deletion holds none.
\<close>

section \<open>Descriptors of one session and of a list\<close>

definition sock_ok :: "int \<Rightarrow> io \<Rightarrow> bool" where
  "sock_ok fd w \<longleftrightarrow> fd = - 1 \<or> (0 \<le> fd \<and> fd \<in> set (fds w))"

definition held :: "('s \<Rightarrow> int) \<Rightarrow> 's list \<Rightarrow> int list" where
  "held fd ss = filter (\<lambda>x. 0 \<le> x) (map fd ss)"

definition all_inv :: "('s \<Rightarrow> io \<Rightarrow> bool) \<Rightarrow> ('s \<Rightarrow> int) \<Rightarrow> 's list \<Rightarrow> io \<Rightarrow> bool" where
  "all_inv good fd ss w \<longleftrightarrow> (\<forall>s \<in> set ss. good s w) \<and> distinct (held fd ss)"

lemma sock_ok_fds: "set (fds w) = set (fds w') \<Longrightarrow> sock_ok fd w = sock_ok fd w'"
  by (simp add: sock_ok_def)

lemma held_append [simp]: "held fd (xs @ ys) = held fd xs @ held fd ys"
  by (simp add: held_def)

lemma held_Cons: "held fd (s # ss) = (if 0 \<le> fd s then fd s # held fd ss else held fd ss)"
  by (simp add: held_def)

lemma held_Nil [simp]: "held fd [] = []"
  by (simp add: held_def)

lemma in_held: "x \<in> set ss \<Longrightarrow> 0 \<le> fd x \<Longrightarrow> fd x \<in> set (held fd ss)"
  by (simp add: held_def)

section \<open>The contract of an operation on one session\<close>

definition own_fd_only :: "int \<Rightarrow> io \<Rightarrow> int \<Rightarrow> io \<Rightarrow> bool" where
  "own_fd_only fd w fd' w' \<longleftrightarrow>
     (fd' = fd \<and> set (fds w') = set (fds w)) \<or>
     (fd' = - 1 \<and> 0 \<le> fd \<and> set (fds w') = set (fds w) - {fd})"

lemma own_fd_only_trans:
  "own_fd_only a w b v \<Longrightarrow> own_fd_only b v c u \<Longrightarrow> own_fd_only a w c u"
  unfolding own_fd_only_def by (elim disjE conjE) simp_all

text \<open>What every kind of session promises of its invariant: a descriptor it holds is open, and
  nothing else of the io state matters to it.\<close>

locale session_frame =
  fixes good :: "'s \<Rightarrow> io \<Rightarrow> bool"
    and fd :: "'s \<Rightarrow> int"
  assumes inv_sock: "good s w \<Longrightarrow> sock_ok (fd s) w"
    and inv_frame: "good s w \<Longrightarrow> sock_ok (fd s) w' \<Longrightarrow> good s w'"
begin

text \<open>Another session's invariant survives, because its descriptor is another one.\<close>

lemma other_inv:
  assumes "own_fd_only (fd s) w f w'" "good x w" "0 \<le> fd x \<Longrightarrow> fd x \<noteq> fd s"
  shows "good x w'"
proof (rule inv_frame [OF assms(2)])
  have "sock_ok (fd x) w" by (rule inv_sock [OF assms(2)])
  then show "sock_ok (fd x) w'" using assms(1,3) by (auto simp: sock_ok_def own_fd_only_def)
qed

lemma others_inv:
  assumes "all_inv good fd (xs @ s # ys) w" "own_fd_only (fd s) w f w'"
  shows "all_inv good fd (xs @ ys) w'"
proof -
  have d: "distinct (held fd (xs @ s # ys))" using assms(1) by (simp add: all_inv_def)
  have "good x w'" if x: "x \<in> set xs \<union> set ys" for x
  proof (rule other_inv [OF assms(2)])
    show "good x w" using assms(1) x by (auto simp: all_inv_def)
    show "fd x \<noteq> fd s" if "0 \<le> fd x"
      using d that x in_held [of x xs fd] in_held [of x ys fd] by (auto simp: held_Cons)
  qed
  then show ?thesis using d by (auto simp: all_inv_def held_Cons split: if_splits)
qed

text \<open>The session itself comes back into its place, holding its old descriptor or none.\<close>

lemma back_inv:
  assumes "all_inv good fd (xs @ s # ys) w" "own_fd_only (fd s) w (fd s') w'" "good s' w'"
  shows "all_inv good fd (xs @ s' # ys) w'"
proof -
  have "fd s' = fd s \<or> fd s' = - 1" using assms(2) by (auto simp: own_fd_only_def)
  then have "distinct (held fd (xs @ s' # ys))"
    using assms(1) by (auto simp: all_inv_def held_Cons split: if_splits)
  then show ?thesis using others_inv [OF assms(1,2)] assms(3) by (auto simp: all_inv_def)
qed

text \<open>A new session with a descriptor that was not open.\<close>

lemma new_inv:
  assumes "all_inv good fd ss w" "set (fds w) \<subseteq> set (fds w')" "good s w'" "fd s \<notin> set (fds w)"
  shows "all_inv good fd (s # ss) w'"
proof -
  have "good x w'" if "x \<in> set ss" for x
  proof (rule inv_frame)
    show "good x w" using assms(1) that by (simp add: all_inv_def)
    then show "sock_ok (fd x) w'" using inv_sock [of x w] assms(2) by (auto simp: sock_ok_def)
  qed
  moreover have "fd s \<notin> set (held fd ss)"
    using assms(1,4) inv_sock by (fastforce simp: all_inv_def held_def sock_ok_def)
  ultimately show ?thesis using assms(1,3) by (auto simp: all_inv_def held_Cons)
qed

text \<open>What is open and held by no session of the list.\<close>

lemma unheld_back:
  assumes "all_inv good fd (xs @ s # ys) w" "own_fd_only (fd s) w f w'" "zs = [s'] \<and> fd s' = f \<or> zs = [] \<and> f = - 1"
  shows "set (fds w') - set (held fd (xs @ zs @ ys)) = set (fds w) - set (held fd (xs @ s # ys))"
  using assms by (auto simp: all_inv_def own_fd_only_def held_Cons split: if_splits)

text \<open>Every descriptor a session of the list holds is open.\<close>

lemma list_open: "all_inv good fd ss w \<Longrightarrow> set (held fd ss) \<subseteq> set (fds w)"
  using inv_sock by (fastforce simp: all_inv_def held_def sock_ok_def)

lemma grown_inv: "all_inv good fd ss w \<Longrightarrow> set (fds w) \<subseteq> set (fds w') \<Longrightarrow> all_inv good fd ss w'"
proof -
  assume *: "all_inv good fd ss w" "set (fds w) \<subseteq> set (fds w')"
  have "good x w'" if "x \<in> set ss" for x
  proof (rule inv_frame)
    show "good x w" using *(1) that by (simp add: all_inv_def)
    then show "sock_ok (fd x) w'" using inv_sock [of x w] *(2) by (auto simp: sock_ok_def)
  qed
  with * show ?thesis by (simp add: all_inv_def)
qed

end

locale session_op = session_frame good fd
  for oper :: "'s \<Rightarrow> io \<Rightarrow> ('s \<times> io) option"
    and good :: "'s \<Rightarrow> io \<Rightarrow> bool"
    and fd :: "'s \<Rightarrow> int" +
  assumes op_inv: "good s w \<Longrightarrow> oper s w = Some (s', w') \<Longrightarrow> good s' w'"
    and op_fd: "good s w \<Longrightarrow> oper s w = Some (s', w') \<Longrightarrow> own_fd_only (fd s) w (fd s') w'"
    and op_clean: "good s w \<Longrightarrow> oper s w = Some (s', w') \<Longrightarrow> clean w \<Longrightarrow> clean w'"
begin

text \<open>Running the operation on one session of the list keeps the list's invariant.\<close>

lemma list_step:
  assumes "all_inv good fd (xs @ s # ys) w" "oper s w = Some (s', w')" "clean w"
  shows "all_inv good fd (xs @ s' # ys) w' \<and> clean w'"
proof -
  have s: "good s w" using assms(1) by (simp add: all_inv_def)
  show ?thesis
    using back_inv [OF assms(1) op_fd [OF s assms(2)] op_inv [OF s assms(2)]] op_clean [OF s assms(2,3)] by simp
qed

text \<open>The same for the session a search finds.\<close>

lemma found_step:
  assumes "all_inv good fd ss w" "find P ss = Some s" "oper s w = Some (s', w')" "clean w"
  shows "all_inv good fd (replace_first P s' ss) w' \<and> clean w'"
proof -
  obtain xs ys where "ss = xs @ s # ys" "replace_first P s' ss = xs @ s' # ys"
    using find_split [OF assms(2)] by blast
  then show ?thesis using list_step [of xs s ys w s' w'] assms by simp
qed

end

text \<open>An event is reported for a session with a descriptor only: closing a descriptor takes it out
  of the \<open>epoll\<close> set.\<close>

definition on_socket ::
    "('p ng_session \<Rightarrow> io \<Rightarrow> ('p ng_session \<times> io) option) \<Rightarrow> 'p ng_session \<Rightarrow> io \<Rightarrow> ('p ng_session \<times> io) option" where
  "on_socket f s w = (if socket s < 0 then Some (s, w) else f s w)"

section \<open>The periodic check\<close>

locale session_check = session_frame good fd
  for check :: "'s \<Rightarrow> io \<Rightarrow> (bool \<times> 's \<times> io) option"
    and good :: "'s \<Rightarrow> io \<Rightarrow> bool"
    and fd :: "'s \<Rightarrow> int" +
  assumes check_inv: "good s w \<Longrightarrow> check s w = Some (False, s', w') \<Longrightarrow> good s' w'"
    and check_fd: "good s w \<Longrightarrow> check s w = Some (del, s', w') \<Longrightarrow> own_fd_only (fd s) w (fd s') w'"
    and check_clean: "good s w \<Longrightarrow> check s w = Some (del, s', w') \<Longrightarrow> clean w \<Longrightarrow> clean w'"
    and deleted_released: "good s w \<Longrightarrow> check s w = Some (True, s', w') \<Longrightarrow> fd s' = - 1"

text \<open>The sweep of \<open>handle_events\<close> over the list: each session is checked in turn, and the ones
  reported are unlinked and freed.\<close>

fun sweep :: "('s \<Rightarrow> io \<Rightarrow> (bool \<times> 's \<times> io) option) \<Rightarrow> 's list \<Rightarrow> io \<Rightarrow> ('s list \<times> io) option" where
  "sweep check [] w = Some ([], w)"
| "sweep check (s # ss) w = do {
     (del, s, w) \<leftarrow> check s w;
     (ss, w) \<leftarrow> sweep check ss w;
     Some (if del then ss else s # ss, w)
   }"

context session_check begin

lemma sweep_from:
  assumes "all_inv good fd (xs @ ss) w" "clean w" "sweep check ss w = Some (ss', w')"
  shows "all_inv good fd (xs @ ss') w' \<and> clean w' \<and>
    set (fds w') - set (held fd (xs @ ss')) = set (fds w) - set (held fd (xs @ ss))"
  using assms
proof (induction ss arbitrary: xs w ss')
  case Nil
  then show ?case by simp
next
  case (Cons s ss)
  from Cons.prems(3) obtain del s1 w1 ss1 where
    c: "check s w = Some (del, s1, w1)" and r: "sweep check ss w1 = Some (ss1, w')"
    and ss': "ss' = (if del then ss1 else s1 # ss1)"
    by (auto simp: bind_Some_iff)
  have s: "good s w" using Cons.prems(1) by (auto simp: all_inv_def)
  note fd1 = check_fd [OF s c]
  have cl1: "clean w1" using check_clean [OF s c Cons.prems(2)] .
  show ?case
  proof (cases del)
    case False
    then have "all_inv good fd ((xs @ [s1]) @ ss) w1"
      using back_inv [OF Cons.prems(1) fd1] check_inv [OF s] c by simp
    then show ?thesis
      using Cons.IH [OF _ cl1 r, of "xs @ [s1]"] unheld_back [OF Cons.prems(1) fd1, of "[s1]" s1] False ss' by simp
  next
    case True
    then have "fd s1 = - 1" using deleted_released [OF s] c by simp
    then show ?thesis
      using Cons.IH [OF others_inv [OF Cons.prems(1) fd1] cl1 r] unheld_back [OF Cons.prems(1) fd1, of "[]"] True ss' by simp
  qed
qed

text \<open>A session that is unlinked takes its descriptor with it: it was closed on the way.\<close>

lemma deleted_closed:
  "good s w \<Longrightarrow> check s w = Some (True, s', w') \<Longrightarrow> 0 \<le> fd s \<Longrightarrow> fd s \<notin> set (fds w')"
  using deleted_released check_fd by (fastforce simp: own_fd_only_def)

lemma sweep_inv:
  "all_inv good fd ss w \<Longrightarrow> clean w \<Longrightarrow> sweep check ss w = Some (ss', w') \<Longrightarrow> all_inv good fd ss' w' \<and> clean w'"
  using sweep_from [of "[]" ss w ss' w'] by simp

text \<open>No descriptor gets lost on the way: what is open is held by a session or was held by none before.\<close>

lemma sweep_unheld:
  "all_inv good fd ss w \<Longrightarrow> clean w \<Longrightarrow> sweep check ss w = Some (ss', w') \<Longrightarrow>
     set (fds w') - set (held fd ss') = set (fds w) - set (held fd ss)"
  using sweep_from [of "[]" ss w ss' w'] by simp

end

text \<open>An operation is a check that deletes nothing: a walk over the list that runs it on every
  session keeps the list's invariant too.\<close>

sublocale session_op < walk: session_check "\<lambda>s w. map_option (Pair False) (oper s w)" good fd
  by unfold_locales (use op_inv op_fd op_clean in auto)

end
