(* ===== verification/Tcp_Session.thy ===== *)
theory Tcp_Session
  imports Tcp_Write Contracts
begin

text \<open>
  The upkeep of a TCP session (\<^verbatim>\<open>tcp.c\<close>): its timeout, the periodic check that expires and
  closes it, the flow-control windows, and the choice of the events to wait for. The lemmas
  bound the timeout and the windows and describe the life of a session under the check.
\<close>

section \<open>Timeout and periodic check\<close>

text \<open>Integer division by \<open>maxsessions\<close> is undefined for 0; C division truncates.\<close>

definition get_tcp_timeout :: "tcp_session \<Rightarrow> int \<Rightarrow> int \<Rightarrow> int option" where
  "get_tcp_timeout t sessions maxsessions =
     (let timeout =
        (if t_state t = TCP_LISTEN \<or> t_state t = TCP_SYN_RECV then TCP_INIT_TIMEOUT
         else if t_state t = TCP_ESTABLISHED then TCP_IDLE_TIMEOUT
         else TCP_CLOSE_TIMEOUT)
      in if maxsessions = 0 then None
         else let scale = 100 - (sessions * 100) sdiv maxsessions
              in Some ((timeout * scale) sdiv 100))"

definition closing_state :: "tcp_state \<Rightarrow> bool" where
  "closing_state st \<longleftrightarrow> st = TCP_CLOSING \<or> st = TCP_CLOSE"

text \<open>Check session timeout.\<close>

definition tcp_expire ::
    "os \<Rightarrow> int \<Rightarrow> int \<Rightarrow> tcp_session ng_session \<Rightarrow> io \<Rightarrow> tcp_session ng_session \<times> io" where
  "tcp_expire os now timeout s w =
     (if \<not> closing_state (t_state (sess s)) \<and> t_time (sess s) + timeout < now then
        if t_state (sess s) = TCP_LISTEN
        then (s\<lparr>sess := (sess s)\<lparr>t_state := TCP_CLOSING\<rparr>\<rparr>, w)
        else let (t, w) = write_rst os (sess s) w in (s\<lparr>sess := t\<rparr>, w)
      else (s, w))"

text \<open>Check closing sessions: the socket is closed here.\<close>

definition tcp_close_socket :: "os \<Rightarrow> tcp_session ng_session \<Rightarrow> io \<Rightarrow> tcp_session ng_session \<times> io" where
  "tcp_close_socket os s w =
     (if t_state (sess s) = TCP_CLOSING then
        let (s, w) = (if 0 \<le> socket s then (s\<lparr>socket := - 1\<rparr>, sys_close (socket s) w) else (s, w));
            (now, w) = sys_time os w
        in (s\<lparr>sess := (sess s)\<lparr>t_time := now, t_state := TCP_CLOSE\<rparr>\<rparr>, w)
      else (s, w))"

definition tcp_reset_counts :: "tcp_session \<Rightarrow> tcp_session" where
  "tcp_reset_counts t =
     (if closing_state (t_state t) \<and> (t_sent t \<noteq> 0 \<or> t_received t \<noteq> 0)
      then t\<lparr>t_sent := 0, t_received := 0\<rparr> else t)"

text \<open>The result says whether the session is to be deleted.\<close>

definition check_tcp_session ::
    "os \<Rightarrow> tcp_session ng_session \<Rightarrow> int \<Rightarrow> int \<Rightarrow> io \<Rightarrow> (bool \<times> tcp_session ng_session \<times> io) option" where
  "check_tcp_session os s sessions maxsessions w = do {
     let (now, w) = sys_time os w;
     timeout \<leftarrow> get_tcp_timeout (sess s) sessions maxsessions;
     let (s, w) = tcp_expire os now timeout s w;
     let (s, w) = tcp_close_socket os s w;
     let s = s\<lparr>sess := tcp_reset_counts (sess s)\<rparr>;
     Some (t_state (sess s) = TCP_CLOSE \<and> t_time (sess s) + TCP_KEEP_TIMEOUT < now, s, w)
   }"

section \<open>Windows\<close>

definition get_send_window :: "tcp_session \<Rightarrow> u32" where
  "get_send_window cur =
     (let behind = (if compare_u32 (acked cur) (local_seq cur) \<le> 0
                    then local_seq cur - acked cur else acked cur)
      in if behind < send_window cur then send_window cur - behind else 0)"

definition get_receive_buffer :: "os \<Rightarrow> 'p ng_session \<Rightarrow> io \<Rightarrow> int \<times> io" where
  "get_receive_buffer os cur w =
     (if socket cur < 0 then (0, w)
      else let (sb, w) = sys_sndbuf os (socket cur) w;
               sendbuf = (case sb of None \<Rightarrow> 0 | Some v \<Rightarrow> v);
               sendbuf = (if sendbuf = 0 then 16384 else sendbuf);
               (oq, w) = sys_outq os (socket cur) w;
               unsent = (case oq of None \<Rightarrow> 0 | Some v \<Rightarrow> v)
           in (if unsent < sendbuf sdiv 2 then sendbuf sdiv 2 - unsent else 0, w))"

fun to_forward :: "segment list \<Rightarrow> u32" where
  "to_forward [] = 0"
| "to_forward (q # qs) = (ucast (seg_len q) - ucast (seg_sent q)) + to_forward qs"

definition get_receive_window :: "os \<Rightarrow> tcp_session ng_session \<Rightarrow> io \<Rightarrow> u32 \<times> io" where
  "get_receive_window os cur w =
     (let toforward = to_forward (forward (sess cur));
          scale = unat (recv_scale (sess cur));
          (b, w) = get_receive_buffer os cur w;
          window = word_of_int b;
          max = push_bit scale 0xFFFF;
          window = (if window > max then max else window);
          window = (if toforward < window then window - toforward else 0);
          window = (if drop_bit scale window = 0 then 0 else window)
      in (window, w))"

section \<open>What to wait for\<close>

text \<open>The head of the queue can be sent: it is the next byte and fits the socket's buffer.\<close>

definition head_ready :: "tcp_session \<Rightarrow> u32 \<Rightarrow> bool" where
  "head_ready t buffer_size =
     (case forward t of [] \<Rightarrow> False
      | q # _ \<Rightarrow> seg_seq q + ucast (seg_sent q) = remote_seq t \<and>
          ucast (seg_len q) - ucast (seg_sent q) < buffer_size)"

text \<open>The keep alive sent when the peer's window is closed.\<close>

definition tcp_keep_alive :: "os \<Rightarrow> tcp_session \<Rightarrow> io \<Rightarrow> tcp_session \<times> io" where
  "tcp_keep_alive os t w =
     (let (ms, w) = sys_ms os w
      in if ms - last_keep_alive t > EPOLL_MIN_CHECK then
           let t = t\<lparr>last_keep_alive := ms, remote_seq := remote_seq t - 1\<rparr>;
               (_, t, w) = write_ack os t w
           in (t\<lparr>remote_seq := remote_seq t + 1\<rparr>, w)
         else (t, w))"

definition monitor_events ::
    "os \<Rightarrow> tcp_session ng_session \<Rightarrow> io \<Rightarrow> bool \<times> u32 \<times> tcp_session ng_session \<times> io" where
  "monitor_events os s w =
     (if t_state (sess s) = TCP_LISTEN then
        (False, EPOLLERR OR (if connect_sent (sess s) = TCP_CONNECT_SENT \<and> t_dest (sess s) = 443
                             then EPOLLIN else EPOLLOUT), s, w)
      else if t_state (sess s) = TCP_ESTABLISHED \<or> t_state (sess s) = TCP_CLOSE_WAIT then
        let (recheck, events, s, w) =
              (if get_send_window (sess s) > 0 then (False, EPOLLERR OR EPOLLIN, s, w)
               else let (t, w) = tcp_keep_alive os (sess s) w
                    in (True, EPOLLERR, s\<lparr>sess := t\<rparr>, w))
        in if forward (sess s) \<noteq> [] then
             let (b, w) = get_receive_buffer os s w
             in if head_ready (sess s) (word_of_int b) then (recheck, events OR EPOLLOUT, s, w)
                else (True, events, s, w)
           else (recheck, events, s, w)
      else (False, EPOLLERR, s, w))"

definition monitor_tcp_session ::
    "os \<Rightarrow> tcp_session ng_session \<Rightarrow> io \<Rightarrow> bool \<times> tcp_session ng_session \<times> io" where
  "monitor_tcp_session os s w =
     (let (recheck, events, s, w) = monitor_events os s w
      in if events \<noteq> ev_events s then
           let s = s\<lparr>ev_events := events\<rparr>;
               (ok, w) = sys_epoll_mod os (socket s) events w
           in (recheck, if ok then s else s\<lparr>sess := (sess s)\<lparr>t_state := TCP_CLOSING\<rparr>\<rparr>, w)
         else (recheck, s, w))"

section \<open>The invariant of a TCP session\<close>

text \<open>Which states have a socket: the ones before the local end is closed do, the ones after it
  do not; the rest may have one or not. The states \<open>SYN_SENT\<close>, \<open>FIN_WAIT2\<close> and \<open>TIME_WAIT\<close>
  are never entered.\<close>

definition socket_state :: "tcp_state \<Rightarrow> int \<Rightarrow> bool" where
  "socket_state st fd \<longleftrightarrow>
     (st \<in> {TCP_LISTEN, TCP_SYN_RECV, TCP_ESTABLISHED, TCP_CLOSE_WAIT} \<longrightarrow> 0 \<le> fd) \<and>
     (st \<in> {TCP_FIN_WAIT1, TCP_LAST_ACK, TCP_CLOSE} \<longrightarrow> fd = - 1) \<and>
     st \<notin> {TCP_SYN_SENT, TCP_FIN_WAIT2, TCP_TIME_WAIT}"

definition tcp_wf :: "tcp_session \<Rightarrow> bool" where
  "tcp_wf t \<longleftrightarrow> tcp_addrs t \<and> unat (recv_scale t) < 32 \<and> unat (send_scale t) < 32 \<and>
     unat (drop_bit (unat (recv_scale t)) (recv_window t)) \<le> 65535"

definition tcp_good :: "tcp_session ng_session \<Rightarrow> io \<Rightarrow> bool" where
  "tcp_good s w \<longleftrightarrow> sock_ok (socket s) w \<and> socket_state (t_state (sess s)) (socket s) \<and> tcp_wf (sess s)"

lemma socket_state_closing [simp]: "socket_state TCP_CLOSING fd"
  by (simp add: socket_state_def)

lemma tcp_wf_upd [simp]:
  "tcp_wf (t\<lparr>t_state := st\<rparr>) = tcp_wf t" "tcp_wf (t\<lparr>t_time := n\<rparr>) = tcp_wf t"
  "tcp_wf (t\<lparr>remote_seq := q\<rparr>) = tcp_wf t" "tcp_wf (t\<lparr>local_seq := q\<rparr>) = tcp_wf t"
  "tcp_wf (t\<lparr>acked := q\<rparr>) = tcp_wf t" "tcp_wf (t\<lparr>send_window := q\<rparr>) = tcp_wf t"
  "tcp_wf (t\<lparr>last_keep_alive := n\<rparr>) = tcp_wf t" "tcp_wf (t\<lparr>t_sent := c\<rparr>) = tcp_wf t"
  "tcp_wf (t\<lparr>t_received := c\<rparr>) = tcp_wf t" "tcp_wf (t\<lparr>forward := q'\<rparr>) = tcp_wf t"
  "tcp_wf (t\<lparr>t_hostname := h\<rparr>) = tcp_wf t" "tcp_wf (t\<lparr>connect_sent := cs\<rparr>) = tcp_wf t"
  by (simp_all add: tcp_wf_def tcp_addrs_def)

lemma tcp_wf_reset_counts [simp]: "tcp_wf (tcp_reset_counts t) = tcp_wf t"
  "t_state (tcp_reset_counts t) = t_state t"
  by (simp_all add: tcp_reset_counts_def)

subsection \<open>The periodic check keeps it\<close>

lemma tcp_expire_cases:
  assumes "tcp_expire os now timeout s w = (s', w')" "tcp_good s w"
  shows "socket s' = socket s \<and> fds w' = fds w \<and> clean w' = clean w \<and> tcp_wf (sess s') \<and>
    (sess s' = sess s \<or> t_state (sess s') = TCP_CLOSING)"
  using assms
  by (auto simp: tcp_expire_def tcp_good_def closing_state_def Let_def
      split: if_splits prod.splits dest!: write_rst_effect)

lemma tcp_close_socket_effect:
  assumes "tcp_close_socket os s w = (s', w')" "t_state (sess s) = TCP_CLOSING" "sock_ok (socket s) w"
  shows "socket s' = - 1 \<and> t_state (sess s') = TCP_CLOSE \<and> (tcp_wf (sess s) \<longrightarrow> tcp_wf (sess s')) \<and>
    own_fd_only (socket s) w (socket s') w' \<and> (clean w \<longrightarrow> clean w')"
proof (cases "0 \<le> socket s")
  case True
  then have "w' = step_io [] (sys_close (socket s) w)"
    "s' = s\<lparr>socket := - 1, sess := (sess s)\<lparr>t_time := os_time os (tick (sys_close (socket s) w)),
       t_state := TCP_CLOSE\<rparr>\<rparr>"
    using assms(1,2) by (simp_all add: tcp_close_socket_def sys_time_def)
  moreover have "socket s \<in> set (fds w)" using assms(3) True by (simp add: sock_ok_def)
  ultimately show ?thesis
    using clean_sys_close [of "socket s" w] True by (simp add: own_fd_only_def clean_def)
next
  case False
  then have "w' = step_io [] w"
    "s' = s\<lparr>sess := (sess s)\<lparr>t_time := os_time os (tick w), t_state := TCP_CLOSE\<rparr>\<rparr>"
    using assms(1,2) by (simp_all add: tcp_close_socket_def sys_time_def)
  with False assms(3) show ?thesis by (simp add: own_fd_only_def clean_def sock_ok_def)
qed

lemma check_tcp_session_effect:
  assumes "check_tcp_session os s n m w = Some (del, s', w')" "tcp_good s w"
  shows "tcp_good s' w' \<and> own_fd_only (socket s) w (socket s') w' \<and> (clean w \<longrightarrow> clean w') \<and>
    (del \<longrightarrow> socket s' = - 1) \<and> (t_state (sess s') = t_state (sess s) \<or> t_state (sess s') = TCP_CLOSE)"
proof -
  obtain now w0 where t: "sys_time os w = (now, w0)" by force
  obtain timeout where to: "get_tcp_timeout (sess s) n m = Some timeout"
    using assms(1) by (auto simp: check_tcp_session_def t bind_Some_iff)
  obtain s1 w1 where e: "tcp_expire os now timeout s w0 = (s1, w1)" by force
  obtain s2 w2 where c: "tcp_close_socket os s1 w1 = (s2, w2)" by force
  have r: "s' = s2\<lparr>sess := tcp_reset_counts (sess s2)\<rparr>" "w' = w2"
      "del \<longrightarrow> t_state (sess s') = TCP_CLOSE"
    using assms(1) by (auto simp: check_tcp_session_def t to e c)
  have f0: "fds w0 = fds w" "clean w0 = clean w"
    using fds_sys(1) [of os w] clean_sys(1) [of os w] by (simp_all add: t)
  have good: "tcp_good s w0"
    using assms(2) f0 by (simp add: tcp_good_def sock_ok_def)
  note e' = tcp_expire_cases [OF e good]
  have ok1: "sock_ok (socket s1) w1" using e' good by (simp add: tcp_good_def sock_ok_def)
  show ?thesis
  proof (cases "t_state (sess s1) = TCP_CLOSING")
    case True
    note tcp_close_socket_effect [OF c True ok1]
    with e' f0 r show ?thesis
      by (auto simp: tcp_good_def own_fd_only_def sock_ok_def socket_state_def)
  next
    case False
    with c have "s2 = s1" "w2 = w1" by (simp_all add: tcp_close_socket_def)
    with e' good f0 r False show ?thesis
      by (auto simp: tcp_good_def own_fd_only_def sock_ok_def socket_state_def)
  qed
qed

lemma tcp_good_frame: "tcp_good s w \<Longrightarrow> sock_ok (socket s) w' \<Longrightarrow> tcp_good s w'"
  by (simp add: tcp_good_def)

interpretation tcp_check: session_check "\<lambda>s w. check_tcp_session os s n m w" tcp_good socket for os n m
  by unfold_locales
     (auto simp: tcp_good_def dest: check_tcp_session_effect)

section \<open>Bounds of the timeout\<close>

lemma sdiv_nonneg: "0 \<le> a \<Longrightarrow> 0 < b \<Longrightarrow> a sdiv b = a div b" for a b :: int
  by (simp add: signed_divide_int_def sgn_if)

lemma scale_bounds:
  assumes "0 \<le> n" "n \<le> m" "0 < (m :: int)"
  shows "0 \<le> 100 - (n * 100) sdiv m \<and> 100 - (n * 100) sdiv m \<le> 100"
proof -
  have "n * 100 div m \<le> 100 * m div m" using assms by (intro zdiv_mono1) simp_all
  then have "n * 100 div m \<le> 100" using assms by simp
  then show ?thesis using assms by (simp add: sdiv_nonneg pos_imp_zdiv_nonneg_iff)
qed

lemma scaled_timeout_bounds:
  assumes "0 \<le> sc" "sc \<le> 100" "0 \<le> (t :: int)"
  shows "0 \<le> (t * sc) sdiv 100 \<and> (t * sc) sdiv 100 \<le> t"
proof -
  have "t * sc \<le> t * 100" using assms by (intro mult_left_mono) auto
  then have "t * sc div 100 \<le> t" by simp
  then show ?thesis using assms by (simp add: sdiv_nonneg pos_imp_zdiv_nonneg_iff)
qed

section \<open>Windows\<close>

lemma word_sub_le_less: "f < x \<Longrightarrow> x - f \<le> x" for f x :: u32
  by (simp add: word_le_nat_alt unat_sub_if' word_less_nat_alt)

lemma get_send_window_le: "get_send_window t \<le> send_window t"
  by (simp add: get_send_window_def Let_def word_sub_le_less)

lemma get_receive_buffer_frame:
  "get_receive_buffer os s w = (b, w') \<Longrightarrow> fds w' = fds w \<and> clean w' = clean w"
  by (auto simp: get_receive_buffer_def sys_sndbuf_def sys_outq_def clean_def Let_def split: if_splits)

lemma get_receive_window_frame:
  "get_receive_window os s w = (b, w') \<Longrightarrow> fds w' = fds w \<and> clean w' = clean w"
  by (auto simp: get_receive_window_def Let_def split: prod.splits dest: get_receive_buffer_frame)

text \<open>The window is a multiple of nothing in particular, but its scaled value always fits the
  16 bits of the header field.\<close>

lemma push_drop_bound:
  assumes "x \<le> push_bit k (0xFFFF :: u32)"
  shows "unat (drop_bit k x) \<le> 65535"
proof -
  have "unat (push_bit k (0xFFFF :: u32)) \<le> 65535 * 2 ^ k"
    using take_bit_nat_less_eq_self [of 32 "push_bit k (65535 :: nat)"]
    by (simp add: unsigned_push_bit_eq push_bit_eq_mult [where ?'a = nat])
  then have "unat x \<le> 65535 * 2 ^ k" using assms by (simp add: word_le_nat_alt)
  then have "unat x div 2 ^ k \<le> 65535 * 2 ^ k div 2 ^ k" by (rule div_le_mono)
  then show ?thesis by (simp add: unat_drop)
qed

lemma get_receive_window_fits:
  "get_receive_window os s w = (win, w') \<Longrightarrow>
     unat (drop_bit (unat (recv_scale (sess s))) win) \<le> 65535"
proof -
  assume *: "get_receive_window os s w = (win, w')"
  obtain b v where b: "get_receive_buffer os s w = (b, v)" by force
  define m where "m = push_bit (unat (recv_scale (sess s))) (0xFFFF :: u32)"
  define x where "x = (if word_of_int b > m then m else word_of_int b :: u32)"
  have "win = 0 \<or> (to_forward (forward (sess s)) < x \<and> win = x - to_forward (forward (sess s)))"
    using * b unfolding m_def x_def by (auto simp: get_receive_window_def Let_def split: if_splits)
  then have "win \<le> x" using word_sub_le_less by auto
  moreover have "x \<le> m" by (simp add: x_def not_less)
  ultimately have "win \<le> m" by (rule order.trans)
  then show ?thesis unfolding m_def by (rule push_drop_bound)
qed

section \<open>Monitoring keeps the invariant\<close>

lemma tcp_keep_alive_effect:
  "tcp_keep_alive os t w = (t', w') \<Longrightarrow> fds w' = fds w \<and> clean w' = clean w \<and>
     tcp_wf t' = tcp_wf t \<and> remote_seq t' = remote_seq t \<and>
     (t_state t' = t_state t \<or> t_state t' = TCP_CLOSING)"
proof -
  assume *: "tcp_keep_alive os t w = (t', w')"
  let ?ms = "os_ms os (tick w)" and ?w = "step_io [] w"
  let ?t = "t\<lparr>last_keep_alive := ?ms, remote_seq := remote_seq t - 1\<rparr>"
  obtain r t2 w2 where a: "write_ack os ?t ?w = (r, t2, w2)" by (metis prod_cases3)
  have e: "wrote r ?t ?w t2 w2" using a by (rule writer_wrote)
  have io: "clean ?w = clean w" by (simp add: clean_def)
  show ?thesis
  proof (cases "?ms - last_keep_alive t > EPOLL_MIN_CHECK")
    case True
    then have "t' = t2\<lparr>remote_seq := remote_seq t2 + 1\<rparr>" "w' = w2"
      using * a by (simp_all add: tcp_keep_alive_def sys_ms_def)
    with e io show ?thesis by (auto simp: wrote_def)
  next
    case False
    then show ?thesis using * io by (auto simp: tcp_keep_alive_def sys_ms_def)
  qed
qed

lemma monitor_events_effect:
  assumes "monitor_events os s w = (recheck, ev, s', w')" "tcp_good s w"
  shows "tcp_good s' w' \<and> socket s' = socket s \<and> fds w' = fds w \<and> clean w' = clean w \<and>
    ev_events s' = ev_events s"
proof -
  obtain t v where k: "tcp_keep_alive os (sess s) w = (t, v)" by force
  note k' = tcp_keep_alive_effect [OF k]
  obtain b1 v1 where b1: "get_receive_buffer os s w = (b1, v1)" by force
  obtain b2 v2 where b2: "get_receive_buffer os (s\<lparr>sess := t\<rparr>) v = (b2, v2)" by force
  show ?thesis
    using assms k' get_receive_buffer_frame [OF b1] get_receive_buffer_frame [OF b2]
    by (auto simp: monitor_events_def k b1 b2 tcp_good_def sock_ok_def split: if_splits)
qed

lemma monitor_tcp_session_effect:
  assumes "monitor_tcp_session os s w = (recheck, s', w')" "tcp_good s w"
  shows "tcp_good s' w' \<and> socket s' = socket s \<and> fds w' = fds w \<and> clean w' = clean w"
proof -
  obtain r ev s1 w1 where m: "monitor_events os s w = (r, ev, s1, w1)" by (metis prod_cases4)
  note m' = monitor_events_effect [OF m assms(2)]
  show ?thesis
    using assms(1) m'
    by (auto simp: monitor_tcp_session_def m sys_epoll_mod_def tcp_good_def sock_ok_def clean_def Let_def
        split: if_splits)
qed

interpretation tcp_monitor: session_op "\<lambda>s w. Some (snd (monitor_tcp_session os s w))" tcp_good socket for os
proof unfold_locales
  fix s w s' w'
  assume g: "tcp_good s w" and "Some (snd (monitor_tcp_session os s w)) = Some (s', w')"
  then obtain r where "monitor_tcp_session os s w = (r, s', w')" by (cases "monitor_tcp_session os s w") auto
  from monitor_tcp_session_effect [OF this g]
  show "tcp_good s' w'" "own_fd_only (socket s) w (socket s') w'" "clean w \<Longrightarrow> clean w'"
    by (simp_all add: own_fd_only_def)
qed

end
