(* ===== verification/Tcp_Queue.thy ===== *)
theory Tcp_Queue
  imports Sessions
begin

text \<open>
  The queue of segments an app has sent and the socket has not yet taken (\<open>queue_tcp\<close> of
  \<^verbatim>\<open>tcp.c\<close>): a list kept in the order of the code's comparison, with one segment per sequence
  number, the longest copy seen. The interface \<open>key_order\<close> says what the queue needs of the
  comparison: on the sequence numbers in play it is a linear order. It is provided by \<open>compare_u32\<close>
  on every stretch of \<open>2 ^ 31 - 1\<close> numbers, wherever it lies: there it is the order of the signed
  values, which is not the order of the stream where the stretch crosses the sign boundary.
\<close>

section \<open>Queueing a segment\<close>

text \<open>The walk along the list: the segments before the place, and the ones from it on.\<close>

fun queue_insert :: "u32 \<Rightarrow> byte list \<Rightarrow> bool \<Rightarrow> segment list \<Rightarrow> segment list" where
  "queue_insert seq data psh [] =
     [\<lparr>seg_seq = seq, seg_len = of_nat (length data), seg_sent = 0, seg_psh = psh, seg_data = data\<rparr>]"
| "queue_insert seq data psh (s # ss) =
     (if compare_u32 (seg_seq s) seq < 0 then s # queue_insert seq data psh ss
      else if compare_u32 (seg_seq s) seq > 0 then
        \<lparr>seg_seq = seq, seg_len = of_nat (length data), seg_sent = 0, seg_psh = psh, seg_data = data\<rparr> # s # ss
      else if seg_seq s = seq \<and> seg_len s < of_nat (length data) then
        s\<lparr>seg_data := data, seg_len := of_nat (length data)\<rparr> # ss
      else s # ss)"

definition queue_tcp :: "u32 \<Rightarrow> bool \<Rightarrow> tcp_session \<Rightarrow> byte list \<Rightarrow> tcp_session" where
  "queue_tcp seq psh cur data =
     (if compare_u32 seq (remote_seq cur) < 0 then cur
      else cur\<lparr>forward := queue_insert seq data psh (forward cur)\<rparr>)"

text \<open>\<open>clear_tcp_data\<close> frees the whole queue.\<close>

definition clear_tcp_data :: "tcp_session \<Rightarrow> tcp_session" where
  "clear_tcp_data cur = cur\<lparr>forward := []\<rparr>"

section \<open>Lists ordered by a comparison\<close>

text \<open>The pattern of \<open>queue_insert\<close> for any comparison: \<open>upd\<close> is what happens to a record that
  already has the key.\<close>

fun ordered_insert ::
    "('k \<Rightarrow> 'k \<Rightarrow> int) \<Rightarrow> ('s \<Rightarrow> 'k) \<Rightarrow> ('s \<Rightarrow> 's) \<Rightarrow> 's \<Rightarrow> 's list \<Rightarrow> 's list" where
  "ordered_insert cmp key upd new [] = [new]"
| "ordered_insert cmp key upd new (s # ss) =
     (if cmp (key s) (key new) < 0 then s # ordered_insert cmp key upd new ss
      else if cmp (key s) (key new) > 0 then new # s # ss
      else upd s # ss)"

definition ordered :: "('k \<Rightarrow> 'k \<Rightarrow> int) \<Rightarrow> 'k set \<Rightarrow> ('s \<Rightarrow> 'k) \<Rightarrow> 's list \<Rightarrow> bool" where
  "ordered cmp S key ss \<longleftrightarrow>
     sorted_wrt (\<lambda>a b. cmp (key a) (key b) < 0) ss \<and> (\<forall>s \<in> set ss. key s \<in> S)"

definition queued :: "('s \<Rightarrow> 'k) \<Rightarrow> 's list \<Rightarrow> 'k \<Rightarrow> 's option" where
  "queued key ss k = find (\<lambda>s. key s = k) ss"

lemma queued_simps [simp]:
  "queued key [] k = None"
  "queued key (s # ss) k = (if key s = k then Some s else queued key ss k)"
  by (simp_all add: queued_def)

lemma set_ordered_insert: "set (ordered_insert cmp key upd new ss) \<subseteq> insert new (set ss \<union> upd ` set ss)"
  by (induction ss) auto

locale key_order =
  fixes cmp :: "'k \<Rightarrow> 'k \<Rightarrow> int" and S :: "'k set"
  assumes cmp_zero: "a \<in> S \<Longrightarrow> b \<in> S \<Longrightarrow> cmp a b = 0 \<longleftrightarrow> a = b"
    and cmp_flip: "a \<in> S \<Longrightarrow> b \<in> S \<Longrightarrow> cmp a b > 0 \<longleftrightarrow> cmp b a < 0"
    and cmp_trans: "a \<in> S \<Longrightarrow> b \<in> S \<Longrightarrow> c \<in> S \<Longrightarrow> cmp a b < 0 \<Longrightarrow> cmp b c < 0 \<Longrightarrow> cmp a c < 0"
begin

lemma insert_ordered:
  assumes "\<And>s. key (upd s) = key s" "key new \<in> S" "ordered cmp S key ss"
  shows "ordered cmp S key (ordered_insert cmp key upd new ss)"
  using assms(3)
proof (induction ss)
  case Nil
  then show ?case using assms(2) by (simp add: ordered_def)
next
  case (Cons s ss)
  then have ih: "ordered cmp S key (ordered_insert cmp key upd new ss)"
    and s: "key s \<in> S" "\<And>x. x \<in> set ss \<Longrightarrow> key x \<in> S \<and> cmp (key s) (key x) < 0"
    by (auto simp: ordered_def)
  consider (lt) "cmp (key s) (key new) < 0" | (gt) "cmp (key s) (key new) > 0"
    | (eq) "cmp (key s) (key new) = 0" by linarith
  then show ?case
  proof cases
    case lt
    have "key x \<in> S \<and> cmp (key s) (key x) < 0" if "x \<in> set (ordered_insert cmp key upd new ss)" for x
      using that set_ordered_insert [of cmp key upd new ss] s(2) lt assms(1,2) by auto
    with lt ih s(1) show ?thesis by (simp add: ordered_def)
  next
    case gt
    then have n: "cmp (key new) (key s) < 0" using cmp_flip [OF s(1) assms(2)] by simp
    then have "cmp (key new) (key x) < 0" if "x \<in> set ss" for x
      using cmp_trans [OF assms(2) s(1) _ n] s(2) [OF that] by blast
    with gt n Cons.prems assms(2) show ?thesis by (auto simp: ordered_def)
  next
    case eq
    with Cons.prems assms(1) show ?thesis by (auto simp: ordered_def)
  qed
qed

lemma queued_less_None:
  "ordered cmp S key (s # ss) \<Longrightarrow> k \<in> S \<Longrightarrow> cmp k (key s) < 0 \<Longrightarrow> queued key (s # ss) k = None"
proof (induction ss arbitrary: s)
  case Nil
  then have "key s \<noteq> k" using cmp_zero [of k "key s"] by (auto simp: ordered_def)
  then show ?case by simp
next
  case (Cons x xs)
  then have "key s \<in> S" "key x \<in> S" "cmp (key s) (key x) < 0" "ordered cmp S key (x # xs)"
    by (auto simp: ordered_def)
  moreover from this Cons.prems have "cmp k (key x) < 0" using cmp_trans [of k "key s" "key x"] by blast
  moreover have "key s \<noteq> k" using Cons.prems cmp_zero [of k "key s"] \<open>key s \<in> S\<close> by auto
  ultimately show ?case using Cons.IH [of x] Cons.prems(2) by simp
qed

lemma insert_queued:
  assumes "\<And>s. key (upd s) = key s" "key new \<in> S" "ordered cmp S key ss" "k \<in> S"
  shows "queued key (ordered_insert cmp key upd new ss) k =
    (if k = key new then Some (case queued key ss k of None \<Rightarrow> new | Some s \<Rightarrow> upd s)
     else queued key ss k)"
  using assms(3)
proof (induction ss)
  case Nil
  then show ?case by auto
next
  case (Cons s ss)
  then have o: "ordered cmp S key ss" and s: "key s \<in> S" by (auto simp: ordered_def)
  consider (lt) "cmp (key s) (key new) < 0" | (gt) "cmp (key s) (key new) > 0"
    | (eq) "cmp (key s) (key new) = 0" by linarith
  then show ?case
  proof cases
    case lt
    then have "key s \<noteq> key new" using cmp_zero [OF s assms(2)] by auto
    with lt Cons.IH [OF o] show ?thesis by auto
  next
    case gt
    then have "cmp (key new) (key s) < 0" using cmp_flip [OF s assms(2)] by simp
    then have "queued key (s # ss) (key new) = None" by (rule queued_less_None [OF Cons.prems assms(2)])
    with gt show ?thesis by (simp split: if_splits)
  next
    case eq
    then have "key s = key new" using cmp_zero [OF s assms(2)] by simp
    with eq assms(1) show ?thesis by simp
  qed
qed

end

section \<open>Sequence numbers of a stream\<close>

text \<open>The numbers from \<open>base\<close> on, less than half the space. No two of them are at the one distance
  at which \<open>compare_u32\<close> is not the signed comparison.\<close>

definition seq_window :: "u32 \<Rightarrow> u32 set" where
  "seq_window base = {x. unat (x - base) < 0x7FFFFFFF}"

definition not_opposite :: "u32 \<Rightarrow> u32 \<Rightarrow> bool" where
  "not_opposite a b \<longleftrightarrow> \<bar>sint a - sint b\<bar> \<noteq> 0x7FFFFFFF"

lemma not_opposite_compare:
  assumes "not_opposite a b"
  shows "compare_u32 a b < 0 \<longleftrightarrow> sint a < sint b" "compare_u32 a b > 0 \<longleftrightarrow> sint a > sint b"
  using assms unfolding not_opposite_def by (rule compare_u32_less, rule compare_u32_greater)

lemma seq_window_distance:
  assumes "a \<in> seq_window base" "b \<in> seq_window base"
  shows "sint a - sint b \<noteq> 0x7FFFFFFF"
proof
  assume "sint a - sint b = 0x7FFFFFFF"
  then have "(word_of_int (sint a - sint b) :: u32) = 0x7FFFFFFF" by simp
  moreover have "(word_of_int (sint a - sint b) :: u32) = a - b" by (simp flip: wi_hom_sub)
  ultimately have "a - b = 0x7FFFFFFF" by simp
  then have "a = b + 0x7FFFFFFF" by (metis diff_add_cancel add.commute)
  then have "a - base = (b - base) + 0x7FFFFFFF" by (simp add: algebra_simps)
  then have "unat (a - base) = unat ((b - base) + 0x7FFFFFFF)" by (rule arg_cong)
  also have "\<dots> = unat (b - base) + 0x7FFFFFFF"
    using assms(2) by (simp add: seq_window_def unat_word_ariths)
  finally show False using assms(1) by (simp add: seq_window_def)
qed

lemma seq_window_not_opposite: "a \<in> seq_window base \<Longrightarrow> b \<in> seq_window base \<Longrightarrow> not_opposite a b"
  using seq_window_distance [of a base b] seq_window_distance [of b base a] by (auto simp: not_opposite_def)

lemmas seq_window_compare = not_opposite_compare [OF seq_window_not_opposite]

interpretation seqs: key_order compare_u32 "seq_window base" for base
  by unfold_locales (auto simp: compare_u32_zero_iff seq_window_compare)

section \<open>The queue\<close>

definition merge_segment :: "byte list \<Rightarrow> segment \<Rightarrow> segment" where
  "merge_segment data s =
     (if seg_len s < of_nat (length data) then s\<lparr>seg_data := data, seg_len := of_nat (length data)\<rparr> else s)"

lemma queue_insert_ordered:
  "queue_insert seq data psh ss =
     ordered_insert compare_u32 seg_seq (merge_segment data)
       \<lparr>seg_seq = seq, seg_len = of_nat (length data), seg_sent = 0, seg_psh = psh, seg_data = data\<rparr> ss"
proof (induction ss)
  case (Cons s ss)
  have "seg_seq s = seq" if "\<not> compare_u32 (seg_seq s) seq < 0" "\<not> compare_u32 (seg_seq s) seq > 0"
    using that compare_u32_zero_iff [of "seg_seq s" seq] by linarith
  with Cons show ?case by (auto simp: merge_segment_def)
qed simp

definition segment_wf :: "segment \<Rightarrow> bool" where
  "segment_wf s \<longleftrightarrow> length (seg_data s) = unat (seg_len s) \<and> seg_sent s \<le> seg_len s"

text \<open>In the order of the signed values, which also says that no number occurs twice.\<close>

definition queue_wf :: "u32 \<Rightarrow> segment list \<Rightarrow> bool" where
  "queue_wf base ss \<longleftrightarrow> sorted_wrt (\<lambda>a b. sint (seg_seq a) < sint (seg_seq b)) ss \<and>
     (\<forall>s \<in> set ss. seg_seq s \<in> seq_window base \<and> segment_wf s)"

lemma queue_wf_ordered:
  "queue_wf base ss \<longleftrightarrow> ordered compare_u32 (seq_window base) seg_seq ss \<and> (\<forall>s \<in> set ss. segment_wf s)"
proof -
  have "sorted_wrt (\<lambda>a b. sint (seg_seq a) < sint (seg_seq b)) ss \<longleftrightarrow>
      sorted_wrt (\<lambda>a b. compare_u32 (seg_seq a) (seg_seq b) < 0) ss"
    if "\<forall>s \<in> set ss. seg_seq s \<in> seq_window base"
    using that by (induction ss) (auto simp: seq_window_compare)
  then show ?thesis by (auto simp: queue_wf_def ordered_def)
qed

text \<open>What the queue stands for: the longest payload seen at each sequence number.\<close>

definition payload :: "segment list \<Rightarrow> u32 \<Rightarrow> byte list option" where
  "payload ss k = map_option seg_data (queued seg_seq ss k)"

definition longer :: "byte list \<Rightarrow> byte list option \<Rightarrow> byte list" where
  "longer data old = (case old of None \<Rightarrow> data | Some d \<Rightarrow> if length d < length data then data else d)"

lemma of_nat_u16: "n \<le> 65535 \<Longrightarrow> unat (of_nat n :: u16) = n"
  by (simp add: unat_of_nat)

lemma segment_wf_merge: "segment_wf s \<Longrightarrow> length data \<le> 65535 \<Longrightarrow> segment_wf (merge_segment data s)"
  by (auto simp: segment_wf_def merge_segment_def of_nat_u16 word_le_nat_alt word_less_nat_alt)

lemma segment_wf_new:
  "length data \<le> 65535 \<Longrightarrow>
     segment_wf \<lparr>seg_seq = q, seg_len = of_nat (length data), seg_sent = 0, seg_psh = p, seg_data = data\<rparr>"
  by (simp add: segment_wf_def of_nat_u16)

lemma merge_segment_data:
  "segment_wf s \<Longrightarrow> length data \<le> 65535 \<Longrightarrow> seg_data (merge_segment data s) = longer data (Some (seg_data s))"
  by (simp add: merge_segment_def longer_def segment_wf_def word_less_nat_alt of_nat_u16)

lemma queue_insert_keys:
  "seg_seq ` set (queue_insert seq data psh ss) = insert seq (seg_seq ` set ss)"
proof (induction ss)
  case (Cons s ss)
  have "seg_seq s = seq" if "\<not> compare_u32 (seg_seq s) seq < 0" "\<not> compare_u32 (seg_seq s) seq > 0"
    using that compare_u32_zero_iff [of "seg_seq s" seq] by linarith
  with Cons show ?case by auto
qed simp

text \<open>C19: inserting a segment keeps the queue ordered by the signed value of the sequence number, with
  one segment for each number and every segment's length that of its data, and adds the new number
  only, as long as all numbers lie in one stretch of less than half the sequence space (\<open>2 ^ 31 - 1\<close>
  numbers from any \<open>base\<close> on, which may cross the sign boundary) and the data fits the 16-bit length. The signed
  order is not that of the stream: across the boundary the later segment is put in front, as the
  last conjunct shows.\<close>

theorem queue_insert_wf:
  assumes "queue_wf base ss" "seq \<in> seq_window base" "length data \<le> 65535"
  shows "queue_wf base (queue_insert seq data psh ss) \<and>
    seg_seq ` set (queue_insert seq data psh ss) = insert seq (seg_seq ` set ss) \<and>
    map seg_seq (queue_insert 0x80000000 data psh (queue_insert 0x7FFFFFFF data psh [])) = [0x80000000, 0x7FFFFFFF]"
proof -
  let ?new = "\<lparr>seg_seq = seq, seg_len = of_nat (length data), seg_sent = 0, seg_psh = psh, seg_data = data\<rparr>"
  have "ordered compare_u32 (seq_window base) seg_seq (queue_insert seq data psh ss)"
    unfolding queue_insert_ordered
    by (rule seqs.insert_ordered) (use assms in \<open>auto simp: merge_segment_def queue_wf_ordered\<close>)
  moreover have "segment_wf s" if "s \<in> set (queue_insert seq data psh ss)" for s
    using that set_ordered_insert [of compare_u32 seg_seq "merge_segment data" ?new ss] assms
      segment_wf_merge segment_wf_new
    unfolding queue_insert_ordered queue_wf_def by blast
  moreover have "compare_u32 0x7FFFFFFF 0x80000000 = 1" by code_simp
  ultimately show ?thesis by (simp add: queue_wf_ordered queue_insert_keys)
qed

text \<open>C14: the queue is a map from sequence numbers to the longest data received for each, as long as
  all numbers lie in one stretch of less than half the sequence space (\<open>2 ^ 31 - 1\<close> numbers from any
  \<open>base\<close> on): inserting changes it at the new number only, and never replaces data by shorter data. The bound is
  sharp: of two numbers exactly \<open>2 ^ 31 - 1\<close> apart, one inserted twice is there twice.\<close>

theorem queue_insert_payload:
  assumes "queue_wf base ss" "seq \<in> seq_window base" "length data \<le> 65535" "k \<in> seq_window base"
  shows "payload (queue_insert seq data psh ss) k =
      (if k = seq then Some (longer data (payload ss seq)) else payload ss k) \<and>
    map seg_seq (queue_insert 0x7FFFFFFF data psh (queue_insert 0 data psh (queue_insert 0x7FFFFFFF data psh []))) =
      [0x7FFFFFFF, 0, 0x7FFFFFFF]"
proof -
  have o: "ordered compare_u32 (seq_window base) seg_seq ss" using assms(1) by (simp add: queue_wf_ordered)
  have wf: "segment_wf s" if "queued seg_seq ss seq = Some s" for s
    using that assms(1) by (auto simp: queued_def queue_wf_def find_Some_iff)
  have "queued seg_seq (queue_insert seq data psh ss) k =
      (if k = seq then Some (case queued seg_seq ss k of None \<Rightarrow>
          \<lparr>seg_seq = seq, seg_len = of_nat (length data), seg_sent = 0, seg_psh = psh, seg_data = data\<rparr>
        | Some s \<Rightarrow> merge_segment data s)
       else queued seg_seq ss k)"
    unfolding queue_insert_ordered
    using seqs.insert_queued [of seg_seq "merge_segment data" _ base ss k] o assms(2,4)
    by (simp add: merge_segment_def)
  then have "payload (queue_insert seq data psh ss) k =
      (if k = seq then Some (longer data (payload ss seq)) else payload ss k)"
    using merge_segment_data [OF wf assms(3)]
    by (auto simp: payload_def longer_def split: option.splits)
  moreover have "compare_u32 0x7FFFFFFF 0 = 1" "compare_u32 0 0x7FFFFFFF = 1" by code_simp+
  ultimately show ?thesis by simp
qed

text \<open>A queue across the sign boundary: the later segment is in front.\<close>

definition example_queue :: "segment list" where
  "example_queue = [\<lparr>seg_seq = 0x80000001, seg_len = 1, seg_sent = 0, seg_psh = True, seg_data = [67]\<rparr>,
     \<lparr>seg_seq = 0x7FFFFFFF, seg_len = 2, seg_sent = 0, seg_psh = True, seg_data = [65, 66]\<rparr>]"

lemma example_queue_wf: "queue_wf 0x7FFFFFF0 example_queue"
  by (simp add: queue_wf_def example_queue_def segment_wf_def seq_window_def)

theorem queue_insert_wf_witness:
  "queue_wf 0x7FFFFFF0 (queue_insert 0x7FFFFFFF [65, 66, 67, 68] True example_queue) \<and>
    length (queue_insert 0x80000000 [66] True example_queue) = 3"
proof -
  have "queue_wf 0x7FFFFFF0 (queue_insert 0x7FFFFFFF [65, 66, 67, 68] True example_queue)"
    using queue_insert_wf [OF example_queue_wf, where seq = "0x7FFFFFFF" and data = "[65, 66, 67, 68]" and psh = True] by (simp add: seq_window_def)
  moreover have "length (queue_insert 0x80000000 [66] True example_queue) = 3"
    by (simp add: example_queue_def compare_u32_signed)
  ultimately show ?thesis by blast
qed

theorem queue_insert_payload_witness:
  "payload (queue_insert 0x7FFFFFFF [65, 66, 67, 68] True example_queue) 0x80000001 = Some [67] \<and>
    payload (queue_insert 0x7FFFFFFF [65, 66, 67, 68] True example_queue) 0x7FFFFFFF = Some [65, 66, 67, 68]"
  using queue_insert_payload [OF example_queue_wf, where seq = "0x7FFFFFFF" and data = "[65, 66, 67, 68]" and k = "0x80000001" and psh = True]
    queue_insert_payload [OF example_queue_wf, where seq = "0x7FFFFFFF" and data = "[65, 66, 67, 68]" and k = "0x7FFFFFFF" and psh = True]
  by (simp add: seq_window_def payload_def longer_def example_queue_def)

end
