(* ===== verification/Http.thy ===== *)
theory Http
  imports Kernel
begin

text \<open>
  The plain-HTTP side of \<^verbatim>\<open>http.c\<close>: scanning a request's headers, finding a word in a buffer
  and rewriting the request line so that a proxy sees an absolute URL. Buffers are followed by
  whatever the allocation behind the pointer still holds: a list \<open>d\<close> may be longer than the
  length passed beside it. The lemmas show where the scan is memory safe, that a word is found
  at its first occurrence, and that the rewriting only inserts.
\<close>

section \<open>Headers\<close>

definition CR :: byte where "CR = 0x0D"
definition LF :: byte where "LF = 0x0A"

text \<open>The test that ends both loops of \<open>next_header\<close>; its second read is skipped after a CR.\<close>

definition at_break :: "byte list \<Rightarrow> nat \<Rightarrow> bool option" where
  "at_break d i = do {
     a \<leftarrow> rd d i;
     if a = CR then Some True else do { b \<leftarrow> rd d (i + 1); Some (b = LF) }
   }"

lemma at_break_in: "at_break d i = Some b \<Longrightarrow> i < length d"
  by (auto simp: at_break_def bind_Some_iff rd_Some_iff)

text \<open>The first loop looks for the end of the current line.\<close>

function skip_line :: "byte list \<Rightarrow> nat \<Rightarrow> u64 \<Rightarrow> (nat \<times> u64) option" where
  "skip_line d pos len =
     (if len > 2 then do {
        stop \<leftarrow> at_break d pos;
        if stop then Some (pos, len) else skip_line d (pos + 1) (len - 1)
      } else Some (pos, len))"
  by pat_completeness auto
termination
proof (relation "measure (\<lambda>(d, pos, len). unat len)")
  fix len :: u64
  assume "len > 2"
  then have "len \<noteq> 0" by auto
  then have "unat (len - 1) < unat len" using measure_unat by blast
  then show "((d, pos + 1, len - 1), d, pos, len) \<in> measure (\<lambda>(d, pos, len). unat len)" for d :: "byte list" and pos
    by simp
qed simp

text \<open>The second loop measures the next line.\<close>

function line_length :: "byte list \<Rightarrow> nat \<Rightarrow> u64 \<Rightarrow> nat \<Rightarrow> nat option" where
  "line_length d pos len n =
     (if len > of_nat (n + 1) then do {
        stop \<leftarrow> at_break d (pos + n);
        if stop then Some n else line_length d pos len (n + 1)
      } else Some n)"
  by pat_completeness auto
termination
  by (relation "measure (\<lambda>(d, pos, len, n). length d - (pos + n))") (auto dest: at_break_in)

text \<open>The result: the length of the next header, and the new position and remaining length. The
  subtraction of 2 wraps around when fewer than two bytes remain.\<close>

definition next_header :: "byte list \<Rightarrow> nat \<Rightarrow> u64 \<Rightarrow> (nat \<times> nat \<times> u64) option" where
  "next_header d pos len = do {
     (pos, len) \<leftarrow> skip_line d pos len;
     let pos = pos + 2;
     let len = len - 2;
     n \<leftarrow> line_length d pos len 0;
     Some (n, pos, len)
   }"

text \<open>\<open>isblank\<close>, and the loop over leading whitespace.\<close>

definition isblank :: "byte \<Rightarrow> bool" where
  "isblank b \<longleftrightarrow> b = 32 \<or> b = 9"

function eat_blank :: "byte list \<Rightarrow> nat \<Rightarrow> nat \<Rightarrow> nat \<Rightarrow> nat option" where
  "eat_blank d pos header_len len =
     (if header_len < len then do {
        b \<leftarrow> rd d (pos + header_len);
        if isblank b then eat_blank d pos (header_len + 1) len else Some header_len
      } else Some header_len)"
  by pat_completeness auto
termination
  by (relation "measure (\<lambda>(d, pos, hl, len). len - hl)") auto

declare skip_line.simps [simp del] line_length.simps [simp del] eat_blank.simps [simp del]

lemma skip_line_mono: "skip_line d pos len = Some (pos', len') \<Longrightarrow> pos \<le> pos'"
proof (induction d pos len rule: skip_line.induct)
  case (1 d pos len)
  then show ?case
    by (auto simp: skip_line.simps [of d pos len] bind_Some_iff split: if_splits)
       (meson Suc_leD)
qed

lemma line_length_reads: "line_length d pos len n = Some k \<Longrightarrow> n \<le> k \<and> (n < k \<longrightarrow> pos + n < length d)"
proof (induction d pos len n rule: line_length.induct)
  case (1 d pos len n)
  then show ?case
    by (auto simp: line_length.simps [of d pos len n] bind_Some_iff dest: at_break_in split: if_splits)
       (meson Suc_leD)
qed

lemma next_header_progress:
  "next_header d pos len = Some (n, pos', len') \<Longrightarrow> n \<noteq> 0 \<Longrightarrow> pos < pos' \<and> pos' < length d"
  by (auto simp: next_header_def bind_Some_iff Let_def dest!: skip_line_mono line_length_reads)

text \<open>\<open>get_header\<close>: the result code, and the value stored when there is one. The prefix may be
  eaten only once, since the function returns then; \<open>value_null\<close> says whether the caller passed
  \<open>NULL\<close>.\<close>

function get_header ::
    "byte list \<Rightarrow> byte list \<Rightarrow> nat \<Rightarrow> u64 \<Rightarrow> bool \<Rightarrow> (int \<times> byte list option) option" where
  "get_header header d pos data_len value_null = do {
     (len, pos', data_len') \<leftarrow> next_header d pos data_len;
     if len = 0 then Some (if data_len' = 0 then - 1 else - 2, None)
     else do {
       found \<leftarrow> (if len > length header then strncasecmp_eq header d pos' else Some False);
       if found then do {
         header_len \<leftarrow> eat_blank d pos' (length header) len;
         if value_null then Some (- 4, None)
         else do {
           v \<leftarrow> strncpy d (pos' + header_len) (len - header_len);
           Some (int (len - header_len), Some v)
         }
       }
       else get_header header d pos' data_len' value_null
     }
   }"
  by pat_completeness auto
termination
  by (relation "measure (\<lambda>(h, d, pos, len, nul). length d - pos)") (auto dest!: next_header_progress)

declare get_header.simps [simp del]

section \<open>Finding a word\<close>

text \<open>The inner loop, which looks for the first letter (case-sensitively), and the outer one. The
  result is the offset of the match, \<open>None\<close> inside for the null pointer.\<close>

fun find_letter :: "byte list \<Rightarrow> byte \<Rightarrow> nat \<Rightarrow> nat \<Rightarrow> (nat \<times> nat) option" where
  "find_letter d c pos n = do {
     b \<leftarrow> rd d pos;
     if b \<noteq> c \<and> n > 2 then find_letter d c (pos + 1) (n - 1) else Some (pos, n)
   }"

declare find_letter.simps [simp del]

lemma find_letter_le: "find_letter d c pos n = Some (p, m) \<Longrightarrow> m \<le> n \<and> (2 \<le> n \<longrightarrow> 2 \<le> m)"
proof (induction d c pos n rule: find_letter.induct)
  case (1 d c pos n)
  then show ?case
    by (auto simp: find_letter.simps [of d c pos n] bind_Some_iff split: if_splits)
qed

function find_data_from :: "byte list \<Rightarrow> byte list \<Rightarrow> nat \<Rightarrow> nat \<Rightarrow> nat option option" where
  "find_data_from value d pos n =
     (if n > 2 then do {
        (pos, n) \<leftarrow> find_letter d (hd value) pos n;
        found \<leftarrow> strncasecmp_eq value d pos;
        if found then Some (Some pos) else find_data_from value d (pos + 1) (n - 1)
      } else Some None)"
  by pat_completeness auto
termination
  by (relation "measure (\<lambda>(v, d, pos, n). n)") (auto dest!: find_letter_le)

declare find_data_from.simps [simp del]

definition find_data :: "byte list \<Rightarrow> nat \<Rightarrow> byte list \<Rightarrow> nat option option" where
  "find_data d data_len value = find_data_from value d 0 data_len"

section \<open>Rewriting the request line\<close>

definition http_prefix :: "byte list" where
  "http_prefix = cstr ''http://''"

definition host_word :: "byte list" where
  "host_word = cstr ''Host: ''"

text \<open>The words tried, in the code's order.\<close>

definition methods :: "byte list list" where
  "methods = map cstr [''GET '', ''POST '', ''PUT '', ''DELETE '', ''HEAD '', ''OPTIONS '', ''PATCH '',
     ''HEAD '', ''TRACE '', ''PROPFIND '', ''PROPPATCH '', ''MKCOL '', ''COPY '', ''MOVE '', ''LOCK '',
     ''UNLOCK '', ''LINK '', ''UNLINK '']"

text \<open>\<open>patch_buffer\<close> is an array of \<open>2 * MTU\<close> elements of the 4-byte \<open>uint_t\<close>.\<close>

definition PATCH_CAPACITY :: nat where
  "PATCH_CAPACITY = 4 * (2 * 10000)"

text \<open>The loop that copies the host up to the CR, 511 bytes at most.\<close>

fun host_chars :: "byte list \<Rightarrow> nat \<Rightarrow> nat \<Rightarrow> byte list option" where
  "host_chars d pos 0 = do { b \<leftarrow> rd d pos; Some [] }"
| "host_chars d pos (Suc k) = do {
     b \<leftarrow> rd d pos;
     if b = CR then Some [] else do { bs \<leftarrow> host_chars d (pos + 1) k; Some (b # bs) }
   }"

fun find_word :: "byte list \<Rightarrow> nat \<Rightarrow> byte list list \<Rightarrow> (nat \<times> byte list) option option" where
  "find_word d n [] = Some None"
| "find_word d n (m # ms) = do {
     r \<leftarrow> find_data d n m;
     case r of Some p \<Rightarrow> Some (Some (p, m)) | None \<Rightarrow> find_word d n ms
   }"

text \<open>The byte by byte comparison with \<open>http:\<close>, which stops at the first difference.\<close>

fun looking_at :: "byte list \<Rightarrow> byte list \<Rightarrow> nat \<Rightarrow> bool option" where
  "looking_at [] d i = Some True"
| "looking_at (c # cs) d i = do { b \<leftarrow> rd d i; if b = c then looking_at cs d (i + 1) else Some False }"

text \<open>The result: undefined behaviour, the null pointer, or the new data (its length is the value
  left in \<open>*data_len\<close>).\<close>

definition patch_http_url :: "byte list \<Rightarrow> nat \<Rightarrow> byte list option option" where
  "patch_http_url d n = do {
     host \<leftarrow> find_data d n host_word;
     case host of None \<Rightarrow> Some None
     | Some h \<Rightarrow> do {
         hostname \<leftarrow> host_chars d (h + 6) 511;
         w \<leftarrow> find_word d n methods;
         case w of None \<Rightarrow> Some None
         | Some (p, word) \<Rightarrow> do {
             let pos1 = p + length word;
             patched \<leftarrow> looking_at (cstr ''http:'') d pos1;
             if patched then Some None
             else if pos1 > n then None
             else do {
               front \<leftarrow> rd_block d 0 pos1;
               rest \<leftarrow> rd_block d pos1 (n - pos1);
               if n + length http_prefix + length hostname > PATCH_CAPACITY then None
               else Some (Some (front @ http_prefix @ hostname @ rest))
             }
           }
       }
   }"

section \<open>What a search finds\<close>

definition matches :: "byte list \<Rightarrow> byte list \<Rightarrow> nat \<Rightarrow> bool" where
  "matches v d i \<longleftrightarrow> i + length v \<le> length d \<and> map tolower (take (length v) (drop i d)) = map tolower v"

lemma strncasecmp_eq_matches:
  "i < length d \<Longrightarrow> strncasecmp_eq v d i = Some True \<Longrightarrow> matches v d i"
  using strncasecmp_eq_True [of v d i] by (simp add: matches_def)

lemma strncasecmp_eq_fails: "strncasecmp_eq v d i = Some False \<Longrightarrow> \<not> matches v d i"
  using strncasecmp_eq_defined [of i v d] by (auto simp: matches_def)

lemma find_letter_spec:
  "find_letter d c pos n = Some (p, m) \<Longrightarrow>
     pos \<le> p \<and> p < length d \<and> p + m = pos + n \<and> (\<forall>i. pos \<le> i \<and> i < p \<longrightarrow> d ! i \<noteq> c) \<and> (d ! p = c \<or> m \<le> 2)"
proof (induction d c pos n rule: find_letter.induct)
  case (1 d c pos n)
  from 1(2) have pos: "pos < length d"
    by (auto simp: find_letter.simps [of d c pos n] bind_Some_iff rd_Some_iff)
  show ?case
  proof (cases "d ! pos \<noteq> c \<and> n > 2")
    case True
    with 1(2) pos have f: "find_letter d c (pos + 1) (n - 1) = Some (p, m)"
      by (simp add: find_letter.simps [of d c pos n] rd_ok)
    have ih: "pos + 1 \<le> p \<and> p < length d \<and> p + m = pos + 1 + (n - 1) \<and>
        (\<forall>i. pos + 1 \<le> i \<and> i < p \<longrightarrow> d ! i \<noteq> c) \<and> (d ! p = c \<or> m \<le> 2)"
      using 1(1) [OF rd_ok [OF pos] True f] .
    moreover have "d ! i \<noteq> c" if "pos \<le> i" "i < p" for i
      using ih True that by (cases "i = pos") auto
    ultimately show ?thesis using True by auto
  next
    case False
    with 1(2) pos show ?thesis
      by (auto simp: find_letter.simps [of d c pos n] rd_ok)
  qed
qed

text \<open>An occurrence that the inner loop stops at: the first letter in the case asked for.\<close>

definition occurs :: "byte list \<Rightarrow> byte list \<Rightarrow> nat \<Rightarrow> bool" where
  "occurs v d i \<longleftrightarrow> d ! i = hd v \<and> matches v d i"

lemma find_data_from_spec:
  "find_data_from v d pos n = Some r \<Longrightarrow>
     (case r of
        Some p \<Rightarrow> pos \<le> p \<and> p + 2 \<le> pos + n \<and> matches v d p \<and> (d ! p = hd v \<or> p + 2 = pos + n) \<and>
          (\<forall>i. pos \<le> i \<and> i < p \<longrightarrow> \<not> occurs v d i)
      | None \<Rightarrow> (\<forall>i. pos \<le> i \<and> i + 2 < pos + n \<longrightarrow> \<not> occurs v d i))"
proof (induction v d pos n rule: find_data_from.induct)
  case (1 v d pos n)
  show ?case
  proof (cases "n > 2")
    case False
    with 1(2) show ?thesis by (auto simp: find_data_from.simps [of v d pos n])
  next
    case True
    obtain p m found where l: "find_letter d (hd v) pos n = Some (p, m)"
      and c: "strncasecmp_eq v d p = Some found"
      using 1(2) True by (auto simp: find_data_from.simps [of v d pos n] bind_Some_iff)
    note L = find_letter_spec [OF l] find_letter_le [OF l]
    have before: "\<not> occurs v d i" if "pos \<le> i" "i < p" for i
      using L that by (simp add: occurs_def)
    have m: "2 \<le> m" "p + m = pos + n" "d ! p = hd v \<or> m = 2" "p < length d" "pos \<le> p"
      using L True by auto
    show ?thesis
    proof (cases found)
      case True
      with 1(2) \<open>n > 2\<close> l c have "r = Some p" by (simp add: find_data_from.simps [of v d pos n])
      with True c m before strncasecmp_eq_matches [of p d v] show ?thesis by auto
    next
      case False
      with 1(2) True l c have r: "find_data_from v d (p + 1) (m - 1) = Some r"
        by (simp add: find_data_from.simps [of v d pos n])
      have np: "\<not> occurs v d p" using c False strncasecmp_eq_fails by (simp add: occurs_def)
      note ih = 1(1) [OF True l refl c False r]
      have all: "\<not> occurs v d i" if "pos \<le> i" "i \<le> p" for i
        using before np that by (cases "i = p") auto
      have sum: "p + 1 + (m - 1) = pos + n" using m by simp
      show ?thesis
      proof (cases r)
        case None
        then have "\<not> occurs v d i" if "pos \<le> i" "i + 2 < pos + n" for i
          using ih sum all [of i] that by (cases "i \<le> p") auto
        then show ?thesis using None by simp
      next
        case (Some q)
        then have "\<not> occurs v d i" if "pos \<le> i" "i < q" for i
          using ih all [of i] that by (cases "i \<le> p") auto
        then show ?thesis using Some ih sum m by simp
      qed
    qed
  qed
qed

text \<open>A search that has something to find is memory safe: it stops before it could overrun.\<close>

lemma find_letter_ok:
  "pos \<le> q \<Longrightarrow> q + 2 \<le> pos + n \<Longrightarrow> q < length d \<Longrightarrow> d ! q = c \<Longrightarrow>
     \<exists>p m. find_letter d c pos n = Some (p, m) \<and> p \<le> q"
proof (induction d c pos n rule: find_letter.induct)
  case (1 d c pos n)
  then have pos: "rd d pos = Some (d ! pos)" by (simp add: rd_def)
  show ?case
  proof (cases "d ! pos \<noteq> c \<and> n > 2")
    case True
    then have "pos \<noteq> q" using 1(5) by auto
    with 1(2,3) True have "pos + 1 \<le> q" "q + 2 \<le> pos + 1 + (n - 1)" by auto
    from 1(1) [OF pos True this 1(4,5)] show ?thesis
      using True pos by (simp add: find_letter.simps [of d c pos n])
  next
    case False
    with pos 1(2) show ?thesis by (auto simp: find_letter.simps [of d c pos n])
  qed
qed

lemma find_data_from_finds:
  "pos \<le> q \<Longrightarrow> q + 2 < pos + n \<Longrightarrow> v \<noteq> [] \<Longrightarrow> occurs v d q \<Longrightarrow>
     \<exists>p. find_data_from v d pos n = Some (Some p) \<and> pos \<le> p \<and> p \<le> q"
proof (induction v d pos n rule: find_data_from.induct)
  case (1 v d pos n)
  have n: "n > 2" using 1(2,3) by linarith
  have q: "q + length v \<le> length d" "d ! q = hd v" "matches v d q" "0 < length v"
    using 1(4,5) by (auto simp: occurs_def matches_def)
  obtain p m where l: "find_letter d (hd v) pos n = Some (p, m)" and p: "p \<le> q"
    using find_letter_ok [of pos q n d "hd v"] 1(2,3) q by auto
  note L = find_letter_spec [OF l] find_letter_le [OF l]
  have c: "strncasecmp_eq v d p = Some (map tolower (take (length v) (drop p d)) = map tolower v)"
    using p q by (intro strncasecmp_eq_defined) simp
  show ?case
  proof (cases "map tolower (take (length v) (drop p d)) = map tolower v")
    case True
    with c l n L p show ?thesis by (simp add: find_data_from.simps [of v d pos n])
  next
    case False
    then have "p \<noteq> q" using q by (auto simp: matches_def)
    with p L n 1(2,3) have "p + 1 \<le> q" "q + 2 < p + 1 + (m - 1)" by auto
    from 1(1) [OF n l refl c _ this 1(4,5)] False obtain k where
      "find_data_from v d (p + 1) (m - 1) = Some (Some k)" "p + 1 \<le> k" "k \<le> q" by auto
    with c l n L False show ?thesis by (simp add: find_data_from.simps [of v d pos n])
  qed
qed

lemma find_data_first:
  assumes "occurs v d q" "q + 2 < n" "v \<noteq> []" "\<And>i. i < q \<Longrightarrow> \<not> occurs v d i"
  shows "find_data d n v = Some (Some q)"
proof -
  obtain p where p: "find_data_from v d 0 n = Some (Some p)" "p \<le> q"
    using find_data_from_finds [of 0 q n v d] assms(1-3) by auto
  have "occurs v d p" using find_data_from_spec [OF p(1)] p(2) assms(2) by (auto simp: occurs_def)
  then have "p = q" using assms(4) [of p] p(2) by force
  then show ?thesis using p(1) by (simp add: find_data_def)
qed

lemma find_data_matches: "find_data d n v = Some (Some p) \<Longrightarrow> matches v d p \<and> p + 2 \<le> n"
  unfolding find_data_def by (drule find_data_from_spec) simp

section \<open>What the rewriting does\<close>

lemma host_chars_spec:
  "host_chars d pos k = Some bs \<Longrightarrow> bs = takeWhile (\<lambda>b. b \<noteq> CR) (take k (drop pos d)) \<and> length bs \<le> k"
proof (induction d pos k arbitrary: bs rule: host_chars.induct)
  case (2 d pos k)
  then have "pos < length d" by (auto simp: bind_Some_iff rd_Some_iff)
  then have "drop pos d = d ! pos # drop (pos + 1) d" using Cons_nth_drop_Suc [of pos d] by simp
  with 2 show ?case by (auto simp: bind_Some_iff rd_Some_iff split: if_splits)
qed (auto simp: bind_Some_iff)

lemma host_chars_at:
  "CR \<notin> set host \<Longrightarrow> length host \<le> k \<Longrightarrow> host_chars (pre @ host @ CR # rest) (length pre) k = Some host"
proof (induction host arbitrary: pre k)
  case Nil
  then show ?case by (cases k) (simp_all add: rd_def)
next
  case (Cons b host)
  then obtain k' where k: "k = Suc k'" by (cases k) auto
  from Cons have "host_chars ((pre @ [b]) @ host @ CR # rest) (length (pre @ [b])) k' = Some host"
    by (intro Cons.IH) (auto simp: k)
  moreover have "b \<noteq> CR" using Cons.prems(1) by auto
  ultimately show ?case by (simp add: k rd_def)
qed

lemma looking_at_defined:
  "i + length s \<le> length d \<Longrightarrow> looking_at s d i = Some (take (length s) (drop i d) = s)"
proof (induction s arbitrary: i)
  case (Cons c cs)
  then have "drop i d = d ! i # drop (i + 1) d" using Cons_nth_drop_Suc [of i d] by simp
  with Cons show ?case by (auto simp: rd_def)
qed simp

lemma find_word_spec:
  "find_word d n ws = Some (Some (p, word)) \<Longrightarrow> word \<in> set ws \<and> matches word d p \<and> p + 2 \<le> n"
proof (induction ws)
  case (Cons m ms)
  then obtain r where r: "find_data d n m = Some r" by (auto simp: bind_Some_iff)
  show ?case
  proof (cases r)
    case None
    with Cons r show ?thesis by simp
  next
    case (Some q)
    with Cons.prems r have "q = p" "m = word" by simp_all
    with find_data_matches [of d n m q] r Some show ?thesis by simp
  qed
qed simp

text \<open>When data is replaced, the new data is the old with \<open>http://\<close> and a host inserted after a
  method word; the host is one that follows \<open>Host:\<close> in the data.\<close>

definition inserts_url :: "byte list \<Rightarrow> nat \<Rightarrow> byte list \<Rightarrow> byte list \<Rightarrow> nat \<Rightarrow> byte list \<Rightarrow> bool" where
  "inserts_url d n word host p new \<longleftrightarrow>
     word \<in> set methods \<and> matches word d p \<and> p + length word \<le> n \<and> n \<le> length d \<and>
     new = take (p + length word) d @ http_prefix @ host @ take (n - (p + length word)) (drop (p + length word) d)"

lemma patch_http_url_inserts:
  assumes "patch_http_url d n = Some (Some new)"
  obtains word host p h where "inserts_url d n word host p new" "length host \<le> 511"
    "matches host_word d h" "host = takeWhile (\<lambda>b. b \<noteq> CR) (take 511 (drop (h + 6) d))"
    "looking_at (cstr ''http:'') d (p + length word) = Some False"
proof -
  from assms obtain h host where h: "find_data d n host_word = Some (Some h)"
    and host: "host_chars d (h + 6) 511 = Some host"
    by (auto simp: patch_http_url_def bind_Some_iff split: option.splits)
  from assms h host obtain p word where w: "find_word d n methods = Some (Some (p, word))"
    by (auto simp: patch_http_url_def bind_Some_iff split: option.splits)
  let ?k = "p + length word"
  from assms h host w obtain front rest where k: "?k \<le> n" and lk: "looking_at (cstr ''http:'') d ?k = Some False"
    and b: "rd_block d 0 ?k = Some front" "rd_block d ?k (n - ?k) = Some rest"
    and new: "new = front @ http_prefix @ host @ rest"
    by (auto simp: patch_http_url_def bind_Some_iff Let_def split: if_splits)
  have "inserts_url d n word host p new"
    using find_word_spec [OF w] k b new by (auto simp: inserts_url_def rd_block_def split: if_splits)
  moreover have "length host \<le> 511" "host = takeWhile (\<lambda>b. b \<noteq> CR) (take 511 (drop (h + 6) d))"
    using host_chars_spec [OF host] by auto
  ultimately show ?thesis using that find_data_matches [OF h] lk by blast
qed

text \<open>The case it is written for: a GET request whose \<open>Host\<close> header comes first.\<close>

definition get_request :: "byte list \<Rightarrow> byte list \<Rightarrow> byte list \<Rightarrow> byte list" where
  "get_request uri host tail =
     cstr ''GET '' @ uri @ cstr '' HTTP/1.1'' @ [CR, LF] @ host_word @ host @ [CR, LF] @ tail"

lemma occurs_at: "v \<noteq> [] \<Longrightarrow> occurs v (pre @ v @ rest) (length pre)"
  by (auto simp: occurs_def matches_def nth_append hd_conv_nth)

text \<open>A word whose second letter does not follow.\<close>

lemma matches_second:
  "matches (a # b # v) d i \<Longrightarrow> i + 1 < length d \<and> tolower (d ! (i + 1)) = tolower b"
proof -
  assume m: "matches (a # b # v) d i"
  then have len: "i + 1 < length d" by (simp add: matches_def)
  then have "drop i d = d ! i # d ! (i + 1) # drop (i + 2) d"
    by (simp add: Cons_nth_drop_Suc)
  with m len show ?thesis by (simp add: matches_def)
qed

lemma get_request_host_first:
  fixes uri :: "byte list"
  defines "pre \<equiv> cstr ''GET '' @ uri @ cstr '' HTTP/1.1'' @ [CR, LF]"
  assumes "0x48 \<notin> set uri" "i < length pre"
  shows "\<not> occurs host_word (pre @ rest) i"
proof
  assume o: "occurs host_word (pre @ rest) i"
  have hw: "host_word = 0x48 # 0x6F # cstr ''st: ''" by (simp add: host_word_def cstr_def)
  have "pre ! i = 0x48" using o assms(3) by (simp add: occurs_def hw nth_append)
  moreover have "pre ! i = 0x48 \<Longrightarrow> i = 4 + length uri + 1"
  proof -
    assume *: "pre ! i = 0x48"
    consider "i < 4" | "4 \<le> i" "i < 4 + length uri" | "4 + length uri \<le> i" by linarith
    then show ?thesis
    proof cases
      case 1
      then have "pre ! i = cstr ''GET '' ! i" by (simp add: pre_def nth_append)
      moreover have "0x48 \<notin> set (cstr ''GET '')" by (simp add: cstr_def)
      ultimately show ?thesis using 1 * nth_mem [of i "cstr ''GET ''"] by simp
    next
      case 2
      then obtain j where j: "i = 4 + j" "j < length uri" by (metis add_less_cancel_left le_Suc_ex)
      then have "pre ! i = uri ! j" unfolding pre_def j(1) by (simp add: nth_append)
      then have "uri ! j = 0x48" using * by simp
      then show ?thesis using j(2) assms(2) nth_mem by metis
    next
      case 3
      define j where "j = i - (4 + length uri)"
      have i: "i = 4 + length uri + j" using 3 by (simp add: j_def)
      have "pre ! i = (cstr '' HTTP/1.1'' @ [CR, LF]) ! j"
        unfolding pre_def i by (simp add: nth_append)
      moreover have "j < 11" using assms(3) unfolding i by (simp add: pre_def)
      moreover define ys where "ys = cstr ''TTP/1.1'' @ [CR, LF]"
      have "cstr '' HTTP/1.1'' @ [CR, LF] = 0x20 # 0x48 # ys" "length ys = 9" "0x48 \<notin> set ys"
        by (simp_all add: ys_def cstr_def CR_def LF_def)
      ultimately have "j = 1"
        using * nth_mem [of "j - 2" ys] by (cases j; cases "j - 1") auto
      then show ?thesis using i by simp
    qed
  qed
  ultimately have i: "i = 4 + length uri + 1" by blast
  have "(pre @ rest) ! (i + 1) = 0x54" unfolding i pre_def
    by (simp add: nth_append cstr_def)
  moreover have "tolower ((pre @ rest) ! (i + 1)) = tolower 0x6F"
    using o matches_second unfolding occurs_def hw by blast
  ultimately show False by (simp add: tolower_def)
qed

text \<open>What the three searches of \<open>patch_http_url\<close> find in such a request.\<close>

abbreviation request_line :: "byte list \<Rightarrow> byte list" where
  "request_line uri \<equiv> cstr ''GET '' @ uri @ cstr '' HTTP/1.1'' @ [CR, LF]"

lemma get_request_length: "length (get_request uri host tail) = length (request_line uri) + 6 + length host + 2 + length tail"
  by (simp add: get_request_def host_word_def)

lemma get_request_host:
  assumes "0x48 \<notin> set uri" "CR \<notin> set host" "length host \<le> 511"
  shows "find_data (get_request uri host tail) (length (get_request uri host tail)) host_word =
      Some (Some (length (request_line uri)))"
    and "host_chars (get_request uri host tail) (length (request_line uri) + 6) 511 = Some host"
proof -
  let ?d = "get_request uri host tail" and ?pre = "request_line uri"
  have d: "?d = ?pre @ host_word @ host @ [CR, LF] @ tail" by (simp add: get_request_def)
  have hnz: "host_word \<noteq> []" by (simp add: host_word_def cstr_def)
  show "find_data ?d (length ?d) host_word = Some (Some (length ?pre))"
  proof (rule find_data_first [OF _ _ hnz])
    show "occurs host_word ?d (length ?pre)" unfolding d by (rule occurs_at [OF hnz])
    show "length ?pre + 2 < length ?d" unfolding get_request_length by linarith
    show "\<not> occurs host_word ?d i" if "i < length ?pre" for i
      unfolding d by (rule get_request_host_first [OF assms(1) that])
  qed
  have "host_chars ((?pre @ host_word) @ host @ CR # LF # tail) (length (?pre @ host_word)) 511 = Some host"
    by (rule host_chars_at [OF assms(2,3)])
  moreover have "(?pre @ host_word) @ host @ CR # LF # tail = ?d" "length (?pre @ host_word) = length ?pre + 6"
    by (simp_all add: get_request_def host_word_def)
  ultimately show "host_chars ?d (length ?pre + 6) 511 = Some host" by metis
qed

lemma get_request_word:
  assumes "take 5 (uri @ cstr '' HTTP/1.1'') \<noteq> cstr ''http:''"
  shows "find_word (get_request uri host tail) (length (get_request uri host tail)) methods = Some (Some (0, cstr ''GET ''))"
    and "looking_at (cstr ''http:'') (get_request uri host tail) 4 = Some False"
proof -
  let ?d = "get_request uri host tail"
  let ?rest = "uri @ cstr '' HTTP/1.1'' @ [CR, LF] @ host_word @ host @ [CR, LF] @ tail"
  have d: "?d = cstr ''GET '' @ ?rest" by (simp add: get_request_def)
  have "find_data ?d (length ?d) (cstr ''GET '') = Some (Some 0)"
  proof (rule find_data_first)
    show "occurs (cstr ''GET '') ?d 0" unfolding d
      using occurs_at [of "cstr ''GET ''" "[]" ?rest] by (simp add: cstr_def)
    show "0 + 2 < length ?d" by (simp add: get_request_length)
  qed (simp_all add: cstr_def)
  then show "find_word ?d (length ?d) methods = Some (Some (0, cstr ''GET ''))" by (simp add: methods_def)
  have t: "take 5 (drop 4 ?d) = take 5 (uri @ cstr '' HTTP/1.1'')" unfolding d by simp
  have five: "length (cstr ''http:'') = 5" by simp
  have "4 + 5 \<le> length ?d" by (simp add: get_request_length)
  then have "looking_at (cstr ''http:'') ?d 4 = Some (take 5 (drop 4 ?d) = cstr ''http:'')"
    by (rule looking_at_defined [where s = "cstr ''http:''", unfolded five])
  then show "looking_at (cstr ''http:'') ?d 4 = Some False" by (simp only: t assms simp_thms)
qed

lemma patch_get_request:
  assumes "0x48 \<notin> set uri" "CR \<notin> set host" "length host \<le> 511"
    and "take 5 (uri @ cstr '' HTTP/1.1'') \<noteq> cstr ''http:''"
    and n: "n = length (get_request uri host tail)" "n \<le> 65535"
  shows "patch_http_url (get_request uri host tail) n =
    Some (Some (get_request (http_prefix @ host @ uri) host tail))"
proof -
  let ?d = "get_request uri host tail"
  let ?rest = "uri @ cstr '' HTTP/1.1'' @ [CR, LF] @ host_word @ host @ [CR, LF] @ tail"
  have d: "?d = cstr ''GET '' @ ?rest" by (simp add: get_request_def)
  note len = get_request_length [of uri host tail, folded n(1)]
  have b: "rd_block ?d 0 4 = Some (cstr ''GET '')" "rd_block ?d 4 (n - 4) = Some ?rest" "4 \<le> n"
    "n + 7 + length host \<le> PATCH_CAPACITY"
    using n(2) assms(3) len unfolding n(1) d by (simp_all add: rd_block_def PATCH_CAPACITY_def)
  define q where "q = length (request_line uri)"
  have hp: "length http_prefix = 7" "length (cstr ''GET '') = 4" by (simp_all add: http_prefix_def)
  note found = get_request_host [OF assms(1-3), of tail, folded n(1) q_def]
    get_request_word [OF assms(4), of host tail, folded n(1)]
  have "patch_http_url ?d n = Some (Some (cstr ''GET '' @ http_prefix @ host @ ?rest))"
    using b
    by (simp only: patch_http_url_def bind.bind_lunit option.case Let_def found prod.case hp
        if_False not_less [symmetric] add_0 bind_simps)
  then show ?thesis by (simp add: get_request_def)
qed

text \<open>A GET request whose first header is \<open>Host\<close> leaves with the absolute URL of that host, and
  nothing else of it is changed.\<close>

theorem patch_http_url_get:
  assumes "0x48 \<notin> set uri" "CR \<notin> set host" "length host \<le> 511"
    and "take 5 (uri @ cstr '' HTTP/1.1'') \<noteq> cstr ''http:''"
    and "length (get_request uri host tail) \<le> 65535"
  shows "patch_http_url (get_request uri host tail) (length (get_request uri host tail)) =
    Some (Some (get_request (http_prefix @ host @ uri) host tail))"
  by (rule patch_get_request [OF assms(1-4) refl assms(5)])

theorem patch_http_url_get_witness:
  "patch_http_url (get_request (cstr ''/'') (cstr ''a.org'') [CR, LF]) (length (get_request (cstr ''/'') (cstr ''a.org'') [CR, LF])) =
    Some (Some (get_request (http_prefix @ cstr ''a.org'' @ cstr ''/'') (cstr ''a.org'') [CR, LF]))"
  by (rule patch_http_url_get)
     (simp_all add: cstr_def CR_def LF_def get_request_def host_word_def http_prefix_def)

text \<open>C15: whenever a request is replaced, the new one is the old one with \<open>http://\<close> and a host name inserted
  directly behind a method word of the data, and nothing else changed: the host name is what follows
  a \<open>Host:\<close> of the data, up to the next carriage return and at most 511 bytes, and the target that
  follows the method word did not begin with \<open>http:\<close> already.\<close>

theorem patch_http_url_insertion:
  assumes "patch_http_url d n = Some (Some new)"
  shows "\<exists>word p h host. word \<in> set methods \<and> matches word d p \<and> p + length word \<le> n \<and> n \<le> length d \<and>
    matches (cstr ''Host: '') d h \<and> host = takeWhile (\<lambda>b. b \<noteq> CR) (take 511 (drop (h + 6) d)) \<and>
    looking_at (cstr ''http:'') d (p + length word) = Some False \<and>
    new = take (p + length word) d @ cstr ''http://'' @ host @ drop (p + length word) (take n d)"
proof -
  obtain word host p h where i: "inserts_url d n word host p new"
    and h: "matches host_word d h" "host = takeWhile (\<lambda>b. b \<noteq> CR) (take 511 (drop (h + 6) d))"
    and l: "looking_at (cstr ''http:'') d (p + length word) = Some False"
    by (rule patch_http_url_inserts [OF assms])
  have "new = take (p + length word) d @ cstr ''http://'' @ host @ drop (p + length word) (take n d)"
    using i by (simp add: inserts_url_def http_prefix_def drop_take)
  moreover have "word \<in> set methods" "matches word d p" "p + length word \<le> n" "n \<le> length d"
    using i by (simp_all add: inserts_url_def)
  ultimately show ?thesis using h l unfolding host_word_def by blast
qed

theorem patch_http_url_insertion_witness:
  "\<exists>new word p h host. patch_http_url (get_request (cstr ''/'') (cstr ''a.org'') [CR, LF]) 31 = Some (Some new) \<and>
    word \<in> set methods \<and> matches word (get_request (cstr ''/'') (cstr ''a.org'') [CR, LF]) p \<and>
    new = take (p + length word) (get_request (cstr ''/'') (cstr ''a.org'') [CR, LF]) @ cstr ''http://'' @ host @
      drop (p + length word) (take 31 (get_request (cstr ''/'') (cstr ''a.org'') [CR, LF])) \<and>
    matches (cstr ''Host: '') (get_request (cstr ''/'') (cstr ''a.org'') [CR, LF]) h"
proof -
  let ?r = "get_request (cstr ''/'') (cstr ''a.org'') [CR, LF]"
  obtain new where p: "patch_http_url ?r 31 = Some (Some new)"
    using patch_get_request [of "cstr ''/''" "cstr ''a.org''" 31 "[CR, LF]"]
    by (simp add: cstr_def CR_def LF_def get_request_def host_word_def http_prefix_def)
  show ?thesis using patch_http_url_insertion [OF p] p by blast
qed

end
