(* ===== verification/Tcp_Socket.thy ===== *)
theory Tcp_Socket
  imports Tcp_Session Tcp_Queue Http
begin

text \<open>
  An event on the socket of a TCP session (\<open>check_tcp_socket\<close> of \<^verbatim>\<open>tcp.c\<close>): the connection to the
  server or the proxy completes or fails, queued data of the app is sent, data of the server is
  read and written to the tun device. Each block of the function is a definition. The lemmas show
  that the function keeps the contract of \<open>session_op\<close>, which state changes it makes, and that
  forwarding neither loses, repeats nor reorders bytes as long as \<open>send\<close> does not fail.
\<close>

section \<open>Connecting\<close>

text \<open>\<open>while (recv(...) > 0) {}\<close>: the rest of the proxy's reply is thrown away.\<close>

function drain :: "int \<Rightarrow> io \<Rightarrow> io" where
  "drain fd w =
     (case sys_recv_stream fd 512 w of
        (Rx_Data bs, w') \<Rightarrow> if bs \<noteq> [] then drain fd w' else w'
      | (Rx_Err e, w') \<Rightarrow> w')"
  by pat_completeness auto
termination
  by (relation "measure (\<lambda>(fd, w). rx_size (rxq w fd))") (auto dest!: sys_recv_stream_size [OF sym])

declare drain.simps [simp del]

text \<open>\<open>EPOLLIN\<close> while connecting: any reply to the CONNECT request counts as success; the
  comparison with the status line has no effect.\<close>

definition tcp_connect_reply :: "os \<Rightarrow> tcp_session ng_session \<Rightarrow> io \<Rightarrow> tcp_session ng_session \<times> io" where
  "tcp_connect_reply os s w =
     (let (r, w) = sys_recv_stream (socket s) 12 w
      in case r of
           Rx_Err e \<Rightarrow> let (t, w) = write_rst os (sess s) w in (s\<lparr>sess := t\<rparr>, w)
         | Rx_Data bytes \<Rightarrow>
             if connect_sent (sess s) = TCP_CONNECT_SENT then
               (s\<lparr>sess := (sess s)\<lparr>connect_sent := TCP_CONNECT_ESTABLISHED, t_state := TCP_ESTABLISHED\<rparr>\<rparr>,
                drain (socket s) w)
             else let (t, w) = write_rst os (sess s) w in (s\<lparr>sess := t\<rparr>, w))"

definition tcp_connected :: "os \<Rightarrow> tcp_session ng_session \<Rightarrow> io \<Rightarrow> tcp_session ng_session \<times> io" where
  "tcp_connected os s w =
     (let t = (sess s)\<lparr>remote_seq := remote_seq (sess s) + 1\<rparr>;
          (r, t, w) = write_syn_ack os t w
      in if r \<ge> 0 then
           let (now, w) = sys_time os w
           in (s\<lparr>sess := t\<lparr>t_time := now, local_seq := local_seq t + 1, t_state := TCP_SYN_RECV\<rparr>\<rparr>, w)
         else (s\<lparr>sess := t\<rparr>, w))"

section \<open>Forwarding queued data\<close>

text \<open>What is sent of a segment: the part not yet sent, or its rewriting for port 80.\<close>

definition outgoing :: "u16 \<Rightarrow> segment \<Rightarrow> byte list option" where
  "outgoing dest q =
     (if seg_sent q > seg_len q then None
      else do {
        data \<leftarrow> rd_block (seg_data q) (unat (seg_sent q)) (unat (seg_len q) - unat (seg_sent q));
        if dest = 80 then do {
          new_data \<leftarrow> patch_http_url (drop (unat (seg_sent q)) (seg_data q)) (length data);
          Some (case new_data of None \<Rightarrow> data | Some d \<Rightarrow> d)
        } else Some data
      })"

text \<open>\<open>if (sent > len) sent = len\<close> compares a signed with an unsigned 64-bit integer, so that a
  result of \<open>-1\<close> becomes \<open>len\<close>.\<close>

definition clamp_sent :: "int \<Rightarrow> nat \<Rightarrow> int" where
  "clamp_sent sent len = (if (word_of_int sent :: u64) > of_nat len then int len else sent)"

fun forward_data ::
    "os \<Rightarrow> int \<Rightarrow> segment list \<Rightarrow> tcp_session \<Rightarrow> u32 \<Rightarrow> bool \<Rightarrow> io \<Rightarrow> (bool \<times> tcp_session \<times> io) option" where
  "forward_data os fd [] t buffer_size fwd w = Some (fwd, t\<lparr>forward := []\<rparr>, w)"
| "forward_data os fd (q # qs) t buffer_size fwd w =
     (if head_ready (t\<lparr>forward := q # qs\<rparr>) buffer_size then do {
        data \<leftarrow> outgoing (t_dest t) q;
        let len = unat (seg_len q) - unat (seg_sent q);
        let ((res, errno), w) = sys_send os fd data (\<not> seg_psh q) w;
        let sent = clamp_sent res len;
        if sent < 0 then
          if errno = EINTR \<or> errno = EAGAIN then Some (fwd, t\<lparr>forward := q # qs\<rparr>, w)
          else let (t, w) = write_rst os (t\<lparr>forward := q # qs\<rparr>) w in Some (fwd, t, w)
        else
          let q = q\<lparr>seg_sent := seg_sent q + word_of_int sent\<rparr>;
              t = t\<lparr>t_sent := t_sent t + word_of_int sent, remote_seq := seg_seq q + ucast (seg_sent q)\<rparr>
          in if seg_len q = seg_sent q
             then forward_data os fd qs t (buffer_size - word_of_int sent) True w
             else Some (True, t\<lparr>forward := q # qs\<rparr>, w)
      } else Some (fwd, t\<lparr>forward := q # qs\<rparr>, w))"

definition tcp_forward ::
    "os \<Rightarrow> u32 \<Rightarrow> tcp_session ng_session \<Rightarrow> io \<Rightarrow> (bool \<times> tcp_session ng_session \<times> io) option" where
  "tcp_forward os events s w =
     (if events AND EPOLLOUT \<noteq> 0 then do {
        let (b, w) = get_receive_buffer os s w;
        (fwd, t, w) \<leftarrow> forward_data os (socket s) (forward (sess s)) (sess s) (word_of_int b) False w;
        Some (fwd, s\<lparr>sess := t\<rparr>, w)
      } else Some (False, s, w))"

text \<open>The new receive window, and the acknowledgement of what was forwarded.\<close>

definition tcp_ack_forwarded ::
    "os \<Rightarrow> bool \<Rightarrow> tcp_session ng_session \<Rightarrow> io \<Rightarrow> tcp_session ng_session \<times> io" where
  "tcp_ack_forwarded os fwd s w =
     (let (window, w) = get_receive_window os s w;
          prev = recv_window (sess s);
          t = (sess s)\<lparr>recv_window := window\<rparr>
      in if fwd \<or> (prev = 0 \<and> window > 0) then
           let t = (if fwd \<and> forward t = [] \<and> t_state t = TCP_CLOSE_WAIT
                    then t\<lparr>remote_seq := remote_seq t + 1\<rparr> else t);
               (r, t, w) = write_ack os t w
           in if r \<ge> 0 then let (now, w) = sys_time os w in (s\<lparr>sess := t\<lparr>t_time := now\<rparr>\<rparr>, w)
              else (s\<lparr>sess := t\<rparr>, w)
         else (s\<lparr>sess := t\<rparr>, w))"

section \<open>Reading from the server\<close>

definition tcp_eof :: "os \<Rightarrow> tcp_session ng_session \<Rightarrow> io \<Rightarrow> tcp_session ng_session \<times> io" where
  "tcp_eof os s w =
     (let (t, w) =
        (if forward (sess s) = [] then
           let (r, t, w) = write_fin_ack os (sess s) w;
               t = (if r \<ge> 0 then t\<lparr>local_seq := local_seq t + 1\<rparr> else t)
           in (if t_state t = TCP_ESTABLISHED then t\<lparr>t_state := TCP_FIN_WAIT1\<rparr>
               else if t_state t = TCP_CLOSE_WAIT then t\<lparr>t_state := TCP_LAST_ACK\<rparr>
               else t, w)
         else write_rst os (sess s) w)
      in (s\<lparr>sess := t, socket := - 1\<rparr>, sys_close (socket s) w))"

text \<open>What \<open>recv\<close> gave: an error, the end of file or data for the app.\<close>

definition tcp_received :: "os \<Rightarrow> tcp_session ng_session \<Rightarrow> rx \<Rightarrow> io \<Rightarrow> tcp_session ng_session \<times> io" where
  "tcp_received os s r w =
     (case r of
        Rx_Err e \<Rightarrow>
          if e \<noteq> EINTR \<and> e \<noteq> EAGAIN
          then let (t, w) = write_rst os (sess s) w in (s\<lparr>sess := t\<rparr>, w)
          else (s, w)
      | Rx_Data bytes \<Rightarrow>
          if bytes = [] then tcp_eof os s w
          else
            let t = (sess s)\<lparr>t_received := t_received (sess s) + of_nat (length bytes)\<rparr>;
                (r, t, w) = write_data os t bytes w
            in (s\<lparr>sess := (if r \<ge> 0 then t\<lparr>local_seq := local_seq t + of_nat (length bytes)\<rparr> else t)\<rparr>, w))"

definition read_size :: "u32 \<Rightarrow> u16 \<Rightarrow> nat" where
  "read_size send_win mss = unat (if send_win > ucast mss then ucast mss else send_win)"

definition tcp_read :: "os \<Rightarrow> u32 \<Rightarrow> tcp_session ng_session \<Rightarrow> io \<Rightarrow> tcp_session ng_session \<times> io" where
  "tcp_read os events s w =
     (let send_win = get_send_window (sess s)
      in if (t_state (sess s) = TCP_ESTABLISHED \<or> t_state (sess s) = TCP_CLOSE_WAIT) \<and>
            events AND EPOLLIN \<noteq> 0 \<and> send_win > 0
         then
           let (now, w) = sys_time os w;
               s = s\<lparr>sess := (sess s)\<lparr>t_time := now\<rparr>\<rparr>;
               (r, w) = sys_recv_stream (socket s) (read_size send_win (t_mss (sess s))) w
           in tcp_received os s r w
         else (s, w))"

section \<open>The handler\<close>

definition check_tcp_socket ::
    "os \<Rightarrow> u32 \<Rightarrow> tcp_session ng_session \<Rightarrow> io \<Rightarrow> (tcp_session ng_session \<times> io) option" where
  "check_tcp_socket os events s w =
     (if events AND EPOLLERR \<noteq> 0 then
        let (now, w) = sys_time os w;
            (t, w) = write_rst os ((sess s)\<lparr>t_time := now\<rparr>) w
        in Some (s\<lparr>sess := t\<rparr>, w)
      else if t_state (sess s) = TCP_LISTEN then
        Some (if events AND EPOLLIN \<noteq> 0 then tcp_connect_reply os s w else tcp_connected os s w)
      else do {
        (fwd, s, w) \<leftarrow> tcp_forward os events s w;
        let (s, w) = tcp_ack_forwarded os fwd s w;
        Some (tcp_read os events s w)
      })"

section \<open>The contract\<close>

text \<open>What every block but the end of file does: the descriptors stay, and so does the state unless
  a write failed or the session was reset.\<close>

definition tcp_quiet :: "tcp_session \<Rightarrow> io \<Rightarrow> tcp_session \<Rightarrow> io \<Rightarrow> bool" where
  "tcp_quiet t w t' w' \<longleftrightarrow> fds w' = fds w \<and> clean w' = clean w \<and> (tcp_wf t \<longrightarrow> tcp_wf t') \<and>
     t_dest t' = t_dest t \<and> connect_sent t' = connect_sent t \<and>
     (t_state t' = t_state t \<or> t_state t' = TCP_CLOSING)"

lemma tcp_quiet_trans: "tcp_quiet t w t1 w1 \<Longrightarrow> tcp_quiet t1 w1 t2 w2 \<Longrightarrow> tcp_quiet t w t2 w2"
  by (auto simp: tcp_quiet_def)

lemma write_rst_quiet: "write_rst os t w = (t', w') \<Longrightarrow> tcp_quiet t w t' w'"
  by (auto simp: tcp_quiet_def dest!: write_rst_effect)

lemma wrote_quiet: "wrote r t w t' w' \<Longrightarrow> tcp_quiet t w t' w'"
  by (auto simp: tcp_quiet_def wrote_def)

lemma tcp_quiet_good:
  "tcp_quiet (sess s) w t w' \<Longrightarrow> tcp_good s w \<Longrightarrow> tcp_good (s\<lparr>sess := t\<rparr>) w'"
  by (auto simp: tcp_quiet_def tcp_good_def sock_ok_def)

lemma drain_io: "fds (drain fd w) = fds w \<and> clean (drain fd w) = clean w"
proof (induction fd w rule: drain.induct)
  case (1 fd w)
  obtain r v where r: "sys_recv_stream fd 512 w = (r, v)" by force
  have v: "fds v = fds w" "clean v = clean w" using sys_recv_stream_io [of fd 512 w] r by simp_all
  show ?case
  proof (cases r)
    case (Rx_Data bs)
    show ?thesis
    proof (cases "bs = []")
      case True
      with r v Rx_Data show ?thesis by (simp add: drain.simps [of fd w])
    next
      case False
      with 1 [OF r [symmetric] Rx_Data False] r v Rx_Data show ?thesis by (simp add: drain.simps [of fd w])
    qed
  qed (use r v in \<open>simp add: drain.simps [of fd w]\<close>)
qed

lemma sys_send_frame: "sys_send os fd d m w = (r, w') \<Longrightarrow> fds w' = fds w \<and> clean w' = clean w"
  using fds_sys(5) [of os fd d m w] clean_sys(5) [of os fd d m w] by simp

lemma forward_data_quiet:
  "forward_data os fd ss t b fwd w = Some (fwd', t', w') \<Longrightarrow> tcp_quiet t w t' w'"
proof (induction ss arbitrary: t b fwd w)
  case Nil
  then show ?case by (auto simp: tcp_quiet_def)
next
  case (Cons q qs)
  show ?case
  proof (cases "head_ready (t\<lparr>forward := q # qs\<rparr>) b")
    case False
    with Cons.prems show ?thesis by (auto simp: tcp_quiet_def)
  next
    case True
    then obtain data where d: "outgoing (t_dest t) q = Some data"
      using Cons.prems by (auto simp: bind_Some_iff)
    obtain res errno v where v: "sys_send os fd data (\<not> seg_psh q) w = ((res, errno), v)"
      by (metis surj_pair)
    let ?sent = "clamp_sent res (unat (seg_len q) - unat (seg_sent q))"
    let ?q = "q\<lparr>seg_sent := seg_sent q + word_of_int ?sent\<rparr>"
    let ?t = "t\<lparr>t_sent := t_sent t + word_of_int ?sent, remote_seq := seg_seq q + ucast (seg_sent ?q)\<rparr>"
    have t: "tcp_quiet t w (t\<lparr>forward := q # qs\<rparr>) v" "tcp_quiet t w ?t v"
      "tcp_quiet t w (?t\<lparr>forward := ?q # qs\<rparr>) v"
      using sys_send_frame [OF v] by (simp_all add: tcp_quiet_def)
    obtain t2 v2 where r: "write_rst os (t\<lparr>forward := q # qs\<rparr>) v = (t2, v2)" by force
    show ?thesis
    proof (cases "?sent < 0")
      case True
      then show ?thesis
        using Cons.prems \<open>head_ready _ b\<close> d v r t(1) tcp_quiet_trans [OF t(1) write_rst_quiet [OF r]]
        by (auto simp: Let_def split: if_splits)
    next
      case False
      show ?thesis
      proof (cases "seg_len q = seg_sent ?q")
        case True
        then have "forward_data os fd qs ?t (b - word_of_int ?sent) True v = Some (fwd', t', w')"
          using Cons.prems \<open>head_ready _ b\<close> d v False by (simp add: Let_def)
        from tcp_quiet_trans [OF t(2) Cons.IH [OF this]] show ?thesis .
      next
        case nf: False
        then have "t' = ?t\<lparr>forward := ?q # qs\<rparr>" "w' = v"
          using Cons.prems \<open>head_ready _ b\<close> d v False by (auto simp: Let_def)
        then show ?thesis using t(3) by simp
      qed
    qed
  qed
qed

text \<open>The result of a block: the session stays good, its descriptor is kept or given up.\<close>

definition tcp_op_ok :: "tcp_session ng_session \<Rightarrow> io \<Rightarrow> tcp_session ng_session \<Rightarrow> io \<Rightarrow> bool" where
  "tcp_op_ok s w s' w' \<longleftrightarrow> tcp_good s' w' \<and> own_fd_only (socket s) w (socket s') w' \<and> (clean w \<longrightarrow> clean w')"

lemma tcp_op_ok_trans:
  "tcp_op_ok s w s1 w1 \<Longrightarrow> tcp_op_ok s1 w1 s2 w2 \<Longrightarrow> tcp_op_ok s w s2 w2"
  unfolding tcp_op_ok_def using own_fd_only_trans by blast

lemma tcp_op_ok_refl: "tcp_good s w \<Longrightarrow> tcp_op_ok s w s w"
  by (simp add: tcp_op_ok_def own_fd_only_def)

lemma tcp_quiet_op_ok:
  "tcp_good s w \<Longrightarrow> tcp_quiet (sess s) w t w' \<Longrightarrow> tcp_op_ok s w (s\<lparr>sess := t\<rparr>) w'"
  using tcp_quiet_good by (auto simp: tcp_op_ok_def own_fd_only_def tcp_quiet_def)

text \<open>A block that enters a state which needs the socket, from one that has it.\<close>

lemma tcp_enter_op_ok:
  assumes "tcp_good s w" "0 \<le> socket s" "fds w' = fds w" "clean w' = clean w" "tcp_wf t"
    "t_state t \<in> {TCP_LISTEN, TCP_SYN_RECV, TCP_ESTABLISHED, TCP_CLOSE_WAIT}"
  shows "tcp_op_ok s w (s\<lparr>sess := t\<rparr>) w'"
  using assms by (auto simp: tcp_op_ok_def own_fd_only_def tcp_good_def sock_ok_def socket_state_def)

lemma good_socket:
  "tcp_good s w \<Longrightarrow> t_state (sess s) \<in> {TCP_LISTEN, TCP_SYN_RECV, TCP_ESTABLISHED, TCP_CLOSE_WAIT} \<Longrightarrow>
     0 \<le> socket s \<and> socket s \<in> set (fds w)"
  by (auto simp: tcp_good_def socket_state_def sock_ok_def)

lemma tcp_wf_connect [simp]: "tcp_wf (t\<lparr>connect_sent := c, t_state := st\<rparr>) = tcp_wf t"
  by simp

lemma sys_recv_stream_frame:
  "sys_recv_stream fd n w = (r, w') \<Longrightarrow> fds w' = fds w \<and> clean w' = clean w"
  using sys_recv_stream_io [of fd n w] by simp

lemma sys_time_frame: "sys_time os w = (n, w') \<Longrightarrow> fds w' = fds w \<and> clean w' = clean w"
  by (auto simp: sys_time_def clean_def)

lemma tcp_good_same: "tcp_good s w \<Longrightarrow> fds w' = fds w \<Longrightarrow> tcp_good s w'"
  by (simp add: tcp_good_def sock_ok_def)

lemma tcp_connect_reply_ok:
  assumes "tcp_connect_reply os s w = (s', w')" "tcp_good s w" "t_state (sess s) = TCP_LISTEN"
  shows "tcp_op_ok s w s' w'"
proof -
  obtain r v where r: "sys_recv_stream (socket s) 12 w = (r, v)" by force
  note v = sys_recv_stream_frame [OF r]
  obtain t u where t: "write_rst os (sess s) v = (t, u)" by force
  have q: "tcp_quiet (sess s) w t u" using write_rst_quiet [OF t] v by (simp add: tcp_quiet_def)
  show ?thesis
  proof (cases "(\<exists>bs. r = Rx_Data bs) \<and> connect_sent (sess s) = TCP_CONNECT_SENT")
    case True
    then have "s' = s\<lparr>sess := (sess s)\<lparr>connect_sent := TCP_CONNECT_ESTABLISHED, t_state := TCP_ESTABLISHED\<rparr>\<rparr>"
      "w' = drain (socket s) v"
      using assms(1) r by (auto simp: tcp_connect_reply_def)
    then show ?thesis
      using assms(2,3) v drain_io good_socket [OF assms(2)]
      by (auto intro!: tcp_enter_op_ok simp: tcp_good_def)
  next
    case False
    then have "s' = s\<lparr>sess := t\<rparr>" "w' = u"
      using assms(1) r t by (auto simp: tcp_connect_reply_def split: rx.splits if_splits)
    then show ?thesis using tcp_quiet_op_ok [OF assms(2) q] by simp
  qed
qed

lemma tcp_connected_ok:
  assumes "tcp_connected os s w = (s', w')" "tcp_good s w" "t_state (sess s) = TCP_LISTEN"
  shows "tcp_op_ok s w s' w'"
proof -
  let ?t = "(sess s)\<lparr>remote_seq := remote_seq (sess s) + 1\<rparr>"
  obtain r t v where t: "write_syn_ack os ?t w = (r, t, v)" by (metis prod_cases3)
  note wt = writer_wrote(1) [OF t]
  obtain now u where u: "sys_time os v = (now, u)" by force
  note f = sys_time_frame [OF u]
  have wf: "tcp_wf (sess s)" using assms(2) by (simp add: tcp_good_def)
  show ?thesis
  proof (cases "r \<ge> 0")
    case True
    then have "s' = s\<lparr>sess := t\<lparr>t_time := now, local_seq := local_seq t + 1, t_state := TCP_SYN_RECV\<rparr>\<rparr>"
      "w' = u" using assms(1) t u by (auto simp: tcp_connected_def Let_def)
    then show ?thesis
      using f wt wf good_socket [OF assms(2)] assms(3)
      by (auto intro!: tcp_enter_op_ok [OF assms(2)] simp: wrote_def)
  next
    case False
    then have "s' = s\<lparr>sess := t\<rparr>" "w' = v" using assms(1) t u by (auto simp: tcp_connected_def Let_def)
    moreover have "tcp_quiet (sess s) w t v" using wt by (auto simp: tcp_quiet_def wrote_def)
    ultimately show ?thesis using tcp_quiet_op_ok [OF assms(2)] by simp
  qed
qed

lemma tcp_forward_ok:
  assumes "tcp_forward os events s w = Some (fwd, s', w')" "tcp_good s w"
  shows "tcp_op_ok s w s' w' \<and> socket s' = socket s"
proof (cases "events AND EPOLLOUT \<noteq> 0")
  case False
  then have "s' = s" "w' = w" using assms(1) by (simp_all add: tcp_forward_def)
  then show ?thesis using assms(2) by (simp add: tcp_op_ok_def own_fd_only_def)
next
  case True
  obtain b v where b: "get_receive_buffer os s w = (b, v)" by force
  obtain t where f: "forward_data os (socket s) (forward (sess s)) (sess s) (word_of_int b) False v = Some (fwd, t, w')"
    and s': "s' = s\<lparr>sess := t\<rparr>"
    using assms(1) True b by (auto simp: tcp_forward_def bind_Some_iff)
  have "tcp_quiet (sess s) w t w'"
    using forward_data_quiet [OF f] get_receive_buffer_frame [OF b] by (simp add: tcp_quiet_def)
  then show ?thesis using tcp_quiet_op_ok [OF assms(2)] s' by simp
qed

lemma tcp_wf_window:
  "tcp_wf t \<Longrightarrow> unat (drop_bit (unat (recv_scale t)) win) \<le> 65535 \<Longrightarrow> tcp_wf (t\<lparr>recv_window := win\<rparr>)"
  by (simp add: tcp_wf_def tcp_addrs_def)

lemma tcp_ack_forwarded_quiet:
  assumes "tcp_ack_forwarded os fwd s w = (s', w')"
  shows "\<exists>t. s' = s\<lparr>sess := t\<rparr> \<and> tcp_quiet (sess s) w t w'"
proof -
  obtain win v where win: "get_receive_window os s w = (win, v)" by force
  let ?t = "(sess s)\<lparr>recv_window := win\<rparr>"
  have q: "tcp_quiet (sess s) w ?t v"
    using get_receive_window_frame [OF win] tcp_wf_window get_receive_window_fits [OF win]
    by (simp add: tcp_quiet_def)
  define ack where "ack = (fwd \<or> (recv_window (sess s) = 0 \<and> win > 0))"
  let ?u = "if fwd \<and> forward ?t = [] \<and> t_state ?t = TCP_CLOSE_WAIT
            then ?t\<lparr>remote_seq := remote_seq ?t + 1\<rparr> else ?t"
  obtain r t u where a: "write_ack os ?u v = (r, t, u)" by (metis prod_cases3)
  have "tcp_quiet ?t v ?u v" by (simp add: tcp_quiet_def)
  with q wrote_quiet [OF writer_wrote(2) [OF a]] have q2: "tcp_quiet (sess s) w t u"
    using tcp_quiet_trans by blast
  obtain now x where x: "sys_time os u = (now, x)" by force
  have q3: "tcp_quiet (sess s) w (t\<lparr>t_time := now\<rparr>) x"
    using q2 sys_time_frame [OF x] by (simp add: tcp_quiet_def)
  show ?thesis
  proof (cases ack)
    case False
    then have "s' = s\<lparr>sess := ?t\<rparr>" "w' = v"
      using assms win by (auto simp: tcp_ack_forwarded_def Let_def ack_def)
    then show ?thesis using q by blast
  next
    case True
    then have "(s', w') = (if r \<ge> 0 then (s\<lparr>sess := t\<lparr>t_time := now\<rparr>\<rparr>, x) else (s\<lparr>sess := t\<rparr>, u))"
      using assms win a x by (auto simp: tcp_ack_forwarded_def Let_def ack_def)
    then show ?thesis using q2 q3 by (cases "r \<ge> 0") auto
  qed
qed

text \<open>At the end of file the descriptor is closed and given up.\<close>

lemma tcp_release_ok:
  assumes "tcp_good s w" "0 \<le> socket s" "tcp_wf t" "fds v = fds w" "clean v = clean w"
    "t_state t \<in> {TCP_FIN_WAIT1, TCP_LAST_ACK, TCP_CLOSING}"
  shows "tcp_op_ok s w (s\<lparr>sess := t, socket := - 1\<rparr>) (sys_close (socket s) v)"
  using assms by (auto simp: tcp_op_ok_def tcp_good_def own_fd_only_def socket_state_def sock_ok_def)

lemma tcp_eof_ok:
  assumes "tcp_eof os s w = (s', w')" "tcp_good s w"
    "t_state (sess s) \<in> {TCP_ESTABLISHED, TCP_CLOSE_WAIT}"
  shows "tcp_op_ok s w s' w'"
proof -
  have sock: "0 \<le> socket s" using good_socket [OF assms(2)] assms(3) by auto
  have wf: "tcp_wf (sess s)" using assms(2) by (simp add: tcp_good_def)
  obtain r t v where f: "write_fin_ack os (sess s) w = (r, t, v)" by (metis prod_cases3)
  note wt = writer_wrote(4) [OF f]
  obtain t2 v2 where r: "write_rst os (sess s) w = (t2, v2)" by force
  note rt = write_rst_effect [OF r]
  define t1 where "t1 = (if r \<ge> 0 then t\<lparr>local_seq := local_seq t + 1\<rparr> else t)"
  define t3 where "t3 = (if t_state t1 = TCP_ESTABLISHED then t1\<lparr>t_state := TCP_FIN_WAIT1\<rparr>
      else if t_state t1 = TCP_CLOSE_WAIT then t1\<lparr>t_state := TCP_LAST_ACK\<rparr> else t1)"
  have t3: "tcp_wf t3 \<and> t_state t3 \<in> {TCP_FIN_WAIT1, TCP_LAST_ACK, TCP_CLOSING}"
    using wt wf assms(3) by (auto simp: t3_def t1_def wrote_def)
  have t2: "tcp_wf t2 \<and> t_state t2 = TCP_CLOSING" using rt wf assms(3) by auto
  show ?thesis
  proof (cases "forward (sess s) = []")
    case True
    then have "s' = s\<lparr>sess := t3, socket := - 1\<rparr>" "w' = sys_close (socket s) v"
      using assms(1) f by (auto simp: tcp_eof_def Let_def t1_def t3_def split: if_splits)
    then show ?thesis using tcp_release_ok [OF assms(2) sock] t3 wt by (simp add: wrote_def)
  next
    case False
    then have "s' = s\<lparr>sess := t2, socket := - 1\<rparr>" "w' = sys_close (socket s) v2"
      using assms(1) r by (simp_all add: tcp_eof_def)
    then show ?thesis using tcp_release_ok [OF assms(2) sock] t2 rt by simp
  qed
qed

lemma tcp_received_ok:
  assumes "tcp_received os s r w = (s', w')" "tcp_good s w"
    "t_state (sess s) \<in> {TCP_ESTABLISHED, TCP_CLOSE_WAIT}"
  shows "tcp_op_ok s w s' w'"
proof (cases r)
  case (Rx_Err e)
  obtain t x where x: "write_rst os (sess s) w = (t, x)" by force
  have "(s', w') = (s\<lparr>sess := t\<rparr>, x) \<or> (s', w') = (s, w)"
    using assms(1) x by (simp add: Rx_Err tcp_received_def split: if_splits)
  then show ?thesis
    using tcp_quiet_op_ok [OF assms(2) write_rst_quiet [OF x]] tcp_op_ok_refl [OF assms(2)] by blast
next
  case (Rx_Data bytes)
  show ?thesis
  proof (cases "bytes = []")
    case True
    with assms Rx_Data tcp_eof_ok [OF _ assms(2,3)] show ?thesis by (simp add: tcp_received_def)
  next
    case False
    let ?t = "(sess s)\<lparr>t_received := t_received (sess s) + of_nat (length bytes)\<rparr>"
    obtain res t x where x: "write_data os ?t bytes w = (res, t, x)" by (metis prod_cases3)
    define t1 where "t1 = (if res \<ge> 0 then t\<lparr>local_seq := local_seq t + of_nat (length bytes)\<rparr> else t)"
    have "tcp_quiet (sess s) w t1 x"
      using writer_wrote(3) [OF x] by (auto simp: tcp_quiet_def wrote_def t1_def)
    moreover have "s' = s\<lparr>sess := t1\<rparr>" "w' = x"
      using assms(1) False unfolding tcp_received_def Rx_Data
      by (simp_all only: rx.case if_False Let_def x prod.case t1_def prod.inject)
    ultimately show ?thesis using tcp_quiet_op_ok [OF assms(2)] by simp
  qed
qed

lemma tcp_read_ok:
  assumes "tcp_read os events s w = (s', w')" "tcp_good s w"
  shows "tcp_op_ok s w s' w'"
proof -
  obtain now v where n: "sys_time os w = (now, v)" by force
  let ?s = "s\<lparr>sess := (sess s)\<lparr>t_time := now\<rparr>\<rparr>"
  let ?win = "get_send_window (sess s)"
  obtain r u where r: "sys_recv_stream (socket s) (read_size ?win (t_mss (sess s))) v = (r, u)" by force
  have io: "fds u = fds w" "clean u = clean w"
    using sys_time_frame [OF n] sys_recv_stream_frame [OF r] by simp_all
  have g: "tcp_good ?s u" using assms(2) io by (simp add: tcp_good_def sock_ok_def)
  show ?thesis
  proof (cases "(t_state (sess s) = TCP_ESTABLISHED \<or> t_state (sess s) = TCP_CLOSE_WAIT) \<and>
         events AND EPOLLIN \<noteq> 0 \<and> ?win > 0")
    case False
    then have "s' = s" "w' = w" using assms(1) unfolding tcp_read_def Let_def by (simp_all only: if_False prod.inject)
    then show ?thesis using assms(2) by (simp add: tcp_op_ok_def own_fd_only_def)
  next
    case True
    then have "tcp_received os ?s r u = (s', w')" "t_state (sess ?s) \<in> {TCP_ESTABLISHED, TCP_CLOSE_WAIT}"
      using assms(1) n r by (auto simp: tcp_read_def Let_def)
    from tcp_received_ok [OF this(1) g this(2)] show ?thesis
      using io by (simp add: tcp_op_ok_def own_fd_only_def)
  qed
qed

lemma check_tcp_socket_ok:
  assumes "check_tcp_socket os events s w = Some (s', w')" "tcp_good s w"
  shows "tcp_op_ok s w s' w'"
proof (cases "events AND EPOLLERR \<noteq> 0")
  case True
  obtain now v where n: "sys_time os w = (now, v)" by force
  obtain t u where t: "write_rst os ((sess s)\<lparr>t_time := now\<rparr>) v = (t, u)" by force
  have "tcp_quiet (sess s) w t u"
    using write_rst_quiet [OF t] sys_time_frame [OF n] by (simp add: tcp_quiet_def)
  moreover have "s' = s\<lparr>sess := t\<rparr>" "w' = u"
    using assms(1) True n t by (simp_all add: check_tcp_socket_def)
  ultimately show ?thesis using tcp_quiet_op_ok [OF assms(2)] by simp
next
  case noerr: False
  show ?thesis
  proof (cases "t_state (sess s) = TCP_LISTEN")
    case True
    then show ?thesis
      using assms noerr tcp_connect_reply_ok [OF _ assms(2) True] tcp_connected_ok [OF _ assms(2) True]
      by (auto simp: check_tcp_socket_def split: if_splits)
  next
    case False
    then obtain fwd s1 w1 where f: "tcp_forward os events s w = Some (fwd, s1, w1)"
      using assms(1) noerr by (auto simp: check_tcp_socket_def bind_Some_iff)
    obtain s2 w2 where a: "tcp_ack_forwarded os fwd s1 w1 = (s2, w2)" by force
    have r: "tcp_read os events s2 w2 = (s', w')"
      using assms(1) noerr False f a by (simp add: check_tcp_socket_def)
    have g1: "tcp_good s1 w1" and o1: "tcp_op_ok s w s1 w1"
      using tcp_forward_ok [OF f assms(2)] by (auto simp: tcp_op_ok_def)
    have o2: "tcp_op_ok s1 w1 s2 w2"
      using tcp_ack_forwarded_quiet [OF a] tcp_quiet_op_ok [OF g1] by auto
    then have "tcp_op_ok s2 w2 s' w'" using r tcp_read_ok by (simp add: tcp_op_ok_def)
    with o1 o2 show ?thesis using tcp_op_ok_trans by blast
  qed
qed

interpretation tcp_socket: session_op "\<lambda>s w. check_tcp_socket os events s w" tcp_good socket for os events
  by unfold_locales (use check_tcp_socket_ok in \<open>auto simp: tcp_op_ok_def tcp_good_def\<close>)

section \<open>Forwarding keeps the byte stream\<close>

lemma unat_of_int_u64: "0 \<le> r \<Longrightarrow> r < 2 ^ 64 \<Longrightarrow> unat (word_of_int r :: u64) = nat r"
  by (simp add: unsigned_of_int take_bit_int_eq_self nat_less_iff)

lemma clamp_sent_ok:
  assumes "0 \<le> r" "r < 2 ^ 64" "len < 2 ^ 64"
  shows "clamp_sent r len = min r (int len)"
proof -
  have "unat (of_nat len :: u64) = len" using assms(3) by (simp add: unat_of_nat)
  then show ?thesis
    using unat_of_int_u64 [OF assms(1,2)] assms(1) by (auto simp: clamp_sent_def word_less_nat_alt min_def)
qed

lemma clamp_sent_error: "len < 2 ^ 64 - 1 \<Longrightarrow> clamp_sent (- 1) len = int len"
proof -
  assume len: "len < 2 ^ 64 - 1"
  then have "unat (of_nat len :: u64) = len" by (simp add: unat_of_nat)
  moreover have "unat (word_of_int (- 1) :: u64) = 2 ^ 64 - 1"
    by (simp add: unsigned_minus_1_eq_mask mask_eq_exp_minus_1)
  ultimately show ?thesis using len by (simp add: clamp_sent_def word_less_nat_alt)
qed

text \<open>The branches of the code that handle a failed \<open>send\<close> are never taken.\<close>

lemma clamp_sent_nonneg: "- 1 \<le> r \<Longrightarrow> r < 2 ^ 64 \<Longrightarrow> len < 2 ^ 64 - 1 \<Longrightarrow> 0 \<le> clamp_sent r len"
  using clamp_sent_error [of len] clamp_sent_ok [of r len] by (cases "r = - 1") auto

definition pending :: "segment list \<Rightarrow> byte list" where
  "pending ss = concat (map (\<lambda>q. drop (unat (seg_sent q)) (seg_data q)) ss)"

text \<open>The bytes the kernel took on a descriptor, and whether every \<open>send\<close> succeeded.\<close>

fun taken :: "int \<Rightarrow> effect \<Rightarrow> byte list" where
  "taken fd (Sock_Send f b m r) = (if f = fd \<and> 0 \<le> r then take (nat r) b else [])"
| "taken fd _ = []"

definition sent_on :: "int \<Rightarrow> effect list \<Rightarrow> byte list" where
  "sent_on fd es = concat (map (taken fd) es)"

fun send_ok :: "effect \<Rightarrow> bool" where
  "send_ok (Sock_Send f b m r) = (0 \<le> r)"
| "send_ok _ = True"

lemma sent_on_simps [simp]: "sent_on fd [] = []" "sent_on fd (e # es) = taken fd e @ sent_on fd es"
  by (simp_all add: sent_on_def)

lemma pending_simps [simp]:
  "pending [] = []" "pending (q # qs) = drop (unat (seg_sent q)) (seg_data q) @ pending qs"
  by (simp_all add: pending_def)

lemma sys_send_result:
  "sys_send os fd d m w = ((r, e), w') \<Longrightarrow>
     trace w' = trace w @ [Sock_Send fd d m r] \<and> - 1 \<le> r \<and> r \<le> int (length d)"
  by (auto simp: sys_send_def Let_def transfer_def split: if_splits answer.splits)

lemma outgoing_plain:
  "segment_wf q \<Longrightarrow> dest \<noteq> 80 \<Longrightarrow> outgoing dest q = Some (drop (unat (seg_sent q)) (seg_data q))"
  by (simp add: outgoing_def segment_wf_def rd_block_def not_less word_le_nat_alt)

text \<open>Advancing the sent count of a segment.\<close>

lemma segment_advance:
  assumes "segment_wf q" "n \<le> unat (seg_len q) - unat (seg_sent q)"
  defines "q' \<equiv> q\<lparr>seg_sent := seg_sent q + of_nat n\<rparr>"
  shows "unat (seg_sent q') = unat (seg_sent q) + n" "segment_wf q'"
    "(ucast (seg_sent q') :: u32) = ucast (seg_sent q) + of_nat n"
proof -
  have le: "unat (seg_sent q) + n \<le> unat (seg_len q)"
    using assms(1,2) unfolding segment_wf_def word_le_nat_alt by linarith
  then have b: "unat (seg_sent q) + n < 65536" using unat_u16_less [of "seg_len q"] by linarith
  then have "unat (of_nat n :: u16) = n" by (simp add: unat_of_nat)
  then show u: "unat (seg_sent q') = unat (seg_sent q) + n"
    using b by (simp add: q'_def unat_word_ariths)
  show "segment_wf q'" using assms(1) le u by (simp add: segment_wf_def q'_def word_le_nat_alt)
  have "unat (ucast (seg_sent q) + of_nat n :: u32) = unat (seg_sent q) + n"
    using b by (simp add: unat_word_ariths unat_of_nat)
  then show "(ucast (seg_sent q') :: u32) = ucast (seg_sent q) + of_nat n"
    using u by (intro word_unat_eq_iff [THEN iffD2]) simp
qed

text \<open>One successful or failed \<open>send\<close>, in the terms of the loop.\<close>

lemma send_amount:
  assumes "segment_wf q" "sys_send os fd (drop (unat (seg_sent q)) (seg_data q)) m w = ((r, e), v)"
  obtains n where "clamp_sent r (unat (seg_len q) - unat (seg_sent q)) = int n"
    "n \<le> unat (seg_len q) - unat (seg_sent q)" "0 \<le> r \<longrightarrow> n = nat r"
proof -
  let ?len = "unat (seg_len q) - unat (seg_sent q)"
  have r: "- 1 \<le> r" "r \<le> int ?len"
    using sys_send_result [OF assms(2)] assms(1) by (auto simp: segment_wf_def)
  have l: "?len < 65536" using unat_u16_less [of "seg_len q"] by linarith
  show ?thesis
  proof (cases "r = - 1")
    case True
    then show ?thesis using that [of ?len] clamp_sent_error [of ?len] l by simp
  next
    case False
    then have "clamp_sent r ?len = int (nat r)" "nat r \<le> ?len"
      using clamp_sent_ok [of r ?len] r l by auto
    then show ?thesis using that [of "nat r"] by simp
  qed
qed

text \<open>One turn of the loop, when its segment is well formed and not rewritten.\<close>

lemma forward_data_turn:
  assumes "segment_wf q" "t_dest t \<noteq> 80" "head_ready (t\<lparr>forward := q # qs\<rparr>) b"
  obtains r v n where
    "trace v = trace w @ [Sock_Send fd (drop (unat (seg_sent q)) (seg_data q)) (\<not> seg_psh q) r]"
    "n \<le> unat (seg_len q) - unat (seg_sent q)" "0 \<le> r \<longrightarrow> n = nat r"
    "forward_data os fd (q # qs) t b fwd w =
       (let q' = q\<lparr>seg_sent := seg_sent q + of_nat n\<rparr>;
            t' = t\<lparr>t_sent := t_sent t + of_nat n, remote_seq := seg_seq q + ucast (seg_sent q')\<rparr>
        in if n = unat (seg_len q) - unat (seg_sent q)
           then forward_data os fd qs t' (b - of_nat n) True v
           else Some (True, t'\<lparr>forward := q' # qs\<rparr>, v))"
proof -
  let ?d = "drop (unat (seg_sent q)) (seg_data q)"
  obtain r e v where s: "sys_send os fd ?d (\<not> seg_psh q) w = ((r, e), v)" by (metis surj_pair)
  obtain n where n: "clamp_sent r (unat (seg_len q) - unat (seg_sent q)) = int n"
    "n \<le> unat (seg_len q) - unat (seg_sent q)" "0 \<le> r \<longrightarrow> n = nat r"
    by (rule send_amount [OF assms(1) s])
  let ?q = "q\<lparr>seg_sent := seg_sent q + of_nat n\<rparr>"
  have "unat (seg_len q) = unat (seg_sent ?q) \<longleftrightarrow> n = unat (seg_len q) - unat (seg_sent q)"
    using segment_advance(1) [OF assms(1) n(2)] assms(1)
    unfolding segment_wf_def word_le_nat_alt by linarith
  then have full: "seg_len q = seg_sent ?q \<longleftrightarrow> n = unat (seg_len q) - unat (seg_sent q)"
    by (simp only: word_unat_eq_iff)
  have "trace v = trace w @ [Sock_Send fd ?d (\<not> seg_psh q) r]" using sys_send_result [OF s] by simp
  moreover have "forward_data os fd (q # qs) t b fwd w =
       (let q' = ?q; t' = t\<lparr>t_sent := t_sent t + of_nat n, remote_seq := seg_seq q + ucast (seg_sent q')\<rparr>
        in if n = unat (seg_len q) - unat (seg_sent q)
           then forward_data os fd qs t' (b - of_nat n) True v
           else Some (True, t'\<lparr>forward := q' # qs\<rparr>, v))"
    using assms(3) outgoing_plain [OF assms(1,2)] s n(1) full by (simp add: Let_def)
  ultimately show ?thesis using that n by blast
qed

text \<open>The same turn in terms of the stream: \<open>e\<close> is the send, \<open>q'\<close> and \<open>t'\<close> are the segment and the session
  after it.\<close>

lemma forward_data_turn_stream:
  assumes wf: "segment_wf q" and port: "t_dest t \<noteq> 80" and ready: "head_ready (t\<lparr>forward := q # qs\<rparr>) b"
  obtains e n q' t' v where "trace v = trace w @ [e]" "segment_wf q'" "t_dest t' = t_dest t"
    "send_ok e \<Longrightarrow> remote_seq t' = remote_seq t + of_nat (length (taken fd e))"
    "send_ok e \<Longrightarrow> taken fd e @ drop (unat (seg_sent q')) (seg_data q') = drop (unat (seg_sent q)) (seg_data q)"
    "forward_data os fd (q # qs) t b fwd w =
      (if drop (unat (seg_sent q')) (seg_data q') = [] then forward_data os fd qs t' (b - of_nat n) True v
       else Some (True, t'\<lparr>forward := q' # qs\<rparr>, v))"
proof -
  let ?d = "drop (unat (seg_sent q)) (seg_data q)"
  obtain r v n where
    v: "trace v = trace w @ [Sock_Send fd ?d (\<not> seg_psh q) r]" and
    n: "n \<le> unat (seg_len q) - unat (seg_sent q)" "0 \<le> r \<longrightarrow> n = nat r" and
    f: "forward_data os fd (q # qs) t b fwd w =
     (let q' = q\<lparr>seg_sent := seg_sent q + of_nat n\<rparr>;
          t' = t\<lparr>t_sent := t_sent t + of_nat n, remote_seq := seg_seq q + ucast (seg_sent q')\<rparr>
      in if n = unat (seg_len q) - unat (seg_sent q)
         then forward_data os fd qs t' (b - of_nat n) True v
         else Some (True, t'\<lparr>forward := q' # qs\<rparr>, v))"
    by (rule forward_data_turn [OF wf port ready, where os = os and fd = fd and fwd = fwd and w = w])
  let ?q = "q\<lparr>seg_sent := seg_sent q + of_nat n\<rparr>"
  let ?t = "t\<lparr>t_sent := t_sent t + of_nat n, remote_seq := seg_seq q + ucast (seg_sent ?q)\<rparr>"
  let ?e = "Sock_Send fd ?d (\<not> seg_psh q) r"
  note adv = segment_advance [OF wf n(1)]
  have len: "length ?d = unat (seg_len q) - unat (seg_sent q)" using wf by (simp add: segment_wf_def)
  have tk: "taken fd ?e = take n ?d" if "send_ok ?e" using n(2) that by simp
  have dr: "drop n ?d = drop (unat (seg_sent ?q)) (seg_data ?q)" using adv(1) by (simp add: add.commute)
  have rs: "remote_seq ?t = remote_seq t + of_nat n" using ready adv(3) by (simp add: head_ready_def)
  have l: "length (take n ?d) = n" using n(1) len by simp
  show ?thesis
  proof (rule that [OF v adv(2)])
    show "t_dest ?t = t_dest t" by simp
    show "remote_seq ?t = remote_seq t + of_nat (length (taken fd ?e))" if "send_ok ?e"
      using rs l unfolding tk [OF that] by simp
    show "taken fd ?e @ drop (unat (seg_sent ?q)) (seg_data ?q) = ?d" if "send_ok ?e"
      unfolding tk [OF that] dr [symmetric] by (rule append_take_drop_id)
    have "drop n ?d = [] \<longleftrightarrow> n = unat (seg_len q) - unat (seg_sent q)" using n(1) len by auto
    then show "forward_data os fd (q # qs) t b fwd w =
      (if drop (unat (seg_sent ?q)) (seg_data ?q) = [] then forward_data os fd qs ?t (b - of_nat n) True v
       else Some (True, ?t\<lparr>forward := ?q # qs\<rparr>, v))"
      unfolding dr [symmetric] f Let_def by simp
  qed
qed

text \<open>Forwarding returns, and as long as no \<open>send\<close> fails it neither loses nor repeats nor reorders a
  byte of a session that is not on port 80: what the socket took followed by what is still queued is
  what was queued, and the acknowledged sequence number has moved by what the socket took.\<close>

theorem forward_data_stream:
  assumes "\<forall>q \<in> set ss. segment_wf q" "t_dest t \<noteq> 80"
  shows "\<exists>fwd' t' w' es. forward_data os fd ss t b fwd w = Some (fwd', t', w') \<and> trace w' = trace w @ es \<and>
    (\<forall>q \<in> set (forward t'). segment_wf q) \<and>
    (list_all send_ok es \<longrightarrow> sent_on fd es @ pending (forward t') = pending ss \<and>
       remote_seq t' = remote_seq t + of_nat (length (sent_on fd es)))"
  using assms
proof (induction ss arbitrary: t b fwd w)
  case (Cons q qs)
  then have wf: "segment_wf q" "\<forall>q \<in> set qs. segment_wf q" by simp_all
  show ?case
  proof (cases "head_ready (t\<lparr>forward := q # qs\<rparr>) b")
    case False
    with Cons.prems show ?thesis by (simp add: exI [of _ "[]"])
  next
    case True
    obtain e n q' u v where v: "trace v = trace w @ [e]" "segment_wf q'" "t_dest u = t_dest t"
      and ok: "send_ok e \<Longrightarrow> remote_seq u = remote_seq t + of_nat (length (taken fd e))"
        "send_ok e \<Longrightarrow> taken fd e @ drop (unat (seg_sent q')) (seg_data q') = drop (unat (seg_sent q)) (seg_data q)"
      and f: "forward_data os fd (q # qs) t b fwd w =
        (if drop (unat (seg_sent q')) (seg_data q') = [] then forward_data os fd qs u (b - of_nat n) True v
         else Some (True, u\<lparr>forward := q' # qs\<rparr>, v))"
      by (rule forward_data_turn_stream
          [OF wf(1) Cons.prems(2) True, where os = os and fd = fd and fwd = fwd and w = w]) blast
    show ?thesis
    proof (cases "drop (unat (seg_sent q')) (seg_data q') = []")
      case True
      from Cons.IH [OF wf(2), of u "b - of_nat n" True v] Cons.prems(2) v(3)
      obtain fwd' t' w' es where ih: "forward_data os fd qs u (b - of_nat n) True v = Some (fwd', t', w')"
        "trace w' = trace v @ es" "\<forall>q \<in> set (forward t'). segment_wf q"
        "list_all send_ok es \<longrightarrow> sent_on fd es @ pending (forward t') = pending qs \<and>
           remote_seq t' = remote_seq u + of_nat (length (sent_on fd es))" by auto
      then show ?thesis
        using f v True ok by (intro exI [of _ fwd'] exI [of _ t'] exI [of _ w'] exI [of _ "e # es"]) simp
    next
      case False
      then show ?thesis
        using f v ok wf(2) by (intro exI [of _ True] exI [of _ "u\<lparr>forward := q' # qs\<rparr>"] exI [of _ v] exI [of _ "[e]"])
          (simp add: append_assoc [symmetric] del: append_assoc)
    qed
  qed
qed simp

definition example_segment :: segment where
  "example_segment = \<lparr>seg_seq = 1001, seg_len = 3, seg_sent = 1, seg_psh = True, seg_data = [65, 66, 67]\<rparr>"

theorem forward_data_stream_witness:
  "\<exists>fwd' t' w'. forward_data calm_os 7 [example_segment] (example_tcp\<lparr>remote_seq := 1002\<rparr>) 1000 False
      (empty_io\<lparr>fds := [7]\<rparr>) = Some (fwd', t', w') \<and> trace w' = [Sock_Send 7 [66, 67] False 2] \<and>
    [66, 67] @ pending (forward t') = pending [example_segment] \<and> remote_seq t' = 1004"
proof -
  let ?t = "example_tcp\<lparr>remote_seq := 1002\<rparr>" and ?w = "empty_io\<lparr>fds := [7]\<rparr>"
  have "\<forall>q \<in> set [example_segment]. segment_wf q" "t_dest ?t \<noteq> 80"
    by (simp_all add: example_segment_def example_tcp_def segment_wf_def)
  from forward_data_stream [OF this, of calm_os 7 1000 False ?w] obtain fwd' t' w' es where
    f: "forward_data calm_os 7 [example_segment] ?t 1000 False ?w = Some (fwd', t', w')" "trace w' = trace ?w @ es"
      "list_all send_ok es \<longrightarrow> sent_on 7 es @ pending (forward t') = pending [example_segment] \<and>
        remote_seq t' = remote_seq ?t + of_nat (length (sent_on 7 es))" by blast
  have "outgoing (t_dest ?t) example_segment = Some [66, 67]"
    by (simp add: outgoing_def example_segment_def example_tcp_def rd_block_def)
  moreover have "sys_send calm_os 7 [66, 67] False ?w = ((2, 0), step_io [Sock_Send 7 [66, 67] False 2] ?w)"
    by (simp add: sys_send_def calm_os_def empty_io_def transfer_def)
  moreover have "head_ready (?t\<lparr>forward := [example_segment]\<rparr>) 1000"
    by (simp add: head_ready_def example_segment_def example_tcp_def)
  ultimately have "trace w' = [Sock_Send 7 [66, 67] False 2]"
    using f(1) by (auto simp: Let_def clamp_sent_def example_segment_def empty_io_def)
  then show ?thesis using f by (auto simp: empty_io_def example_tcp_def)
qed

text \<open>C30: a \<open>send\<close> that fails is taken for one that sent everything: the comparison of its result with
  the length is unsigned. The segment is dropped from the queue and acknowledged, although no byte
  of it was sent, and the error is not seen. It is stated of a queue of one segment that is ready to be sent, and
  not of port 80.\<close>

theorem send_failure_loses_data:
  assumes "segment_wf q" "t_dest t \<noteq> 80" "head_ready (t\<lparr>forward := [q]\<rparr>) b" "os_send os (tick w) = Fails e"
  shows "\<exists>t' w'. forward_data os fd [q] t b fwd w = Some (True, t', w') \<and> forward t' = [] \<and>
    t_state t' = t_state t \<and> remote_seq t' = seg_seq q + ucast (seg_len q) \<and>
    (\<exists>data m. trace w' = trace w @ [Sock_Send fd data m (- 1)])"
proof -
  let ?d = "drop (unat (seg_sent q)) (seg_data q)" and ?len = "unat (seg_len q) - unat (seg_sent q)"
  have le: "unat (seg_sent q) \<le> unat (seg_len q)" using assms(1) by (simp add: segment_wf_def word_le_nat_alt)
  obtain r er v where v: "sys_send os fd ?d (\<not> seg_psh q) w = ((r, er), v)" by (metis surj_pair)
  have r: "r = - 1" using v assms(4) by (auto simp: sys_send_def Let_def transfer_def split: if_splits)
  have "unat (seg_len q) < 65536" using unsigned_less [of "seg_len q", where ?'a = nat] by simp
  then have "?len < 65536" by linarith
  then have lt: "?len < 2 ^ 64 - 1" by (rule less_trans) simp
  have c: "clamp_sent r ?len = int ?len" using clamp_sent_error [OF lt] r by simp
  let ?q = "q\<lparr>seg_sent := seg_sent q + of_nat ?len\<rparr>"
  have full: "seg_sent q + of_nat ?len = seg_len q" using le by (simp add: of_nat_diff)
  let ?t = "t\<lparr>t_sent := t_sent t + of_nat ?len, remote_seq := seg_seq q + ucast (seg_len q)\<rparr>"
  have "forward_data os fd [q] t b fwd w = Some (True, ?t\<lparr>forward := []\<rparr>, v)"
    using assms(3) outgoing_plain [OF assms(1,2)] by (simp add: v c full Let_def)
  moreover have "trace v = trace w @ [Sock_Send fd ?d (\<not> seg_psh q) (- 1)]" using sys_send_result [OF v] r by simp
  ultimately show ?thesis by auto
qed

theorem send_failure_loses_data_witness:
  "\<exists>t' w'. forward_data (calm_os\<lparr>os_send := \<lambda>_. Fails EAGAIN\<rparr>) 7 [example_segment] (example_tcp\<lparr>remote_seq := 1002\<rparr>) 1000
      False (empty_io\<lparr>fds := [7]\<rparr>) = Some (True, t', w') \<and> forward t' = [] \<and>
    t_state t' = t_state (example_tcp\<lparr>remote_seq := 1002\<rparr>) \<and>
    remote_seq t' = seg_seq example_segment + ucast (seg_len example_segment) \<and>
    (\<exists>data m. trace w' = trace (empty_io\<lparr>fds := [7]\<rparr>) @ [Sock_Send 7 data m (- 1)])"
  by (rule send_failure_loses_data [where e = EAGAIN])
     (simp_all add: example_segment_def example_tcp_def segment_wf_def head_ready_def)

section \<open>Reading for the app\<close>

lemma tcp_packet_counters:
  "tcp_packet (t\<lparr>t_time := a, t_received := b\<rparr>) data syn ack fin rst = tcp_packet t data syn ack fin rst"
  by (simp add: tcp_packet_def tcp_header_def tcp_header_front_def tcp_flags_def tcp_options_def Let_def cong: if_cong)

lemma tcp_received_extends:
  assumes "tcp_received os s r w = (s', w')"
  shows "\<exists>es. trace w' = trace w @ es"
proof -
  have t: "\<exists>es. trace v = trace u @ es" if "write_tcp os x d a b c e u = (q, v)" for x d a b c e u q v
    using that by (auto simp: write_tcp_def sys_tun_write_def Let_def split: if_splits)
  show ?thesis
    using assms by (auto simp: tcp_received_def tcp_eof_def write_data_def write_fin_ack_def write_rst_def sys_close_def Let_def
        split: rx.splits if_splits prod.splits dest!: t)
qed

lemma read_size_min: "read_size win mss = min (unat win) (unat mss)"
proof -
  have "unat (ucast mss :: u32) = unat mss" using unsigned_less [of mss, where ?'a = nat] by (simp add: unsigned_ucast_eq take_bit_nat_eq_self)
  then show ?thesis by (simp add: read_size_def word_less_nat_alt min_def split: if_split)
qed

text \<open>What fits into the window that is left fits behind what is in flight.\<close>

lemma window_room:
  assumes "compare_u32 (acked t) (local_seq t) \<le> 0" "0 < n" "n \<le> unat (get_send_window t)"
  shows "unat (local_seq t + of_nat n - acked t) \<le> unat (send_window t)"
proof -
  let ?b = "local_seq t - acked t"
  have lt: "?b < send_window t" and n: "n \<le> unat (send_window t - ?b)"
    using assms by (auto simp: get_send_window_def Let_def split: if_splits)
  have "unat (send_window t - ?b) = unat (send_window t) - unat ?b" using lt by (simp add: unat_sub)
  then have le: "unat ?b + n \<le> unat (send_window t)" using n lt by (simp add: word_less_nat_alt)
  also have "\<dots> < 2 ^ 32" using unsigned_less [of "send_window t", where ?'a = nat] by simp
  finally have "unat (?b + of_nat n) = unat ?b + n" by (simp add: unat_word_ariths unat_of_nat)
  then show ?thesis using le by (simp add: algebra_simps)
qed

text \<open>C21: what the server sends reaches the app within the app's window: when the \<open>recv\<close> of a read finds
  bytes, exactly these go to the tun device, in one packet at the sequence number the session had; they are at
  most one MSS, and (as long as the session knows an acknowledgement that is not ahead) the bytes in flight with
  them do not exceed the window the app has announced. The sequence number moves by their number if the packet was
  written whole; otherwise it stays and the session is closing. (An end of file and an error hand over no
  bytes.)\<close>

theorem tcp_read_window:
  assumes "tcp_read os events s w = (s', w')" "0 \<le> socket s"
    "trace w' = trace w @ Sock_Recv (socket s) (Rx_Data bytes) # es" "bytes \<noteq> []"
  shows "\<exists>n. es = [Tun_Write (tcp_packet (sess s) bytes False True False False) n] \<and>
    length bytes \<le> unat (t_mss (sess s)) \<and>
    (compare_u32 (acked (sess s)) (local_seq (sess s)) \<le> 0 \<longrightarrow>
      unat (local_seq (sess s) + of_nat (length bytes) - acked (sess s)) \<le> unat (send_window (sess s))) \<and>
    (if n = int (length (tcp_packet (sess s) bytes False True False False))
     then local_seq (sess s') = local_seq (sess s) + of_nat (length bytes) \<and> t_state (sess s') = t_state (sess s)
     else local_seq (sess s') = local_seq (sess s) \<and> t_state (sess s') = TCP_CLOSING)"
proof -
  let ?win = "get_send_window (sess s)"
  obtain now v where n: "sys_time os w = (now, v)" by force
  let ?s = "s\<lparr>sess := (sess s)\<lparr>t_time := now\<rparr>\<rparr>"
  obtain r u where r: "sys_recv_stream (socket s) (read_size ?win (t_mss (sess s))) v = (r, u)" by force
  have c: "tcp_received os ?s r u = (s', w')"
    using assms(1,3) n r by (auto simp: tcp_read_def Let_def split: if_splits)
  have tu: "trace u = trace w @ [Sock_Recv (socket s) r]"
    using n r by (auto simp: sys_time_def sys_recv_stream_def Let_def split: prod.splits)
  obtain es' where "trace w' = trace u @ es'" using tcp_received_extends [OF c] by blast
  then have rb: "r = Rx_Data bytes" and es: "trace w' = trace u @ es" using assms(3) tu by auto
  have l: "length bytes \<le> unat (t_mss (sess s))" "length bytes \<le> unat ?win"
    using sys_recv_stream_length [OF r [unfolded rb]] by (simp_all add: read_size_min)
  let ?t = "(sess s)\<lparr>t_time := now, t_received := t_received (sess s) + of_nat (length bytes)\<rparr>"
  let ?b = "tcp_packet ?t bytes False True False False"
  define k where "k = fst (transfer (os_tun_write os (tick u)) (length ?b))"
  have w': "w' = step_io [Tun_Write ?b k] u" and s': "sess s' = (if k = int (length ?b) then
      ?t\<lparr>local_seq := local_seq ?t + of_nat (length bytes)\<rparr> else ?t\<lparr>t_state := TCP_CLOSING\<rparr>)"
    using c assms(4) by (auto simp: rb tcp_received_def write_data_def write_tcp_def sys_tun_write_def k_def Let_def split: if_splits)
  have b: "?b = tcp_packet (sess s) bytes False True False False" using tcp_packet_counters by simp
  have "unat (local_seq (sess s) + of_nat (length bytes) - acked (sess s)) \<le> unat (send_window (sess s))"
    if "compare_u32 (acked (sess s)) (local_seq (sess s)) \<le> 0"
    by (rule window_room) (use that assms(4) l in auto)
  moreover have "es = [Tun_Write (tcp_packet (sess s) bytes False True False False) k]" using es w' b by simp
  ultimately show ?thesis using l(1) s' b by (intro exI [of _ k]) simp
qed

theorem tcp_read_window_witness:
  "\<exists>s' w' n. tcp_read calm_os EPOLLIN \<lparr>sid = 1, socket = 7, ev_events = 9, sess = example_tcp\<rparr>
      (empty_io\<lparr>fds := [7], rxq := (\<lambda>_. [])(7 := [Rx_Data [72, 105]])\<rparr>) = (s', w') \<and>
    trace w' = [Sock_Recv 7 (Rx_Data [72, 105]), Tun_Write (tcp_packet example_tcp [72, 105] False True False False) n] \<and>
    unat (local_seq example_tcp + 2 - acked example_tcp) \<le> unat (send_window example_tcp)"
proof -
  let ?s = "\<lparr>sid = 1, socket = 7, ev_events = 9, sess = example_tcp\<rparr>"
  let ?w = "empty_io\<lparr>fds := [7], rxq := (\<lambda>_. [])(7 := [Rx_Data [72, 105]])\<rparr>"
  obtain s' w' where e: "tcp_read calm_os EPOLLIN ?s ?w = (s', w')" by force
  obtain es where es: "trace w' = trace ?w @ Sock_Recv (socket ?s) (Rx_Data [72, 105]) # es"
    using e by (auto simp: tcp_read_def tcp_received_def write_data_def write_tcp_def sys_tun_write_def calm_os_def
        sys_time_def sys_recv_stream_def empty_io_def transfer_def read_size_def EPOLLIN_def get_send_window_def
        compare_u32_def length_tcp_packet example_tcp_def tcp_addrs_def Let_def split: if_splits prod.splits)
  have "compare_u32 (acked example_tcp) (local_seq example_tcp) \<le> 0"
    by (simp add: example_tcp_def compare_u32_def)
  with tcp_read_window [OF e _ es] obtain n where
    "es = [Tun_Write (tcp_packet example_tcp [72, 105] False True False False) n]"
    "unat (local_seq example_tcp + 2 - acked example_tcp) \<le> unat (send_window example_tcp)" by auto
  then show ?thesis using e es by (auto simp: empty_io_def)
qed

end
