(* ===== verification/Tls.thy ===== *)
theory Tls
  imports Prelude
begin

text \<open>
  \<^verbatim>\<open>app/src/main/cpp/tls.c\<close>: finding the server name in a TLS ClientHello. The parser reads
  attacker-controlled bytes, so every read is checked: \<open>None\<close> would be a read outside the
  buffer. The lemmas show that there is none, that the name fits the caller's buffer, and that
  the parser recovers the name from every well-formed ClientHello.
\<close>

definition TLS_HEADER_LEN :: nat where "TLS_HEADER_LEN = 5"
definition TLS_HANDSHAKE_CONTENT_TYPE :: byte where "TLS_HANDSHAKE_CONTENT_TYPE = 0x16"
definition TLS_HANDSHAKE_TYPE_CLIENT_HELLO :: byte where "TLS_HANDSHAKE_TYPE_CLIENT_HELLO = 0x01"
definition FQDN_MAX :: nat where "FQDN_MAX = 255"

definition rd_len16 :: "byte list \<Rightarrow> nat \<Rightarrow> nat option" where
  "rd_len16 d i = do { a \<leftarrow> rd d i; b \<leftarrow> rd d (i + 1); Some (unat a * 256 + unat b) }"

text \<open>The loop of \<open>parse_server_name_extension\<close>, from position \<open>pos\<close>.\<close>

function server_name_loop :: "byte list \<Rightarrow> nat \<Rightarrow> byte list \<Rightarrow> nat \<Rightarrow> byte list option" where
  "server_name_loop data data_len hostname pos =
     (if pos + 3 < data_len then do {
        len \<leftarrow> rd_len16 data (pos + 1);
        if pos + 3 + len > data_len then Some hostname
        else do {
          name_type \<leftarrow> rd data pos;
          if name_type = 0 then strncpy data (pos + 3) (min len FQDN_MAX)
          else server_name_loop data data_len hostname (pos + (3 + len))
        }
      } else Some hostname)"
  by pat_completeness auto
termination
  by (relation "measure (\<lambda>(data, data_len, hostname, pos). data_len - pos)") auto

definition parse_server_name_extension :: "byte list \<Rightarrow> nat \<Rightarrow> byte list \<Rightarrow> byte list option" where
  "parse_server_name_extension data data_len hostname = server_name_loop data data_len hostname 2"

function extensions_loop :: "byte list \<Rightarrow> nat \<Rightarrow> byte list \<Rightarrow> nat \<Rightarrow> byte list option" where
  "extensions_loop data data_len hostname pos =
     (if pos + 4 \<le> data_len then do {
        len \<leftarrow> rd_len16 data (pos + 2);
        t0 \<leftarrow> rd data pos;
        t1 \<leftarrow> rd data (pos + 1);
        if t0 = 0x00 \<and> t1 = 0x00 then
          (if pos + 4 + len > data_len then Some hostname
           else parse_server_name_extension (drop (pos + 4) data) len hostname)
        else extensions_loop data data_len hostname (pos + (4 + len))
      } else Some hostname)"
  by pat_completeness auto
termination
  by (relation "measure (\<lambda>(data, data_len, hostname, pos). data_len - pos)") auto

definition parse_extensions :: "byte list \<Rightarrow> nat \<Rightarrow> byte list \<Rightarrow> byte list option" where
  "parse_extensions data data_len hostname = extensions_loop data data_len hostname 0"

text \<open>
  \<open>char\<close> is signed on x86 and unsigned on ARM; \<open>signed_char\<close> says which. It matters for the
  comparison of the version bytes only.
\<close>

definition char_val :: "bool \<Rightarrow> byte \<Rightarrow> int" where
  "char_val signed_char c = (if signed_char then sint c else uint c)"

text \<open>The part of \<open>parse_tls_header\<close> after the record header: session id, cipher suites,
  compression methods, then the extensions.\<close>

definition parse_client_hello ::
    "bool \<Rightarrow> byte list \<Rightarrow> nat \<Rightarrow> byte \<Rightarrow> byte \<Rightarrow> byte list \<Rightarrow> byte list option" where
  "parse_client_hello sc data data_len major minor hostname = do {
     let pos = TLS_HEADER_LEN + 38;
     if pos + 1 > data_len then Some hostname
     else do {
       l1 \<leftarrow> rd data pos;
       let pos = pos + (1 + unat l1);
       if pos + 2 > data_len then Some hostname
       else do {
         l2 \<leftarrow> rd_len16 data pos;
         let pos = pos + (2 + l2);
         if pos + 1 > data_len then Some hostname
         else do {
           l3 \<leftarrow> rd data pos;
           let pos = pos + (1 + unat l3);
           if pos = data_len \<and> char_val sc major = 3 \<and> char_val sc minor = 0 then Some hostname
           else if pos + 2 > data_len then Some hostname
           else do {
             l4 \<leftarrow> rd_len16 data pos;
             let pos = pos + 2;
             if pos + l4 > data_len then Some hostname
             else parse_extensions (drop pos data) l4 hostname
           }
         }
       }
     }
   }"

definition parse_tls_header :: "bool \<Rightarrow> byte list \<Rightarrow> nat \<Rightarrow> byte list \<Rightarrow> byte list option" where
  "parse_tls_header sc data data_len hostname =
     (if data_len < TLS_HEADER_LEN then Some hostname
      else do {
        d0 \<leftarrow> rd data 0;
        d2 \<leftarrow> rd data 2;
        if d0 AND 0x80 \<noteq> 0 \<and> d2 = 1 then Some hostname
        else if d0 \<noteq> TLS_HANDSHAKE_CONTENT_TYPE then Some hostname
        else do {
          major \<leftarrow> rd data 1;
          minor \<leftarrow> rd data 2;
          if char_val sc major < 3 then Some hostname
          else do {
            rlen \<leftarrow> rd_len16 data 3;
            let len = rlen + TLS_HEADER_LEN;
            let data_len = min data_len len;
            if data_len < len then Some hostname
            else if TLS_HEADER_LEN + 1 > data_len then Some hostname
            else do {
              t \<leftarrow> rd data TLS_HEADER_LEN;
              if t \<noteq> TLS_HANDSHAKE_TYPE_CLIENT_HELLO then Some hostname
              else parse_client_hello sc data data_len major minor hostname
            }
          }
        }
      })"

declare server_name_loop.simps [simp del] extensions_loop.simps [simp del]

section \<open>No read outside the buffer\<close>

lemma rd_len16_ok: "i + 1 < length d \<Longrightarrow> rd_len16 d i = Some (unat (d ! i) * 256 + unat (d ! (i + 1)))"
  by (simp add: rd_len16_def rd_def)

lemma server_name_loop_ok:
  "data_len \<le> length data \<Longrightarrow>
   \<exists>h. server_name_loop data data_len hostname pos = Some h \<and> (h = hostname \<or> length h \<le> FQDN_MAX)"
proof (induction data data_len hostname pos rule: server_name_loop.induct)
  case (1 data data_len hostname pos)
  show ?case
  proof (cases "pos + 3 < data_len")
    case True
    define len where "len = unat (data ! (pos + 1)) * 256 + unat (data ! (pos + 1 + 1))"
    have len: "rd_len16 data (pos + 1) = Some len" and ty: "rd data pos = Some (data ! pos)"
      using True 1 by (simp_all add: rd_len16_ok rd_ok len_def)
    show ?thesis
    proof (cases "pos + 3 + len > data_len \<or> data ! pos = 0")
      case stop: True
      have "length (upto_nul (take (min len FQDN_MAX) (drop (pos + 3) data))) \<le> FQDN_MAX"
        by (rule order.trans [OF length_upto_nul_le]) simp
      with stop True 1 len ty show ?thesis
        by (auto simp: server_name_loop.simps [of data data_len hostname pos] strncpy_ok)
    next
      case False
      with True len ty have "server_name_loop data data_len hostname pos =
          server_name_loop data data_len hostname (pos + (3 + len))"
        by (simp add: server_name_loop.simps [of data data_len hostname pos])
      with 1 True len ty False show ?thesis by simp
    qed
  qed (simp add: server_name_loop.simps [of data data_len hostname pos])
qed

lemma extensions_loop_ok:
  "data_len \<le> length data \<Longrightarrow>
   \<exists>h. extensions_loop data data_len hostname pos = Some h \<and> (h = hostname \<or> length h \<le> FQDN_MAX)"
proof (induction data data_len hostname pos rule: extensions_loop.induct)
  case (1 data data_len hostname pos)
  show ?case
  proof (cases "pos + 4 \<le> data_len")
    case True
    define len where "len = unat (data ! (pos + 2)) * 256 + unat (data ! (pos + 2 + 1))"
    have rds: "rd_len16 data (pos + 2) = Some len" "rd data pos = Some (data ! pos)"
      "rd data (pos + 1) = Some (data ! (pos + 1))"
      using True 1 by (simp_all add: rd_len16_ok rd_ok len_def)
    show ?thesis
    proof (cases "data ! pos = 0 \<and> data ! (pos + 1) = 0")
      case sni: True
      show ?thesis
      proof (cases "pos + 4 + len > data_len")
        case False
        then have "len \<le> length (drop (pos + 4) data)" using 1 by simp
        from server_name_loop_ok [OF this] False sni rds True show ?thesis
          by (simp add: extensions_loop.simps [of data data_len hostname pos]
              parse_server_name_extension_def)
      qed (use sni rds True in \<open>simp add: extensions_loop.simps [of data data_len hostname pos]\<close>)
    next
      case False
      with True rds have "extensions_loop data data_len hostname pos =
          extensions_loop data data_len hostname (pos + (4 + len))"
        by (auto simp: extensions_loop.simps [of data data_len hostname pos])
      with 1 True rds False show ?thesis by simp
    qed
  qed (simp add: extensions_loop.simps [of data data_len hostname pos])
qed

lemma parse_client_hello_ok:
  "data_len \<le> length data \<Longrightarrow>
   \<exists>h. parse_client_hello sc data data_len major minor hostname = Some h \<and>
     (h = hostname \<or> length h \<le> FQDN_MAX)"
  unfolding parse_client_hello_def parse_extensions_def Let_def TLS_HEADER_LEN_def
  by (auto simp: rd_len16_ok rd_ok intro!: extensions_loop_ok)

text \<open>The parser reads no byte outside the data, and the name it stores fits: it is at most
  \<open>FQDN_MAX\<close> bytes long, or untouched.\<close>

lemma parse_tls_header_cases:
  "data_len \<le> length data \<Longrightarrow>
   \<exists>h. parse_tls_header sc data data_len hostname = Some h \<and> (h = hostname \<or> length h \<le> FQDN_MAX)"
proof (cases "data_len < TLS_HEADER_LEN")
  assume le: "data_len \<le> length data"
  case False
  then have r: "rd data i = Some (data ! i)" if "i < 5" for i
    using le that by (intro rd_ok) (simp add: TLS_HEADER_LEN_def)
  have "rd_len16 data 3 = Some (unat (data ! 3) * 256 + unat (data ! (3 + 1)))"
    using le False by (intro rd_len16_ok) (simp add: TLS_HEADER_LEN_def)
  with False le show ?thesis unfolding parse_tls_header_def Let_def TLS_HEADER_LEN_def
    by (auto simp: r rd_ok intro!: parse_client_hello_ok)
qed (simp add: parse_tls_header_def)

section \<open>The name in a well-formed ClientHello is found\<close>

text \<open>An encoder for ClientHello records: any extensions other than \<open>server_name\<close>, the
  \<open>server_name\<close> extension with one \<open>host_name\<close> entry, then whatever follows.\<close>

definition len16 :: "nat \<Rightarrow> byte list" where
  "len16 n = be16 (of_nat n)"

definition extension :: "u16 \<Rightarrow> byte list \<Rightarrow> byte list" where
  "extension ty body = be16 ty @ len16 (length body) @ body"

definition server_name_list :: "byte list \<Rightarrow> byte list" where
  "server_name_list host = len16 (length host + 3) @ 0 # len16 (length host) @ host"

definition hello_extensions :: "(u16 \<times> byte list) list \<Rightarrow> byte list \<Rightarrow> byte list \<Rightarrow> byte list" where
  "hello_extensions before host after =
     concat (map (\<lambda>(ty, body). extension ty body) before) @ extension 0 (server_name_list host) @ after"

text \<open>\<open>fixed\<close> holds the handshake length, version and random (37 bytes).\<close>

definition hello_body :: "byte list \<Rightarrow> byte list \<Rightarrow> byte list \<Rightarrow> byte list \<Rightarrow> byte list \<Rightarrow> byte list" where
  "hello_body fixed session_id ciphers compression exts =
     1 # fixed @ of_nat (length session_id) # session_id @ len16 (length ciphers) @ ciphers @
     of_nat (length compression) # compression @ len16 (length exts) @ exts"

definition client_hello ::
    "byte \<Rightarrow> byte list \<Rightarrow> byte list \<Rightarrow> byte list \<Rightarrow> byte list \<Rightarrow> byte list \<Rightarrow> byte list" where
  "client_hello minor fixed session_id ciphers compression exts =
     (let hs = hello_body fixed session_id ciphers compression exts
      in [TLS_HANDSHAKE_CONTENT_TYPE, 3, minor] @ len16 (length hs) @ hs)"

lemma length_len16 [simp, wire]: "length (len16 n) = 2"
  by (simp add: len16_def)

lemma rd_at: "i = length a \<Longrightarrow> rd (a @ x # b) i = Some x"
  by (simp add: rd_def)

lemma unat_of_nat_small: "n < 65536 \<Longrightarrow> unat (of_nat n :: u16) = n"
  by (simp add: unat_of_nat)

lemma rd_len16_at:
  assumes "n < 65536" "i = length a"
  shows "rd_len16 (a @ len16 n @ b) i = Some n"
proof -
  have "unat (ucast (drop_bit 8 (of_nat n :: u16)) :: byte) = n div 256"
    "unat (ucast (of_nat n :: u16) :: byte) = n mod 256"
    using unat_hi_byte [of "of_nat n"] unat_lo_byte [of "of_nat n"]
    by (simp_all only: unat_of_nat_small [OF assms(1)])
  then show ?thesis using assms(2)
    by (simp add: rd_len16_def rd_def len16_def be16_def nth_append)
qed

lemma upto_nul_no_nul: "0 \<notin> set h \<Longrightarrow> upto_nul h = h"
  by (auto simp: upto_nul_def takeWhile_eq_all_conv)

lemma server_name_list_found:
  assumes "0 \<notin> set host" "length host \<le> FQDN_MAX" "host \<noteq> []"
    and "data = server_name_list host @ rest"
  shows "parse_server_name_extension data (length (server_name_list host)) h0 = Some host"
proof -
  let ?l = "length host"
  have l: "?l < 65536" using assms(2) by (simp add: FQDN_MAX_def)
  have d: "data = len16 (?l + 3) @ 0 # len16 ?l @ host @ rest"
    "data = (len16 (?l + 3) @ [0]) @ len16 ?l @ (host @ rest)"
    "data = (len16 (?l + 3) @ 0 # len16 ?l) @ (host @ rest)"
    using assms(4) by (simp_all add: server_name_list_def)
  have n: "length (server_name_list host) = ?l + 5" by (simp add: server_name_list_def)
  have r1: "rd_len16 data (2 + 1) = Some ?l" unfolding d(2) by (rule rd_len16_at [OF l]) simp
  have r2: "rd data 2 = Some 0" unfolding d(1) by (rule rd_at) simp
  have "strncpy data (2 + 3) (min ?l FQDN_MAX) = Some host"
    using assms by (simp add: strncpy_def d(3) Let_def upto_nul_no_nul)
  with r1 r2 n assms(3) show ?thesis
    by (simp add: parse_server_name_extension_def server_name_loop.simps [of data _ h0 2])
qed

lemma be16_zero_iff: "be16 ty = [0, 0] \<longleftrightarrow> ty = 0"
proof
  assume "be16 ty = [0, 0]"
  then show "ty = 0" using bytes_be16_parts [of ty] by (simp add: be16_def bytes_be16_def)
qed (simp add: be16_def)

text \<open>The header of an extension reads back, and the loop steps over an extension of another type.\<close>

lemma extension_head:
  assumes "data = pre @ extension ty body @ more" "length body < 65536" "be16 ty = [a, b]"
  shows "rd data (length pre) = Some a" "rd data (length pre + 1) = Some b"
    "rd_len16 data (length pre + 2) = Some (length body)" "drop (length pre + 4) data = body @ more"
proof -
  have d: "data = pre @ a # b # len16 (length body) @ body @ more"
    using assms by (simp add: extension_def)
  show "rd data (length pre) = Some a" unfolding d by (rule rd_at) simp
  show "rd data (length pre + 1) = Some b" using rd_at [of _ "pre @ [a]" b] by (simp add: d)
  show "rd_len16 data (length pre + 2) = Some (length body)"
    using rd_len16_at [OF assms(2), of _ "pre @ [a, b]" "body @ more"] by (simp add: d)
  show "drop (length pre + 4) data = body @ more" by (simp add: d)
qed

lemma extensions_loop_step:
  assumes "data = pre @ extension ty body @ more" "length body < 65536" "ty \<noteq> 0" "length pre + 4 \<le> data_len"
  shows "extensions_loop data data_len h0 (length pre) =
    extensions_loop data data_len h0 (length (pre @ extension ty body))"
proof -
  obtain a b where ab: "be16 ty = [a, b]" by (simp add: be16_def)
  then have "\<not> (a = 0 \<and> b = 0)" using assms(3) be16_zero_iff [of ty] by auto
  then have "extensions_loop data data_len h0 (length pre) =
      extensions_loop data data_len h0 (length pre + (4 + length body))"
    using extension_head [OF assms(1,2) ab] assms(4)
    by (auto simp: extensions_loop.simps [of data data_len h0 "length pre"])
  then show ?thesis by (simp add: extension_def numeral_eq_Suc)
qed

lemma extensions_loop_found:
  assumes "\<forall>(ty, body) \<in> set before. ty \<noteq> 0 \<and> length body < 65536"
    and "0 \<notin> set host" "length host \<le> FQDN_MAX" "host \<noteq> []"
    and "data = pre @ hello_extensions before host after @ rest"
    and "data_len = length pre + length (hello_extensions before host after)"
  shows "extensions_loop data data_len h0 (length pre) = Some host"
  using assms
proof (induction before arbitrary: pre)
  case Nil
  let ?body = "server_name_list host"
  have l: "length ?body < 65536" using Nil by (simp add: server_name_list_def FQDN_MAX_def)
  have d: "data = pre @ extension 0 ?body @ after @ rest" using Nil by (simp add: hello_extensions_def)
  have "length pre + 4 + length ?body \<le> data_len"
    using Nil by (simp add: hello_extensions_def extension_def)
  moreover have "parse_server_name_extension (?body @ after @ rest) (length ?body) h0 = Some host"
    using Nil.prems(2-4) by (intro server_name_list_found [OF _ _ _ refl])
  moreover have "be16 0 = [0, 0]" by (simp add: be16_def)
  ultimately show ?case
    using extension_head [OF d l] by (simp add: extensions_loop.simps [of data data_len h0 "length pre"])
next
  case (Cons e before)
  obtain ty body where e: "e = (ty, body)" by force
  have l: "length body < 65536" and ty: "ty \<noteq> 0" using Cons.prems(1) e by auto
  have he: "hello_extensions (e # before) host after = extension ty body @ hello_extensions before host after"
    by (simp add: hello_extensions_def e)
  have d: "data = pre @ extension ty body @ hello_extensions before host after @ rest" using Cons.prems(5) he by simp
  have "length pre + 4 \<le> data_len" using Cons.prems(6) by (simp add: he extension_def)
  note step = extensions_loop_step [OF d l ty this]
  have "extensions_loop data data_len h0 (length (pre @ extension ty body)) = Some host"
    using Cons.prems by (intro Cons.IH) (auto simp: he)
  then show ?case by (simp only: step)
qed

lemma parse_client_hello_found:
  assumes "length fixed = 37" "length session_id < 256" "length ciphers < 65536"
    and "length compression < 256" "length exts < 65536" "exts = hello_extensions before host after"
    and "\<forall>(ty, body) \<in> set before. ty \<noteq> 0 \<and> length body < 65536"
    and "0 \<notin> set host" "length host \<le> FQDN_MAX" "host \<noteq> []" "length pre = 5"
    and "data = pre @ hello_body fixed session_id ciphers compression exts @ rest"
    and "data_len = 5 + length (hello_body fixed session_id ciphers compression exts)"
  shows "parse_client_hello sc data data_len major minor h0 = Some host"
proof -
  let ?s = "of_nat (length session_id) :: byte" and ?c = "of_nat (length compression) :: byte"
  let ?l1 = "length session_id" and ?l2 = "length ciphers" and ?l3 = "length compression"
  have u: "unat ?s = ?l1" "unat ?c = ?l3" using assms by (simp_all add: unat_of_nat)
  define A where "A = pre @ 1 # fixed"
  define B where "B = A @ ?s # session_id"
  define C where "C = B @ len16 ?l2 @ ciphers"
  define D where "D = C @ ?c # compression"
  have len: "length A = 43" "length B = 44 + ?l1" "length C = 46 + ?l1 + ?l2"
    "length D = 47 + ?l1 + ?l2 + ?l3"
    using assms by (simp_all add: A_def B_def C_def D_def)
  have d: "data = A @ ?s # (session_id @ len16 ?l2 @ ciphers @ ?c # compression @ len16 (length exts) @ exts @ rest)"
    "data = B @ len16 ?l2 @ (ciphers @ ?c # compression @ len16 (length exts) @ exts @ rest)"
    "data = C @ ?c # (compression @ len16 (length exts) @ exts @ rest)"
    "data = D @ len16 (length exts) @ (exts @ rest)"
    using assms(12) by (simp_all add: A_def B_def C_def D_def hello_body_def)
  have r1: "rd data 43 = Some ?s" by (subst d(1)) (rule rd_at, simp add: len)
  have r2: "rd_len16 data (43 + (1 + ?l1)) = Some ?l2"
    by (subst d(2)) (rule rd_len16_at, use assms in \<open>simp_all add: len\<close>)
  have r3: "rd data (43 + (1 + ?l1) + (2 + ?l2)) = Some ?c"
    by (subst d(3)) (rule rd_at, simp add: len)
  have r4: "rd_len16 data (43 + (1 + ?l1) + (2 + ?l2) + (1 + ?l3)) = Some (length exts)"
    by (subst d(4)) (rule rd_len16_at, use assms in \<open>simp_all add: len\<close>)
  have dr: "drop (43 + (1 + ?l1) + (2 + ?l2) + (1 + ?l3) + 2) data = exts @ rest"
    by (subst d(4)) (simp add: len)
  have dl: "data_len = 43 + (1 + ?l1) + (2 + ?l2) + (1 + ?l3) + 2 + length exts"
    using assms(1,11,13) by (simp add: hello_body_def)
  have "extensions_loop (exts @ rest) (length exts) h0 (length ([] :: byte list)) = Some host"
    by (rule extensions_loop_found [OF assms(7-10)]) (simp_all add: assms(6))
  then have "parse_extensions (exts @ rest) (length exts) h0 = Some host"
    by (simp add: parse_extensions_def)
  with r1 r2 r3 r4 dr show ?thesis
    unfolding parse_client_hello_def TLS_HEADER_LEN_def dl by (simp add: Let_def u)
qed

text \<open>A ClientHello record followed by anything.\<close>

text \<open>C12: a Client Hello that carries a server name is parsed back to that name, whatever other
  extensions come before and after it.\<close>

theorem parse_tls_header_found:
  assumes "length fixed = 37" "length session_id < 256" "length ciphers < 65536"
    and "length compression < 256" "exts = hello_extensions before host after"
    and "\<forall>(ty, body) \<in> set before. ty \<noteq> 0 \<and> length body < 65536"
    and "0 \<notin> set host" "length host \<le> FQDN_MAX" "host \<noteq> []"
    and "length (hello_body fixed session_id ciphers compression exts) < 65536"
    and "hello = client_hello minor fixed session_id ciphers compression exts"
    and "length hello \<le> data_len"
  shows "parse_tls_header sc (hello @ rest) data_len h0 = Some host"
proof -
  let ?hs = "hello_body fixed session_id ciphers compression exts"
  define data where "data = hello @ rest"
  define tail where "tail = fixed @ of_nat (length session_id) # session_id @ len16 (length ciphers) @
    ciphers @ of_nat (length compression) # compression @ len16 (length exts) @ exts"
  have d: "data = TLS_HANDSHAKE_CONTENT_TYPE # 3 # minor # len16 (length ?hs) @ 1 # tail @ rest"
    by (simp add: data_def assms(11) client_hello_def Let_def tail_def hello_body_def)
  have lenhs: "length ?hs = Suc (length tail)" by (simp add: hello_body_def tail_def)
  have r: "rd data 0 = Some TLS_HANDSHAKE_CONTENT_TYPE" "rd data 1 = Some 3" "rd data 2 = Some minor"
    by (simp_all add: d rd_def)
  have r3: "rd_len16 data 3 = Some (length ?hs)"
    using rd_len16_at [OF assms(10), of _ "[TLS_HANDSHAKE_CONTENT_TYPE, 3, minor]" "1 # tail @ rest"]
    by (simp add: d numeral_3_eq_3)
  have r5: "rd data TLS_HEADER_LEN = Some 1"
    using rd_at [of _ "[TLS_HANDSHAKE_CONTENT_TYPE, 3, minor] @ len16 (length ?hs)" 1]
    by (simp add: d TLS_HEADER_LEN_def)
  have hl: "length hello = 5 + length ?hs"
    by (simp add: assms(11) client_hello_def Let_def)
  have "length exts \<le> length ?hs" by (simp add: hello_body_def)
  then have "parse_client_hello sc data (5 + length ?hs) 3 minor h0 = Some host"
    using assms by (intro parse_client_hello_found [where pre = "take 5 data" and rest = rest])
      (auto simp: data_def client_hello_def Let_def)
  moreover have "char_val sc 3 = 3" by (simp add: char_val_def)
  moreover have "TLS_HANDSHAKE_CONTENT_TYPE AND 0x80 = 0"
    by (simp add: TLS_HANDSHAKE_CONTENT_TYPE_def)
  moreover have "min data_len (length ?hs + 5) = 5 + length ?hs" using assms(12) hl by simp
  ultimately show ?thesis
    using assms(12) hl lenhs r r3 r5
    by (simp add: parse_tls_header_def data_def [symmetric] Let_def TLS_HEADER_LEN_def
        TLS_HANDSHAKE_TYPE_CLIENT_HELLO_def add.commute)
qed

text \<open>C11: whatever the data is, the parser returns without reading outside of the \<open>data_len\<close> bytes it is
  given, and the host name it leaves is the old one or at most 255 bytes long.\<close>

theorem parse_tls_header_safe:
  assumes "data_len \<le> length data"
  shows "\<exists>h. parse_tls_header sc data data_len hostname = Some h \<and> (h = hostname \<or> length h \<le> 255)"
  using parse_tls_header_cases [OF assms] by (simp add: FQDN_MAX_def)

theorem parse_tls_header_safe_witness:
  "\<exists>h. parse_tls_header True [0x16, 3, 1, 0, 200, 1] 6 [] = Some h \<and> (h = [] \<or> length h \<le> 255)"
  by (rule parse_tls_header_safe) simp

definition example_hello :: "byte list" where
  "example_hello = client_hello 1 (replicate 37 0) [] [0, 47] [0]
     (hello_extensions [(23, [])] (cstr ''a.org'') [])"

theorem parse_tls_header_found_witness:
  "parse_tls_header True (example_hello @ [1, 2]) (length example_hello) [] = Some (cstr ''a.org'')"
  by (rule parse_tls_header_found [where fixed = "replicate 37 0" and session_id = "[]" and ciphers = "[0, 47]" and
        compression = "[0]" and before = "[(23, [])]" and after = "[]" and minor = 1])
     (simp_all add: example_hello_def cstr_def FQDN_MAX_def hello_body_def hello_extensions_def extension_def
        server_name_list_def wire)

end
