(* ===== verification/Tcp_Handle.thy ===== *)
theory Tcp_Handle
  imports Tcp_Socket Tls
begin

text \<open>
  A TCP packet of the app (\<open>handle_tcp\<close> of \<^verbatim>\<open>tcp.c\<close>): the header and its options, the session it
  belongs to, the opening of a new session and its socket, the CONNECT request to the proxy, and
  the state machine of a session that is found. A buffer \<open>pkt\<close> is the allocation the packet was
  read into; \<open>len\<close> bytes of it are the packet. \<open>None\<close> is undefined behaviour or, in the
  loop over the options, a loop that does not end.
\<close>

section \<open>The header\<close>

record tcphdr =
  th_source :: u16
  th_dest :: u16
  th_seq :: u32
  th_ack_seq :: u32
  th_doff :: byte
  th_fin :: bool
  th_syn :: bool
  th_rst :: bool
  th_psh :: bool
  th_ack :: bool
  th_urg :: bool
  th_window :: u16

definition read_tcphdr :: "byte list \<Rightarrow> nat \<Rightarrow> tcphdr option" where
  "read_tcphdr pkt p = do {
     source \<leftarrow> rd_be16 pkt p;
     dest \<leftarrow> rd_be16 pkt (p + 2);
     seq \<leftarrow> rd_be32 pkt (p + 4);
     ack_seq \<leftarrow> rd_be32 pkt (p + 8);
     off \<leftarrow> rd pkt (p + 12);
     flags \<leftarrow> rd pkt (p + 13);
     window \<leftarrow> rd_be16 pkt (p + 14);
     Some \<lparr>th_source = source, th_dest = dest, th_seq = seq, th_ack_seq = ack_seq,
       th_doff = drop_bit 4 off, th_fin = (flags AND 1 \<noteq> 0), th_syn = (flags AND 2 \<noteq> 0),
       th_rst = (flags AND 4 \<noteq> 0), th_psh = (flags AND 8 \<noteq> 0), th_ack = (flags AND 16 \<noteq> 0),
       th_urg = (flags AND 32 \<noteq> 0), th_window = window\<rparr>
   }"

text \<open>The length of the options is computed in 8 bits, the length of the data in 16: both wrap
  around when \<open>doff\<close> is below 5 or points beyond the packet.\<close>

definition tcp_optlen :: "tcphdr \<Rightarrow> byte" where
  "tcp_optlen h = (th_doff h - 5) * 4"

definition tcp_data_off :: "tcphdr \<Rightarrow> nat \<Rightarrow> nat" where
  "tcp_data_off h p = p + 20 + unat (tcp_optlen h)"

definition tcp_datalen :: "tcphdr \<Rightarrow> nat \<Rightarrow> nat \<Rightarrow> u16" where
  "tcp_datalen h p len = of_nat len - of_nat (tcp_data_off h p)"

text \<open>The options of a SYN: the MSS and the window scale. \<open>optlen\<close> is a signed \<open>int\<close>.\<close>

partial_function (option) tcp_options_loop ::
    "byte list \<Rightarrow> nat \<Rightarrow> int \<Rightarrow> u16 \<Rightarrow> byte \<Rightarrow> (u16 \<times> byte) option" where
  "tcp_options_loop pkt i optlen mss ws =
     (if optlen > 0 then do {
        kind \<leftarrow> rd pkt i;
        len \<leftarrow> rd pkt (i + 1);
        if kind = 0 then Some (mss, ws)
        else do {
          (mss, ws) \<leftarrow>
            (if kind = 2 \<and> len = 4 then do { m \<leftarrow> rd_be16 pkt (i + 2); Some (m, ws) }
             else if kind = 3 \<and> len = 3 then do { s \<leftarrow> rd pkt (i + 2); Some (mss, s) }
             else Some (mss, ws));
          if kind = 1 then tcp_options_loop pkt (i + 1) (optlen - 1) mss ws
          else tcp_options_loop pkt (i + unat len) (optlen - uint len) mss ws
        }
      } else Some (mss, ws))"

section \<open>Opening the socket\<close>

definition proxied_port :: "u16 \<Rightarrow> bool" where
  "proxied_port dest \<longleftrightarrow> dest = 80 \<or> dest = 443"

text \<open>Only ports 80 and 443 go through the proxy. A failure after \<open>socket\<close> does not close the
  descriptor.\<close>

definition open_tcp_socket :: "os \<Rightarrow> tcp_session \<Rightarrow> allowed \<Rightarrow> io \<Rightarrow> int \<times> io" where
  "open_tcp_socket os cur redirect w =
     (let proxied = proxied_port (t_dest cur);
          version = (if proxied then (if of_char (CHR '':'') \<in> set (raddr redirect) then 6 else 4)
                     else t_version cur);
          (sock, w) = sys_socket os w
      in if sock < 0 then (- 1, w)
         else let (ok, w) = sys_protect os sock w
         in if \<not> ok then (- 1, w)
         else let (ok, w) = sys_fcntl os sock w
         in if \<not> ok then (- 1, w)
         else let target = (if proxied then (if version = 4 then Proxy4 else Proxy6) (raddr redirect) (rport redirect)
                            else (if version = 4 then Addr4 else Addr6) (t_daddr cur) (t_dest cur));
                  ((err, errno), w) = sys_connect os sock target w
         in if err < 0 \<and> errno \<noteq> EINPROGRESS then (- 1, w) else (sock, w))"

section \<open>No session yet\<close>

text \<open>The session a SYN starts. A window scale of 32 or more makes the shift undefined; the host
  name is uninitialised and not read before it is set.\<close>

definition new_tcp_session ::
    "int \<Rightarrow> int \<Rightarrow> u32 \<Rightarrow> int \<Rightarrow> tcphdr \<Rightarrow> byte list \<Rightarrow> byte list \<Rightarrow> u16 \<Rightarrow> byte \<Rightarrow> byte list \<Rightarrow> tcp_session option" where
  "new_tcp_session now uid isn version h saddr daddr mss ws data =
     (if unat ws \<ge> 32 then None
      else Some \<lparr>t_uid = uid, t_time = now, t_version = version, t_mss = mss, recv_scale = ws, send_scale = ws,
        recv_window = 0, send_window = push_bit (unat ws) (ucast (th_window h)),
        remote_seq = th_seq h, local_seq = isn, remote_start = th_seq h, local_start = isn,
        acked = 0, last_keep_alive = 0, t_sent = 0, t_received = 0,
        t_saddr = saddr, t_source = th_source h, t_daddr = daddr, t_dest = th_dest h,
        t_state = TCP_LISTEN,
        forward = (if data = [] then [] else
          [\<lparr>seg_seq = th_seq h, seg_len = of_nat (length data), seg_sent = 0, seg_psh = th_psh h, seg_data = data\<rparr>]),
        t_hostname = [], connect_sent = TCP_CONNECT_NOT_SENT\<rparr>)"

definition register_tcp ::
    "os \<Rightarrow> nat \<Rightarrow> tcp_session \<Rightarrow> allowed \<Rightarrow> session list \<Rightarrow> io \<Rightarrow> session list \<times> io" where
  "register_tcp os i t redirect ss w =
     (let (sock, w) = open_tcp_socket os t redirect w
      in if sock < 0 then (ss, w)
         else let ev = EPOLLOUT OR EPOLLERR;
                  s = \<lparr>sid = i, socket = sock, ev_events = ev, sess = t\<rparr>;
                  (window, w) = get_receive_window os s w;
                  s = s\<lparr>sess := t\<lparr>recv_window := window\<rparr>\<rparr>;
                  (_, w) = sys_epoll_add os sock ev w
              in (Tcp s # ss, w))"

definition tcp_syn ::
    "os \<Rightarrow> byte list \<Rightarrow> nat \<Rightarrow> nat \<Rightarrow> int \<Rightarrow> tcphdr \<Rightarrow> int \<Rightarrow> allowed \<Rightarrow> session list \<Rightarrow> io \<Rightarrow> (session list \<times> io) option" where
  "tcp_syn os pkt len p uid h version redirect ss w = do {
     (mss, ws) \<leftarrow> tcp_options_loop pkt (p + 20) (uint (tcp_optlen h)) (get_default_mss version) 0;
     let (i, w) = new_sid w;
     let (now, w) = sys_time os w;
     let (isn, w) = sys_rand os w;
     saddr \<leftarrow> pkt_saddr version pkt;
     daddr \<leftarrow> pkt_daddr version pkt;
     data \<leftarrow> (if tcp_datalen h p len = 0 then Some []
             else rd_block pkt (tcp_data_off h p) (unat (tcp_datalen h p len)));
     t \<leftarrow> new_tcp_session now uid isn version h saddr daddr mss ws data;
     Some (register_tcp os i t redirect ss w)
   }"

text \<open>The reset for a packet of no session. Its state is the zero of \<open>memset\<close>, which is no state
  of the enumeration and behaves as one that is neither \<open>LISTEN\<close> nor \<open>CLOSE\<close>. The version is 4
  whatever the packet's is; only the first four bytes of the addresses are used then.\<close>

definition rst_session :: "tcphdr \<Rightarrow> u16 \<Rightarrow> byte list \<Rightarrow> byte list \<Rightarrow> tcp_session" where
  "rst_session h datalen saddr daddr =
     \<lparr>t_uid = 0, t_time = 0, t_version = 4, t_mss = 0, recv_scale = 0, send_scale = 0,
       recv_window = 0, send_window = 0,
       remote_seq = th_seq h + ucast datalen + (if th_syn h \<or> th_fin h then 1 else 0),
       local_seq = th_ack_seq h, remote_start = 0, local_start = 0,
       acked = 0, last_keep_alive = 0, t_sent = 0, t_received = 0,
       t_saddr = saddr, t_source = th_source h, t_daddr = daddr, t_dest = th_dest h,
       t_state = TCP_ESTABLISHED, forward = [], t_hostname = [], connect_sent = TCP_CONNECT_NOT_SENT\<rparr>"

definition tcp_unknown ::
    "os \<Rightarrow> byte list \<Rightarrow> nat \<Rightarrow> nat \<Rightarrow> tcphdr \<Rightarrow> int \<Rightarrow> io \<Rightarrow> io option" where
  "tcp_unknown os pkt len p h version w = do {
     saddr \<leftarrow> pkt_saddr version pkt;
     daddr \<leftarrow> pkt_daddr version pkt;
     Some (snd (write_rst os (rst_session h (tcp_datalen h p len) saddr daddr) w))
   }"

section \<open>The CONNECT request\<close>

fun decimal :: "nat \<Rightarrow> byte list" where
  "decimal n = (if n < 10 then [of_nat (48 + n)] else decimal (n div 10) @ [of_nat (48 + n mod 10)])"

declare decimal.simps [simp del]

text \<open>\<open>lookup_hostname\<close> without \<open>DNS_LOOKUPS\<close>: \<open>inet_ntoa\<close> of the first four bytes of the address,
  whatever the version.\<close>

definition lookup_hostname :: "byte list \<Rightarrow> byte list" where
  "lookup_hostname daddr =
     decimal (unat (daddr ! 0)) @ [0x2E] @ decimal (unat (daddr ! 1)) @ [0x2E] @
     decimal (unat (daddr ! 2)) @ [0x2E] @ decimal (unat (daddr ! 3))"

definition connect_request :: "byte list \<Rightarrow> u16 \<Rightarrow> byte list" where
  "connect_request hostname port =
     cstr ''CONNECT '' @ hostname @ cstr '':'' @ decimal (unat port) @ cstr '' HTTP/1.0'' @ [CR, LF, CR, LF]"

text \<open>The request is formatted into a buffer of 512 bytes; a longer one overflows it.\<close>

definition send_connect ::
    "os \<Rightarrow> byte list \<Rightarrow> tcp_session ng_session \<Rightarrow> io \<Rightarrow> (tcp_session ng_session \<times> io) option" where
  "send_connect os hostname s w =
     (let name = (if hostname = [] then lookup_hostname (t_daddr (sess s)) else hostname);
          s = s\<lparr>sess := (sess s)\<lparr>t_hostname := name\<rparr>\<rparr>
      in if connect_sent (sess s) = TCP_CONNECT_NOT_SENT then
           let buffer = connect_request name (t_dest (sess s))
           in if length buffer + 1 > 512 then None
              else let ((sent, errno), w) = sys_send os (socket s) buffer False w
              in if sent < 0 then let (t, w) = write_rst os (sess s) w in Some (s\<lparr>sess := t\<rparr>, w)
                 else Some (s\<lparr>sess := (sess s)\<lparr>connect_sent := TCP_CONNECT_SENT, t_state := TCP_LISTEN\<rparr>\<rparr>, w)
         else Some (s, w))"

section \<open>A packet of a session\<close>

text \<open>\<open>queue_tcp\<close> on the packet's data: it copies the data only when it stores a segment, and
  then reads \<open>datalen\<close> bytes whether the buffer has them or not.\<close>

definition queue_packet :: "byte list \<Rightarrow> nat \<Rightarrow> u16 \<Rightarrow> tcphdr \<Rightarrow> tcp_session \<Rightarrow> tcp_session option" where
  "queue_packet pkt off datalen h t =
     (let n = unat datalen;
          t' = queue_tcp (th_seq h) (th_psh h) t (take n (drop off pkt @ replicate n 0))
      in if off + n > length pkt \<and> forward t' \<noteq> forward t then None else Some t')"

text \<open>A FIN that acknowledges everything sent so far.\<close>

definition tcp_fin :: "os \<Rightarrow> tcp_session \<Rightarrow> io \<Rightarrow> tcp_session \<times> io" where
  "tcp_fin os t w =
     (if t_state t = TCP_ESTABLISHED then
        if forward t = [] then
          let (r, t, w) = write_ack os (t\<lparr>remote_seq := remote_seq t + 1\<rparr>) w
          in (if r \<ge> 0 then t\<lparr>t_state := TCP_CLOSE_WAIT\<rparr> else t, w)
        else (t\<lparr>t_state := TCP_CLOSE_WAIT\<rparr>, w)
      else if t_state t = TCP_CLOSE_WAIT then (t, w)
      else if t_state t = TCP_FIN_WAIT1 then
        let (r, t, w) = write_ack os (t\<lparr>remote_seq := remote_seq t + 1\<rparr>) w
        in (if r \<ge> 0 then t\<lparr>t_state := TCP_CLOSE\<rparr> else t, w)
      else (t, w))"

text \<open>A plain ACK of everything sent so far.\<close>

definition tcp_acknowledge :: "u32 \<Rightarrow> tcp_session \<Rightarrow> tcp_session" where
  "tcp_acknowledge ack t =
     (let t = t\<lparr>acked := ack\<rparr>
      in if t_state t = TCP_SYN_RECV then t\<lparr>t_state := TCP_ESTABLISHED\<rparr>
         else if t_state t = TCP_LAST_ACK then t\<lparr>t_state := TCP_CLOSING\<rparr>
         else t)"

text \<open>An acknowledgement number other than the next byte to send: a keep alive, an old ACK or one of
  data never sent.\<close>

definition tcp_other_ack :: "os \<Rightarrow> u32 \<Rightarrow> tcp_session ng_session \<Rightarrow> io \<Rightarrow> tcp_session ng_session \<times> io" where
  "tcp_other_ack os ack s w =
     (let t = sess s
      in if ack + 1 = local_seq t then
           (s, if t_state t = TCP_ESTABLISHED then sys_setsockopt (socket s) ''SO_KEEPALIVE'' w else w)
         else if compare_u32 ack (local_seq t) < 0 then
           (if compare_u32 ack (acked t) \<le> 0 then s else s\<lparr>sess := t\<lparr>acked := ack\<rparr>\<rparr>, w)
         else let (t, w) = write_rst os t w in (s\<lparr>sess := t\<rparr>, w))"

text \<open>The flags, after the data has been queued.\<close>

definition tcp_flags_in :: "os \<Rightarrow> tcphdr \<Rightarrow> tcp_session ng_session \<Rightarrow> io \<Rightarrow> tcp_session ng_session \<times> io" where
  "tcp_flags_in os h s w =
     (if th_rst h then (s\<lparr>sess := (sess s)\<lparr>t_state := TCP_CLOSING\<rparr>\<rparr>, w)
      else if \<not> th_ack h \<or> th_ack_seq h = local_seq (sess s) then
        if th_syn h then (s, w)
        else if th_fin h then let (t, w) = tcp_fin os (sess s) w in (s\<lparr>sess := t\<rparr>, w)
        else if th_ack h then (s\<lparr>sess := tcp_acknowledge (th_ack_seq h) (sess s)\<rparr>, w)
        else (s, w)
      else tcp_other_ack os (th_ack_seq h) s w)"

text \<open>The block for a session that is found and, if it is proxied, connected.\<close>

definition tcp_found ::
    "os \<Rightarrow> byte list \<Rightarrow> nat \<Rightarrow> u16 \<Rightarrow> tcphdr \<Rightarrow> tcp_session ng_session \<Rightarrow> io \<Rightarrow> (tcp_session ng_session \<times> io) option" where
  "tcp_found os pkt off datalen h s w =
     (if closing_state (t_state (sess s)) then
        let (t, w) = write_rst os (sess s) w in Some (s\<lparr>sess := t\<rparr>, w)
      else if unat (send_scale (sess s)) \<ge> 32 then None
      else do {
        let (now, w) = sys_time os w;
        let t = (sess s)\<lparr>t_time := now,
          send_window := push_bit (unat (send_scale (sess s))) (ucast (th_window h))\<rparr>;
        if datalen \<noteq> 0 \<and> (socket s < 0 \<or> t_state t = TCP_CLOSE_WAIT) then
          let (t, w) = write_rst os t w in Some (s\<lparr>sess := t\<rparr>, w)
        else do {
          t \<leftarrow> (if datalen \<noteq> 0 then queue_packet pkt off datalen h t else Some t);
          Some (tcp_flags_in os h (s\<lparr>sess := t\<rparr>) w)
        }
      })"

text \<open>A packet of session \<open>s\<close>: until the proxy has answered, data of a proxied session is queued
  and nothing else in the packet is looked at.\<close>

definition tcp_packet_in ::
    "os \<Rightarrow> byte list \<Rightarrow> byte list \<Rightarrow> nat \<Rightarrow> u16 \<Rightarrow> tcphdr \<Rightarrow> tcp_session ng_session \<Rightarrow> io \<Rightarrow>
     (tcp_session ng_session \<times> io) option" where
  "tcp_packet_in os hostname pkt off datalen h s w =
     (if proxied_port (t_dest (sess s)) then do {
        (s, w) \<leftarrow> send_connect os hostname s w;
        if connect_sent (sess s) \<noteq> TCP_CONNECT_ESTABLISHED then do {
          t \<leftarrow> queue_packet pkt off datalen h (sess s);
          Some (s\<lparr>sess := t\<rparr>, w)
        } else tcp_found os pkt off datalen h s w
      } else tcp_found os pkt off datalen h s w)"

section \<open>The handler\<close>

fun tcp_matches :: "int \<Rightarrow> tcphdr \<Rightarrow> byte list \<Rightarrow> byte list \<Rightarrow> session \<Rightarrow> bool" where
  "tcp_matches version h saddr daddr (Tcp s) =
     (t_version (sess s) = version \<and> t_source (sess s) = th_source h \<and> t_dest (sess s) = th_dest h \<and>
      t_saddr (sess s) = saddr \<and> t_daddr (sess s) = daddr)"
| "tcp_matches version h saddr daddr _ = False"

text \<open>\<open>strcpy\<close> of the proxy's address into \<open>raddr\<close>, which has room for 46 characters.\<close>

definition tcp_redirect :: "arguments \<Rightarrow> allowed option" where
  "tcp_redirect args =
     (if length (proxyIp args) > 46 then None
      else Some \<lparr>raddr = proxyIp args, rport = word_of_int (proxyPort args)\<rparr>)"

definition handle_tcp ::
    "os \<Rightarrow> arguments \<Rightarrow> byte list \<Rightarrow> nat \<Rightarrow> nat \<Rightarrow> int \<Rightarrow> session list \<Rightarrow> io \<Rightarrow> (session list \<times> io) option" where
  "handle_tcp os args pkt len p uid ss w = do {
     version \<leftarrow> pkt_version pkt;
     h \<leftarrow> read_tcphdr pkt p;
     let off = tcp_data_off h p;
     let datalen = tcp_datalen h p len;
     hostname \<leftarrow> parse_tls_header (os_signed_char os) (drop off pkt) (unat datalen) [];
     redirect \<leftarrow> tcp_redirect args;
     saddr \<leftarrow> pkt_saddr version pkt;
     daddr \<leftarrow> pkt_daddr version pkt;
     if th_urg h then Some (ss, w)
     else case find (tcp_matches version h saddr daddr) ss of
       Some (Tcp s) \<Rightarrow> do {
         (s, w) \<leftarrow> tcp_packet_in os hostname pkt off datalen h s w;
         Some (replace_first (tcp_matches version h saddr daddr) (Tcp s) ss, w)
       }
     | _ \<Rightarrow>
         if th_syn h then tcp_syn os pkt len p uid h version redirect ss w
         else do { w \<leftarrow> tcp_unknown os pkt len p h version w; Some (ss, w) }
   }"

section \<open>The contract\<close>

lemma tcp_update_ok:
  assumes "tcp_good s w" "fds w' = fds w" "clean w' = clean w" "tcp_wf t"
    "socket_state (t_state t) (socket s)"
  shows "tcp_op_ok s w (s\<lparr>sess := t\<rparr>) w'"
  using assms by (simp add: tcp_op_ok_def own_fd_only_def tcp_good_def sock_ok_def)

lemma queue_packet_forward:
  "queue_packet pkt off datalen h t = Some t' \<Longrightarrow> \<exists>q. t' = t\<lparr>forward := q\<rparr>"
proof -
  assume *: "queue_packet pkt off datalen h t = Some t'"
  then have "t' = queue_tcp (th_seq h) (th_psh h) t
      (take (unat datalen) (drop off pkt @ replicate (unat datalen) 0))"
    by (simp add: queue_packet_def Let_def split: if_splits)
  then show ?thesis by (cases t) (auto simp: queue_tcp_def)
qed

lemma queue_packet_quiet:
  "queue_packet pkt off datalen h t = Some t' \<Longrightarrow> tcp_quiet t w t' w"
  by (drule queue_packet_forward) (auto simp: tcp_quiet_def)

lemma send_connect_ok:
  assumes "send_connect os hostname s w = Some (s', w')" "tcp_good s w"
  shows "tcp_op_ok s w s' w'"
proof -
  define name where "name = (if hostname = [] then lookup_hostname (t_daddr (sess s)) else hostname)"
  let ?t = "(sess s)\<lparr>t_hostname := name\<rparr>" and ?buf = "connect_request name (t_dest (sess s))"
  obtain sent e v where v: "sys_send os (socket s) ?buf False w = ((sent, e), v)" by (metis surj_pair)
  obtain t u where t: "write_rst os ?t v = (t, u)" by force
  have q: "tcp_quiet (sess s) w ?t v" using sys_send_frame [OF v] by (simp add: tcp_quiet_def)
  have sock: "0 \<le> sent \<Longrightarrow> 0 \<le> socket s"
    using v by (auto simp: sys_send_def Let_def split: if_splits)
  have q0: "tcp_quiet (sess s) w ?t w" by (simp add: tcp_quiet_def)
  let ?s = "s\<lparr>sess := ?t\<lparr>connect_sent := TCP_CONNECT_SENT, t_state := TCP_LISTEN\<rparr>\<rparr>"
  have "(s', w') \<in> {(s\<lparr>sess := ?t\<rparr>, w), (s\<lparr>sess := t\<rparr>, u)} \<or> 0 \<le> sent \<and> (s', w') = (?s, v)"
    using assms(1) unfolding send_connect_def name_def [symmetric]
    by (simp add: Let_def v t split: if_splits)
  moreover have "tcp_op_ok s w ?s v" if "0 \<le> sent"
    using sock [OF that] sys_send_frame [OF v] assms(2)
    by (intro tcp_update_ok [OF assms(2)]) (simp_all add: tcp_good_def socket_state_def)
  ultimately show ?thesis
    using tcp_quiet_op_ok [OF assms(2) q0] tcp_quiet_op_ok [OF assms(2) tcp_quiet_trans [OF q write_rst_quiet [OF t]]]
    by (elim disjE insertE conjE) simp_all
qed

lemma tcp_fin_ok:
  assumes "tcp_fin os (sess s) w = (t', w')" "tcp_good s w"
  shows "tcp_op_ok s w (s\<lparr>sess := t'\<rparr>) w'"
proof -
  obtain r t v where a: "write_ack os ((sess s)\<lparr>remote_seq := remote_seq (sess s) + 1\<rparr>) w = (r, t, v)"
    by (metis prod_cases3)
  note wt = writer_wrote(2) [OF a]
  show ?thesis
    using assms(1) wt assms(2) a
    by (intro tcp_update_ok [OF assms(2)])
       (auto simp: tcp_fin_def wrote_def tcp_good_def socket_state_def split: if_splits)
qed

lemma tcp_other_ack_ok:
  assumes "tcp_other_ack os ack s w = (s', w')" "tcp_good s w"
  shows "tcp_op_ok s w s' w'"
proof -
  let ?k = "if t_state (sess s) = TCP_ESTABLISHED then sys_setsockopt (socket s) ''SO_KEEPALIVE'' w else w"
  obtain t u where t: "write_rst os (sess s) w = (t, u)" by force
  have k: "tcp_quiet (sess s) w (sess s) ?k" by (simp add: tcp_quiet_def)
  have a: "tcp_quiet (sess s) w ((sess s)\<lparr>acked := ack\<rparr>) w" by (simp add: tcp_quiet_def)
  have "tcp_other_ack os ack s w \<in> {(s\<lparr>sess := sess s\<rparr>, ?k), (s, w), (s\<lparr>sess := (sess s)\<lparr>acked := ack\<rparr>\<rparr>, w), (s\<lparr>sess := t\<rparr>, u)}"
    by (simp add: tcp_other_ack_def Let_def t)
  then have "(s', w') \<in> {(s\<lparr>sess := sess s\<rparr>, ?k), (s, w), (s\<lparr>sess := (sess s)\<lparr>acked := ack\<rparr>\<rparr>, w), (s\<lparr>sess := t\<rparr>, u)}"
    by (simp only: assms(1))
  then show ?thesis
    using tcp_quiet_op_ok [OF assms(2) k] tcp_op_ok_refl [OF assms(2)] tcp_quiet_op_ok [OF assms(2) a]
      tcp_quiet_op_ok [OF assms(2) write_rst_quiet [OF t]]
    by (elim insertE emptyE) simp_all
qed

lemma tcp_flags_in_ok:
  assumes "tcp_flags_in os h s w = (s', w')" "tcp_good s w"
  shows "tcp_op_ok s w s' w'"
proof -
  let ?c = "(sess s)\<lparr>t_state := TCP_CLOSING\<rparr>"
  obtain t u where t: "tcp_fin os (sess s) w = (t, u)" by force
  obtain s2 w2 where o: "tcp_other_ack os (th_ack_seq h) s w = (s2, w2)" by force
  have c: "tcp_op_ok s w (s\<lparr>sess := ?c\<rparr>) w"
    by (intro tcp_quiet_op_ok [OF assms(2)]) (simp add: tcp_quiet_def)
  have a: "tcp_op_ok s w (s\<lparr>sess := tcp_acknowledge n (sess s)\<rparr>) w" for n
    using assms(2) by (intro tcp_update_ok [OF assms(2)])
      (auto simp: tcp_acknowledge_def Let_def tcp_good_def socket_state_def)
  have "case tcp_flags_in os h s w of (x, y) \<Rightarrow> tcp_op_ok s w x y"
    by (simp add: tcp_flags_in_def t o c a tcp_op_ok_refl [OF assms(2)] tcp_fin_ok [OF t assms(2)]
        tcp_other_ack_ok [OF o assms(2)])
  then show ?thesis by (simp only: assms(1) prod.case)
qed

lemma tcp_found_ok:
  assumes "tcp_found os pkt off datalen h s w = Some (s', w')" "tcp_good s w"
  shows "tcp_op_ok s w s' w'"
proof (cases "closing_state (t_state (sess s))")
  case True
  obtain t u where t: "write_rst os (sess s) w = (t, u)" by force
  with True assms(1) have "s' = s\<lparr>sess := t\<rparr>" "w' = u" by (simp_all add: tcp_found_def)
  then show ?thesis using tcp_quiet_op_ok [OF assms(2) write_rst_quiet [OF t]] by simp
next
  case False
  then have scale: "\<not> unat (send_scale (sess s)) \<ge> 32" using assms(1) by (auto simp: tcp_found_def)
  obtain now v where n: "sys_time os w = (now, v)" by force
  let ?t = "(sess s)\<lparr>t_time := now, send_window := push_bit (unat (send_scale (sess s))) (ucast (th_window h))\<rparr>"
  have q: "tcp_quiet (sess s) w ?t v" using sys_time_frame [OF n] by (simp add: tcp_quiet_def)
  show ?thesis
  proof (cases "datalen \<noteq> 0 \<and> (socket s < 0 \<or> t_state ?t = TCP_CLOSE_WAIT)")
    case True
    obtain t u where t: "write_rst os ?t v = (t, u)" by force
    with True scale False assms(1) n have "s' = s\<lparr>sess := t\<rparr>" "w' = u" by (auto simp: tcp_found_def Let_def)
    then show ?thesis using tcp_quiet_op_ok [OF assms(2) tcp_quiet_trans [OF q write_rst_quiet [OF t]]] by simp
  next
    case nr: False
    then obtain t where t: "(if datalen \<noteq> 0 then queue_packet pkt off datalen h ?t else Some ?t) = Some t"
      and f: "tcp_flags_in os h (s\<lparr>sess := t\<rparr>) v = (s', w')"
      using scale False assms(1) n by (auto simp: tcp_found_def Let_def bind_Some_iff)
    have "tcp_quiet ?t v t v"
      using t queue_packet_quiet [of pkt off datalen h ?t t v] by (auto simp: tcp_quiet_def split: if_splits)
    then have o: "tcp_op_ok s w (s\<lparr>sess := t\<rparr>) v"
      using tcp_quiet_op_ok [OF assms(2) tcp_quiet_trans [OF q]] by blast
    then have "tcp_good (s\<lparr>sess := t\<rparr>) v" by (simp add: tcp_op_ok_def)
    from tcp_op_ok_trans [OF o tcp_flags_in_ok [OF f this]] show ?thesis .
  qed
qed

lemma tcp_packet_in_ok:
  assumes "tcp_packet_in os hostname pkt off datalen h s w = Some (s', w')" "tcp_good s w"
  shows "tcp_op_ok s w s' w'"
proof (cases "proxied_port (t_dest (sess s))")
  case False
  then show ?thesis using assms tcp_found_ok by (simp add: tcp_packet_in_def)
next
  case True
  then obtain s1 w1 where c: "send_connect os hostname s w = Some (s1, w1)"
    using assms(1) by (auto simp: tcp_packet_in_def bind_Some_iff)
  note o = send_connect_ok [OF c assms(2)]
  then have g: "tcp_good s1 w1" by (simp add: tcp_op_ok_def)
  show ?thesis
  proof (cases "connect_sent (sess s1) = TCP_CONNECT_ESTABLISHED")
    case True
    then have "tcp_found os pkt off datalen h s1 w1 = Some (s', w')"
      using assms(1) c \<open>proxied_port _\<close> by (simp add: tcp_packet_in_def)
    from tcp_op_ok_trans [OF o tcp_found_ok [OF this g]] show ?thesis .
  next
    case False
    then obtain t where "queue_packet pkt off datalen h (sess s1) = Some t" "s' = s1\<lparr>sess := t\<rparr>" "w' = w1"
      using assms(1) c \<open>proxied_port _\<close> by (auto simp: tcp_packet_in_def bind_Some_iff)
    then show ?thesis
      using tcp_op_ok_trans [OF o tcp_quiet_op_ok [OF g queue_packet_quiet]] by simp
  qed
qed

interpretation tcp_packet: session_op "\<lambda>s w. tcp_packet_in os hostname pkt off datalen h s w" tcp_good socket
  for os hostname pkt off datalen h
  by unfold_locales (use tcp_packet_in_ok in \<open>auto simp: tcp_op_ok_def tcp_good_def\<close>)

lemma handle_tcp_no_syn:
  assumes "read_tcphdr pkt p = Some h" "\<not> th_syn h" "handle_tcp os args pkt len p uid ss w = Some (ss', w')"
  shows "length ss' = length ss"
  using assms
  by (auto simp: handle_tcp_def bind_Some_iff Let_def split: if_splits option.splits session.splits)

section \<open>The options\<close>

text \<open>One pass of the loop over the options; \<open>tcp_options_loop\<close> is this body repeated.\<close>

type_synonym options_state = "nat \<times> int \<times> u16 \<times> byte"

fun tcp_options_pass :: "byte list \<Rightarrow> options_state \<Rightarrow> (options_state + u16 \<times> byte) option" where
  "tcp_options_pass pkt (i, optlen, mss, ws) =
     (if optlen > 0 then do {
        kind \<leftarrow> rd pkt i;
        len \<leftarrow> rd pkt (i + 1);
        if kind = 0 then Some (Inr (mss, ws))
        else do {
          (mss, ws) \<leftarrow>
            (if kind = 2 \<and> len = 4 then do { m \<leftarrow> rd_be16 pkt (i + 2); Some (m, ws) }
             else if kind = 3 \<and> len = 3 then do { s \<leftarrow> rd pkt (i + 2); Some (mss, s) }
             else Some (mss, ws));
          if kind = 1 then Some (Inl (i + 1, optlen - 1, mss, ws))
          else Some (Inl (i + unat len, optlen - uint len, mss, ws))
        }
      } else Some (Inr (mss, ws)))"

lemma tcp_options_loop_passes:
  "tcp_options_loop pkt i optlen mss ws =
     (case tcp_options_pass pkt (i, optlen, mss, ws) of
        None \<Rightarrow> None
      | Some (Inr r) \<Rightarrow> Some r
      | Some (Inl (i, optlen, mss, ws)) \<Rightarrow> tcp_options_loop pkt i optlen mss ws)"
  by (subst tcp_options_loop.simps) (simp split: bind_splits)

text \<open>At an option whose length is zero.\<close>

definition zero_option :: "byte list \<Rightarrow> nat \<Rightarrow> int \<Rightarrow> bool" where
  "zero_option pkt i optlen \<longleftrightarrow> 0 < optlen \<and> rd pkt (i + 1) = Some 0 \<and>
     (\<exists>kind. rd pkt i = Some kind \<and> kind \<noteq> 0 \<and> kind \<noteq> 1)"

lemma tcp_options_loop_no_zero:
  assumes "tcp_options_loop pkt i optlen mss ws = Some r"
  shows "\<not> zero_option pkt i optlen"
proof (induction rule: tcp_options_loop.raw_induct [rotated, OF assms])
  case (1 loop pkt i optlen mss ws r)
  show ?case
  proof
    assume s: "zero_option pkt i optlen"
    then have "loop pkt i optlen mss ws = Some r"
      using 1(2) by (auto simp: zero_option_def)
    from 1(1) [OF this] s show False by simp
  qed
qed

text \<open>C32: at an option that states the length zero the loop over the options of a SYN does not end,
  however many options follow: after any number of passes it stands at the same option, and no read
  has left the packet.\<close>

theorem tcp_options_zero_length:
  assumes "zero_option pkt i optlen"
  shows "tcp_options_loop pkt i optlen mss ws = None \<and>
    passes n (tcp_options_pass pkt) (i, optlen, mss, ws) = Some (Inl (i, optlen, mss, ws))"
proof -
  let ?x = "(i, optlen, mss, ws)"
  have "\<exists>y. passes n (tcp_options_pass pkt) ?x = Some (Inl y) \<and> y = ?x"
    by (rule passes_trapped) (use assms in \<open>auto simp: zero_option_def\<close>)
  then show ?thesis using tcp_options_loop_no_zero assms by (metis option.exhaust)
qed

theorem tcp_options_zero_length_witness:
  "tcp_options_loop [8, 0, 0, 0] 0 4 1460 0 = None \<and>
    passes 1000 (tcp_options_pass [8, 0, 0, 0]) (0, 4, 1460, 0) = Some (Inl (0, 4, 1460, 0))"
  by (rule tcp_options_zero_length) (simp add: zero_option_def rd_def)

text \<open>C37: the options of a SYN/ACK, read back by the code's own loop, give the window scale and the
  MSS with its bytes swapped (59430 instead of 9960 for IPv4).\<close>

theorem syn_ack_options:
  "tcp_options_loop (tcp_options cur @ x # rest) 0 8 mss ws =
     Some (if t_version cur = 4 then 0xE826 else 0xD426, recv_scale cur)"
proof -
  define m :: u16 where "m = (if t_version cur = 4 then 0xE826 else 0xD426)"
  define hi lo where "hi = (0x26 :: byte)" and "lo = (if t_version cur = 4 then 0xE8 else 0xD4 :: byte)"
  let ?pkt = "2 # 4 # lo # hi # 3 # 3 # recv_scale cur # 0 # x # rest"
  have p: "tcp_options cur @ x # rest = ?pkt"
    by (simp add: tcp_options_def le16_def get_default_mss_def get_mtu_def MTU_def lo_def hi_def)
  have m: "rd_be16 ?pkt 2 = Some m"
    by (simp add: rd_be16_def rd_def m_def lo_def hi_def)
  have 3: "tcp_options_loop ?pkt 7 1 m (recv_scale cur) = Some (m, recv_scale cur)"
    by (subst tcp_options_loop.simps) (simp add: rd_def)
  have 2: "tcp_options_loop ?pkt 4 4 m ws = Some (m, recv_scale cur)"
    by (subst tcp_options_loop.simps) (simp add: rd_def 3)
  show ?thesis unfolding p m_def [symmetric]
    by (subst tcp_options_loop.simps) (simp add: rd_def m m [unfolded numeral_2_eq_2] 2)
qed

section \<open>Reading back what \<open>write_tcp\<close> writes\<close>

text \<open>The header of a segment that is written.\<close>

definition header_of :: "tcp_session \<Rightarrow> bool \<Rightarrow> bool \<Rightarrow> bool \<Rightarrow> bool \<Rightarrow> tcphdr" where
  "header_of cur syn ack fin rst =
     \<lparr>th_source = t_dest cur, th_dest = t_source cur, th_seq = local_seq cur,
      th_ack_seq = (if ack then remote_seq cur else 0), th_doff = (if syn then 7 else 5),
      th_fin = fin, th_syn = syn, th_rst = rst, th_psh = False, th_ack = ack, th_urg = False,
      th_window = ucast (drop_bit (unat (recv_scale cur)) (recv_window cur))\<rparr>"

lemma tcp_segment_header:
  assumes "tcp_addrs cur"
  obtains ck rest where "tcp_segment cur data syn ack fin rst = tcp_header ck cur syn ack fin rst @ rest"
proof (cases "t_version cur = 4")
  case True
  obtain ck where p: "tcp_packet cur data syn ack fin rst =
       ip4_header (20 + (20 + (if syn then 8 else 0) + length data)) IPPROTO_TCP (t_daddr cur) (t_saddr cur) @
       tcp_header ck cur syn ack fin rst @ (if syn then tcp_options cur else []) @ data"
    using tcp_packet_v4 [OF assms True] by blast
  have "length (t_saddr cur) = 4" "length (t_daddr cur) = 4" using assms True by (simp_all add: tcp_addrs_def)
  then have "tcp_segment cur data syn ack fin rst =
      tcp_header ck cur syn ack fin rst @ (if syn then tcp_options cur else []) @ data"
    unfolding tcp_segment_def p using True by (simp add: wire)
  then show thesis by (rule that)
next
  case False
  obtain ck where p: "tcp_packet cur data syn ack fin rst =
       ip6_header (20 + (if syn then 8 else 0) + length data) IPPROTO_TCP (t_daddr cur) (t_saddr cur) @
       tcp_header ck cur syn ack fin rst @ (if syn then tcp_options cur else []) @ data"
    using tcp_packet_v6 [OF assms False] by blast
  have "length (t_saddr cur) = 16" "length (t_daddr cur) = 16" using assms False by (simp_all add: tcp_addrs_def)
  then have "tcp_segment cur data syn ack fin rst =
      tcp_header ck cur syn ack fin rst @ (if syn then tcp_options cur else []) @ data"
    unfolding tcp_segment_def p using False by (simp add: wire)
  then show thesis by (rule that)
qed

lemma tcp_flags_bits:
  "tcp_flags syn ack fin rst AND 1 \<noteq> 0 \<longleftrightarrow> fin" "tcp_flags syn ack fin rst AND 2 \<noteq> 0 \<longleftrightarrow> syn"
  "tcp_flags syn ack fin rst AND 4 \<noteq> 0 \<longleftrightarrow> rst" "tcp_flags syn ack fin rst AND 8 = 0"
  "tcp_flags syn ack fin rst AND 16 \<noteq> 0 \<longleftrightarrow> ack" "tcp_flags syn ack fin rst AND 32 = 0"
  "drop_bit 4 (if syn then 0x70 else 0x50 :: byte) = (if syn then 7 else 5)"
  by (cases syn; cases ack; cases fin; cases rst; simp add: tcp_flags_def)+

lemma read_tcp_header:
  assumes "hdr = tcp_header ck cur syn ack fin rst @ rest"
  shows "read_tcphdr hdr 0 = Some (header_of cur syn ack fin rst)"
proof -
  note f = tcp_header_fields [OF assms]
  show ?thesis
    by (simp add: read_tcphdr_def f f(2) [unfolded numeral_2_eq_2] header_of_def tcp_flags_bits)
qed

text \<open>C22: \<open>handle_tcp\<close> reads from a segment that \<open>write_tcp\<close> builds the ports, sequence numbers, flags,
  header length and window it was built from.\<close>

theorem tcp_header_round_trip:
  assumes "tcp_addrs cur"
  shows "read_tcphdr (tcp_segment cur data syn ack fin rst) 0 = Some (header_of cur syn ack fin rst)"
proof -
  obtain ck rest where s: "tcp_segment cur data syn ack fin rst = tcp_header ck cur syn ack fin rst @ rest"
    by (rule tcp_segment_header [OF assms])
  show ?thesis by (rule read_tcp_header [OF s])
qed

theorem tcp_header_round_trip_witness:
  "read_tcphdr (tcp_segment example_tcp [1, 2, 3] False True True False) 0 =
     Some (header_of example_tcp False True True False)"
  by (rule tcp_header_round_trip) (simp add: example_tcp_def tcp_addrs_def)

text \<open>The window of a session that is well formed loses nothing in the 16 bits of the header:
  the peer, scaling the field back, gets the window rounded down to the scale.\<close>

theorem window_not_truncated:
  assumes "tcp_wf cur"
  shows "unat (th_window (header_of cur syn ack fin rst)) * 2 ^ unat (recv_scale cur) =
    unat (recv_window cur) - unat (recv_window cur) mod 2 ^ unat (recv_scale cur)"
proof -
  let ?k = "unat (recv_scale cur)"
  have "unat (drop_bit ?k (recv_window cur)) \<le> 65535" using assms by (simp add: tcp_wf_def)
  then have "unat (ucast (drop_bit ?k (recv_window cur)) :: u16) = unat (drop_bit ?k (recv_window cur))"
    by (simp add: unsigned_ucast_eq take_bit_nat_eq_self)
  then have "unat (th_window (header_of cur syn ack fin rst)) = unat (recv_window cur) div 2 ^ ?k"
    by (simp add: header_of_def unat_drop)
  then show ?thesis by (simp add: minus_mod_eq_div_mult)
qed

theorem window_not_truncated_witness:
  "unat (th_window (header_of example_tcp False True False False)) * 2 ^ unat (recv_scale example_tcp) =
    unat (recv_window example_tcp) - unat (recv_window example_tcp) mod 2 ^ unat (recv_scale example_tcp)"
  by (rule window_not_truncated) (simp add: example_tcp_def tcp_wf_def tcp_addrs_def drop_bit_eq_div)

section \<open>The CONNECT request fits its buffer\<close>






end
