(* ===== verification/Tcp_Machine.thy ===== *)
theory Tcp_Machine
  imports Tcp_Handle
begin

text \<open>
  The state machine of a TCP session as a step relation on its state and on the progress of its
  CONNECT request, the invariants of the states it can reach, and the refinement: whatever
  \<open>handle_tcp\<close>, \<open>check_tcp_socket\<close>, \<open>check_tcp_session\<close> and \<open>monitor_tcp_session\<close> do to a session
  is a sequence of these steps.
\<close>

section \<open>The machine\<close>

type_synonym tcp_conf = "tcp_state \<times> connect_state"

definition talking :: "bool \<Rightarrow> connect_state \<Rightarrow> bool" where
  "talking proxied c \<longleftrightarrow> \<not> proxied \<or> c = TCP_CONNECT_ESTABLISHED"

inductive tcp_next :: "bool \<Rightarrow> tcp_conf \<Rightarrow> tcp_conf \<Rightarrow> bool" for proxied where
  connected: "tcp_next proxied (TCP_LISTEN, c) (TCP_SYN_RECV, c)"
| replied: "tcp_next proxied (TCP_LISTEN, TCP_CONNECT_SENT) (TCP_ESTABLISHED, TCP_CONNECT_ESTABLISHED)"
| acknowledged: "talking proxied c \<Longrightarrow> tcp_next proxied (TCP_SYN_RECV, c) (TCP_ESTABLISHED, c)"
| fin: "talking proxied c \<Longrightarrow> tcp_next proxied (TCP_ESTABLISHED, c) (TCP_CLOSE_WAIT, c)"
| eof: "tcp_next proxied (TCP_ESTABLISHED, c) (TCP_FIN_WAIT1, c)"
| eof_after_fin: "tcp_next proxied (TCP_CLOSE_WAIT, c) (TCP_LAST_ACK, c)"
| last_fin: "talking proxied c \<Longrightarrow> tcp_next proxied (TCP_FIN_WAIT1, c) (TCP_CLOSE, c)"
| reset: "st \<noteq> TCP_CLOSE \<Longrightarrow> tcp_next proxied (st, c) (TCP_CLOSING, c)"
| released: "tcp_next proxied (TCP_CLOSING, c) (TCP_CLOSE, c)"
| request: "proxied \<Longrightarrow> st \<noteq> TCP_CLOSE \<Longrightarrow>
    tcp_next proxied (st, TCP_CONNECT_NOT_SENT) (TCP_LISTEN, TCP_CONNECT_SENT)"

inductive_cases tcp_nextE: "tcp_next proxied (st, c) (st', c')"
inductive_simps tcp_next_from_close: "tcp_next proxied (TCP_CLOSE, c) y"
inductive_simps tcp_next_to_established: "tcp_next proxied x (TCP_ESTABLISHED, c)"

abbreviation tcp_steps :: "bool \<Rightarrow> tcp_conf \<Rightarrow> tcp_conf \<Rightarrow> bool" where
  "tcp_steps proxied \<equiv> (tcp_next proxied)\<^sup>*\<^sup>*"

definition tcp_start :: tcp_conf where
  "tcp_start = (TCP_LISTEN, TCP_CONNECT_NOT_SENT)"

section \<open>What can be reached\<close>

text \<open>A session that goes through the proxy exchanges data only after the proxy has answered; one
  that does not never sends a request; the three states the code has no transition to are never
  entered.\<close>

fun conf_inv :: "bool \<Rightarrow> tcp_conf \<Rightarrow> bool" where
  "conf_inv proxied (st, c) \<longleftrightarrow>
     (st \<in> {TCP_ESTABLISHED, TCP_CLOSE_WAIT, TCP_FIN_WAIT1, TCP_LAST_ACK} \<longrightarrow> talking proxied c) \<and>
     (\<not> proxied \<longrightarrow> c = TCP_CONNECT_NOT_SENT) \<and>
     st \<notin> {TCP_SYN_SENT, TCP_FIN_WAIT2, TCP_TIME_WAIT}"

lemma conf_inv_start: "conf_inv proxied tcp_start"
  by (simp add: tcp_start_def)

lemma conf_inv_next: "tcp_next proxied x y \<Longrightarrow> conf_inv proxied x \<Longrightarrow> conf_inv proxied y"
  by (induction rule: tcp_next.induct) (auto simp: talking_def)

lemma conf_inv_steps: "tcp_steps proxied x y \<Longrightarrow> conf_inv proxied x \<Longrightarrow> conf_inv proxied y"
  by (induction rule: rtranclp_induct) (auto intro: conf_inv_next)

text \<open>\<open>CLOSE\<close> is final.\<close>

lemma close_final: "tcp_steps proxied x y \<Longrightarrow> fst x = TCP_CLOSE \<Longrightarrow> y = x"
proof (induction rule: rtranclp_induct)
  case (step y z)
  then show ?case by (cases x) (auto simp: tcp_next_from_close)
qed simp

text \<open>A request is sent at most once.\<close>

fun request_rank :: "connect_state \<Rightarrow> nat" where
  "request_rank TCP_CONNECT_NOT_SENT = 0"
| "request_rank TCP_CONNECT_SENT = 1"
| "request_rank TCP_CONNECT_ESTABLISHED = 2"

lemma request_monotone: "tcp_steps proxied x y \<Longrightarrow> request_rank (snd x) \<le> request_rank (snd y)"
proof (induction rule: rtranclp_induct)
  case (step y z)
  have "request_rank (snd y) \<le> request_rank (snd z)" using step(2) by cases auto
  with step(3) show ?case by simp
qed simp

section \<open>The operations make these steps\<close>

definition tcp_conf :: "tcp_session \<Rightarrow> tcp_conf" where
  "tcp_conf t = (t_state t, connect_sent t)"

definition tcp_moves :: "tcp_session \<Rightarrow> tcp_session \<Rightarrow> bool" where
  "tcp_moves t t' \<longleftrightarrow> t_dest t' = t_dest t \<and> tcp_steps (proxied_port (t_dest t)) (tcp_conf t) (tcp_conf t')"

lemma tcp_moves_refl: "tcp_moves t t"
  by (simp add: tcp_moves_def)

lemma tcp_moves_trans: "tcp_moves t u \<Longrightarrow> tcp_moves u v \<Longrightarrow> tcp_moves t v"
  by (auto simp: tcp_moves_def)

text \<open>Nothing of interest changes, or the session is reset.\<close>

lemma tcp_moves_same:
  "t_dest t' = t_dest t \<Longrightarrow> t_state t' = t_state t \<Longrightarrow> connect_sent t' = connect_sent t \<Longrightarrow> tcp_moves t t'"
  by (simp add: tcp_moves_def tcp_conf_def)

lemma tcp_moves_step:
  "t_dest t' = t_dest t \<Longrightarrow> tcp_next (proxied_port (t_dest t)) (tcp_conf t) (tcp_conf t') \<Longrightarrow> tcp_moves t t'"
  by (simp add: tcp_moves_def)

lemma tcp_moves_reset:
  assumes "t_dest t' = t_dest t" "connect_sent t' = connect_sent t" "t_state t \<noteq> TCP_CLOSE"
    "t_state t' = TCP_CLOSING"
  shows "tcp_moves t t'"
  using assms reset [OF assms(3)] by (intro tcp_moves_step) (simp_all add: tcp_conf_def)

lemma write_rst_moves: "write_rst os t w = (t', w') \<Longrightarrow> tcp_moves t t'"
  using write_rst_eq [of os t w t' w']
  by (cases "t_state t = TCP_CLOSE") (simp_all add: tcp_moves_same tcp_moves_reset)

lemma wrote_moves: "wrote r t w t' w' \<Longrightarrow> t_state t \<noteq> TCP_CLOSE \<Longrightarrow> tcp_moves t t'"
  by (auto simp: wrote_def tcp_moves_refl tcp_moves_reset)

lemma tcp_quiet_moves: "tcp_quiet t w t' w' \<Longrightarrow> t_state t \<noteq> TCP_CLOSE \<Longrightarrow> tcp_moves t t'"
  unfolding tcp_quiet_def by (elim conjE disjE) (simp_all add: tcp_moves_same tcp_moves_reset)

lemma good_not_close: "tcp_good s w \<Longrightarrow> 0 \<le> socket s \<Longrightarrow> t_state (sess s) \<noteq> TCP_CLOSE"
  by (auto simp: tcp_good_def socket_state_def)

subsection \<open>Periodic check and monitoring\<close>

lemma tcp_expire_moves:
  assumes "tcp_expire os now timeout s w = (s', w')"
  shows "tcp_moves (sess s) (sess s')"
proof -
  obtain t u where t: "write_rst os (sess s) w = (t, u)" by force
  have "tcp_moves (sess s) ((sess s)\<lparr>t_state := TCP_CLOSING\<rparr>)" if "t_state (sess s) = TCP_LISTEN"
    using that by (simp add: tcp_moves_reset)
  then have "case tcp_expire os now timeout s w of (x, y) \<Rightarrow> tcp_moves (sess s) (sess x)"
    using write_rst_moves [OF t] by (simp add: tcp_expire_def t tcp_moves_refl)
  then show ?thesis by (simp only: assms prod.case)
qed

lemma tcp_close_socket_moves:
  assumes "tcp_close_socket os s w = (s', w')"
  shows "tcp_moves (sess s) (sess s')"
proof (cases "t_state (sess s) = TCP_CLOSING")
  case True
  then have "\<exists>n. sess s' = (sess s)\<lparr>t_time := n, t_state := TCP_CLOSE\<rparr>"
    using assms by (auto simp: tcp_close_socket_def Let_def split: prod.splits if_splits)
  then show ?thesis
    using True released by (auto intro!: tcp_moves_step simp: tcp_conf_def)
next
  case False
  then show ?thesis using assms by (simp add: tcp_close_socket_def tcp_moves_refl)
qed

lemma check_tcp_session_moves:
  assumes "check_tcp_session os s n m w = Some (del, s', w')"
  shows "tcp_moves (sess s) (sess s')"
proof -
  obtain now w0 where t: "sys_time os w = (now, w0)" by force
  obtain timeout where to: "get_tcp_timeout (sess s) n m = Some timeout"
    using assms by (auto simp: check_tcp_session_def t bind_Some_iff)
  obtain s1 w1 where e: "tcp_expire os now timeout s w0 = (s1, w1)" by force
  obtain s2 w2 where c: "tcp_close_socket os s1 w1 = (s2, w2)" by force
  have "sess s' = tcp_reset_counts (sess s2)" using assms by (auto simp: check_tcp_session_def t to e c)
  then have "tcp_moves (sess s2) (sess s')"
    by (simp add: tcp_moves_same tcp_reset_counts_def)
  with tcp_expire_moves [OF e] tcp_close_socket_moves [OF c] show ?thesis using tcp_moves_trans by blast
qed

lemma tcp_keep_alive_moves:
  assumes "tcp_keep_alive os t w = (t', w')" "t_state t \<noteq> TCP_CLOSE"
  shows "tcp_moves t t'"
proof -
  obtain ms v where m: "sys_ms os w = (ms, v)" by force
  let ?t = "t\<lparr>last_keep_alive := ms, remote_seq := remote_seq t - 1\<rparr>"
  obtain r u x where a: "write_ack os ?t v = (r, u, x)" by (metis prod_cases3)
  have "tcp_moves t ?t" "tcp_moves ?t u" "tcp_moves u (u\<lparr>remote_seq := remote_seq u + 1\<rparr>)"
    using wrote_moves [OF writer_wrote(2) [OF a]] assms(2) by (simp_all add: tcp_moves_same)
  then have "tcp_moves t (u\<lparr>remote_seq := remote_seq u + 1\<rparr>)" using tcp_moves_trans by blast
  then have "case tcp_keep_alive os t w of (x, y) \<Rightarrow> tcp_moves t x"
    by (simp add: tcp_keep_alive_def m a Let_def tcp_moves_refl)
  then show ?thesis by (simp only: assms prod.case)
qed

lemma monitor_tcp_session_moves:
  assumes "monitor_tcp_session os s w = (recheck, s', w')" "tcp_good s w" "0 \<le> socket s"
  shows "tcp_moves (sess s) (sess s')"
proof -
  have nc: "t_state (sess s) \<noteq> TCP_CLOSE" using good_not_close assms(2,3) by blast
  obtain r ev s1 w1 where m: "monitor_events os s w = (r, ev, s1, w1)" by (metis prod_cases4)
  obtain t v where k: "tcp_keep_alive os (sess s) w = (t, v)" by force
  have m1: "tcp_moves (sess s) (sess s1)"
    using m tcp_keep_alive_moves [OF k nc]
    by (auto simp: monitor_events_def k tcp_moves_refl Let_def split: if_splits prod.splits)
  note g1 = monitor_events_effect [OF m assms(2)]
  have "t_state (sess s1) \<noteq> TCP_CLOSE" using good_not_close g1 assms(3) by metis
  then have c: "tcp_moves (sess s1) ((sess s1)\<lparr>t_state := TCP_CLOSING\<rparr>)" by (simp add: tcp_moves_reset)
  obtain ok w2 where "sys_epoll_mod os (socket s1) ev w1 = (ok, w2)" by force
  then have "case monitor_tcp_session os s w of (r, x, y) \<Rightarrow> tcp_moves (sess s1) (sess x)"
    using c by (simp add: monitor_tcp_session_def m Let_def tcp_moves_refl)
  then have "tcp_moves (sess s1) (sess s')" by (simp only: assms prod.case)
  then show ?thesis using m1 tcp_moves_trans by blast
qed

subsection \<open>Socket events\<close>

lemma tcp_connect_reply_moves:
  assumes "tcp_connect_reply os s w = (s', w')" "t_state (sess s) = TCP_LISTEN"
  shows "tcp_moves (sess s) (sess s')"
proof -
  obtain r v where r: "sys_recv_stream (socket s) 12 w = (r, v)" by force
  obtain t u where t: "write_rst os (sess s) v = (t, u)" by force
  have rep: "tcp_moves (sess s) ((sess s)\<lparr>connect_sent := TCP_CONNECT_ESTABLISHED, t_state := TCP_ESTABLISHED\<rparr>)"
    if "connect_sent (sess s) = TCP_CONNECT_SENT"
    using that assms(2) replied by (intro tcp_moves_step) (simp_all add: tcp_conf_def)
  have "case tcp_connect_reply os s w of (x, y) \<Rightarrow> tcp_moves (sess s) (sess x)"
    using rep write_rst_moves [OF t] by (cases r) (simp_all add: tcp_connect_reply_def r t)
  then show ?thesis by (simp only: assms(1) prod.case)
qed

lemma tcp_connected_moves:
  assumes "tcp_connected os s w = (s', w')" "t_state (sess s) = TCP_LISTEN"
  shows "tcp_moves (sess s) (sess s')"
proof -
  let ?t = "(sess s)\<lparr>remote_seq := remote_seq (sess s) + 1\<rparr>"
  obtain r t v where t: "write_syn_ack os ?t w = (r, t, v)" by (metis prod_cases3)
  obtain now u where u: "sys_time os v = (now, u)" by force
  have w: "wrote r ?t w t v" using t by (rule writer_wrote)
  have m: "tcp_moves (sess s) t"
    using w assms(2) by (auto simp: wrote_def tcp_moves_same tcp_moves_reset)
  have "tcp_moves (sess s) (t\<lparr>t_time := now, local_seq := local_seq t + 1, t_state := TCP_SYN_RECV\<rparr>)" if "r \<ge> 0"
    using that w assms(2) connected by (intro tcp_moves_step) (auto simp: tcp_conf_def wrote_def)
  then have "case tcp_connected os s w of (x, y) \<Rightarrow> tcp_moves (sess s) (sess x)"
    using m by (simp add: tcp_connected_def t u Let_def)
  then show ?thesis by (simp only: assms(1) prod.case)
qed

text \<open>After an end of file the session waits for the last exchange, or is reset.\<close>

lemma tcp_eof_moves:
  assumes "tcp_eof os s w = (s', w')" "t_state (sess s) \<in> {TCP_ESTABLISHED, TCP_CLOSE_WAIT}"
  shows "tcp_moves (sess s) (sess s')"
proof -
  obtain r t v where f: "write_fin_ack os (sess s) w = (r, t, v)" by (metis prod_cases3)
  obtain t2 v2 where x: "write_rst os (sess s) w = (t2, v2)" by force
  have w: "wrote r (sess s) w t v" using f by (rule writer_wrote)
  define t1 where "t1 = (if r \<ge> 0 then t\<lparr>local_seq := local_seq t + 1\<rparr> else t)"
  have m1: "tcp_moves (sess s) t1" using w assms(2) by (auto simp: t1_def wrote_def tcp_moves_same tcp_moves_reset)
  define t3 where "t3 = (if t_state t1 = TCP_ESTABLISHED then t1\<lparr>t_state := TCP_FIN_WAIT1\<rparr>
      else if t_state t1 = TCP_CLOSE_WAIT then t1\<lparr>t_state := TCP_LAST_ACK\<rparr> else t1)"
  have "tcp_moves t1 t3"
    using eof eof_after_fin by (auto intro!: tcp_moves_step simp: t3_def tcp_conf_def tcp_moves_refl)
  with m1 have "tcp_moves (sess s) t3" by (rule tcp_moves_trans)
  then have "case tcp_eof os s w of (x, y) \<Rightarrow> tcp_moves (sess s) (sess x)"
    using write_rst_moves [OF x]
    by (auto simp: tcp_eof_def f x Let_def t1_def [symmetric] t3_def split: if_splits)
  then show ?thesis by (simp only: assms(1) prod.case)
qed

lemma tcp_received_moves:
  assumes "tcp_received os s r w = (s', w')" "t_state (sess s) \<in> {TCP_ESTABLISHED, TCP_CLOSE_WAIT}"
  shows "tcp_moves (sess s) (sess s')"
proof (cases r)
  case (Rx_Err e)
  obtain t x where x: "write_rst os (sess s) w = (t, x)" by force
  have "case tcp_received os s r w of (x, y) \<Rightarrow> tcp_moves (sess s) (sess x)"
    using write_rst_moves [OF x] by (simp add: tcp_received_def Rx_Err x tcp_moves_refl)
  then show ?thesis by (simp only: assms(1) prod.case)
next
  case (Rx_Data bytes)
  let ?t = "(sess s)\<lparr>t_received := t_received (sess s) + of_nat (length bytes)\<rparr>"
  obtain res t x where x: "write_data os ?t bytes w = (res, t, x)" by (metis prod_cases3)
  have "tcp_moves ?t t" using wrote_moves [OF writer_wrote(3) [OF x]] assms(2) by auto
  moreover have "tcp_moves (sess s) ?t" "tcp_moves t (t\<lparr>local_seq := q\<rparr>)" for q
    by (simp_all add: tcp_moves_same)
  ultimately have m: "tcp_moves (sess s) t" "tcp_moves (sess s) (t\<lparr>local_seq := q\<rparr>)" for q
    using tcp_moves_trans by blast+
  obtain s2 w2 where e: "tcp_eof os s w = (s2, w2)" by force
  have "case tcp_received os s r w of (x, y) \<Rightarrow> tcp_moves (sess s) (sess x)"
    using m tcp_eof_moves [OF e assms(2)] by (simp add: tcp_received_def Rx_Data x e Let_def)
  then show ?thesis by (simp only: assms(1) prod.case)
qed

lemma tcp_read_moves:
  assumes "tcp_read os events s w = (s', w')"
  shows "tcp_moves (sess s) (sess s')"
proof -
  obtain now v where n: "sys_time os w = (now, v)" by force
  let ?s = "s\<lparr>sess := (sess s)\<lparr>t_time := now\<rparr>\<rparr>"
  obtain r u where r: "sys_recv_stream (socket s) (read_size (get_send_window (sess s)) (t_mss (sess s))) v = (r, u)"
    by force
  obtain s2 w2 where d: "tcp_received os ?s r u = (s2, w2)" by force
  have "tcp_moves (sess s) (sess s2)" if "t_state (sess s) = TCP_ESTABLISHED \<or> t_state (sess s) = TCP_CLOSE_WAIT"
  proof -
    have "tcp_moves (sess ?s) (sess s2)" using tcp_received_moves [OF d] that by auto
    moreover have "tcp_moves (sess s) (sess ?s)" by (simp add: tcp_moves_same)
    ultimately show ?thesis using tcp_moves_trans by blast
  qed
  then have "case tcp_read os events s w of (x, y) \<Rightarrow> tcp_moves (sess s) (sess x)"
    by (simp add: tcp_read_def n r d Let_def tcp_moves_refl)
  then show ?thesis by (simp only: assms prod.case)
qed

lemma tcp_forward_moves:
  assumes "tcp_forward os events s w = Some (fwd, s', w')" "t_state (sess s) \<noteq> TCP_CLOSE"
  shows "tcp_moves (sess s) (sess s')"
proof (cases "events AND EPOLLOUT \<noteq> 0")
  case False
  then show ?thesis using assms(1) by (simp add: tcp_forward_def tcp_moves_refl)
next
  case True
  obtain b v where b: "get_receive_buffer os s w = (b, v)" by force
  obtain t where f: "forward_data os (socket s) (forward (sess s)) (sess s) (word_of_int b) False v = Some (fwd, t, w')"
    and s': "s' = s\<lparr>sess := t\<rparr>"
    using assms(1) True b by (auto simp: tcp_forward_def bind_Some_iff)
  then show ?thesis using tcp_quiet_moves [OF forward_data_quiet [OF f] assms(2)] by simp
qed

lemma check_tcp_socket_moves:
  assumes "check_tcp_socket os events s w = Some (s', w')" "tcp_good s w" "0 \<le> socket s"
  shows "tcp_moves (sess s) (sess s')"
proof (cases "events AND EPOLLERR \<noteq> 0")
  case True
  obtain now v where n: "sys_time os w = (now, v)" by force
  obtain t u where t: "write_rst os ((sess s)\<lparr>t_time := now\<rparr>) v = (t, u)" by force
  have "tcp_moves (sess s) ((sess s)\<lparr>t_time := now\<rparr>)" by (simp add: tcp_moves_same)
  from tcp_moves_trans [OF this write_rst_moves [OF t]] show ?thesis
    using assms(1) True n t by (auto simp: check_tcp_socket_def)
next
  case noerr: False
  show ?thesis
  proof (cases "t_state (sess s) = TCP_LISTEN")
    case True
    then show ?thesis
      using assms(1) noerr tcp_connect_reply_moves [OF _ True] tcp_connected_moves [OF _ True]
      by (auto simp: check_tcp_socket_def split: if_splits)
  next
    case False
    then obtain fwd s1 w1 where f: "tcp_forward os events s w = Some (fwd, s1, w1)"
      using assms(1) noerr by (auto simp: check_tcp_socket_def bind_Some_iff)
    obtain s2 w2 where a: "tcp_ack_forwarded os fwd s1 w1 = (s2, w2)" by force
    have r: "tcp_read os events s2 w2 = (s', w')"
      using assms(1) noerr False f a by (simp add: check_tcp_socket_def)
    have nc: "t_state (sess s) \<noteq> TCP_CLOSE" using good_not_close assms(2,3) by blast
    have "tcp_good s1 w1" "0 \<le> socket s1" using tcp_forward_ok [OF f assms(2)] assms(3) by (auto simp: tcp_op_ok_def)
    then have nc1: "t_state (sess s1) \<noteq> TCP_CLOSE" using good_not_close by blast
    have "tcp_moves (sess s1) (sess s2)"
      using tcp_ack_forwarded_quiet [OF a] tcp_quiet_moves [OF _ nc1] by auto
    with tcp_forward_moves [OF f nc] tcp_read_moves [OF r] show ?thesis using tcp_moves_trans by blast
  qed
qed

subsection \<open>Packets\<close>

lemma send_connect_moves:
  assumes "send_connect os hostname s w = Some (s', w')" "tcp_good s w" "proxied_port (t_dest (sess s))"
  shows "tcp_moves (sess s) (sess s')"
proof -
  define name where "name = (if hostname = [] then lookup_hostname (t_daddr (sess s)) else hostname)"
  let ?t = "(sess s)\<lparr>t_hostname := name\<rparr>" and ?buf = "connect_request name (t_dest (sess s))"
  obtain sent e v where v: "sys_send os (socket s) ?buf False w = ((sent, e), v)" by (metis surj_pair)
  obtain t u where t: "write_rst os ?t v = (t, u)" by force
  have same: "tcp_moves (sess s) ?t" by (simp add: tcp_moves_same)
  have rst: "tcp_moves (sess s) t" using tcp_moves_trans [OF same write_rst_moves [OF t]] .
  have req: "tcp_moves (sess s) (?t\<lparr>connect_sent := TCP_CONNECT_SENT, t_state := TCP_LISTEN\<rparr>)"
    if "0 \<le> sent" "connect_sent (sess s) = TCP_CONNECT_NOT_SENT"
  proof -
    have "0 \<le> socket s" using v that by (auto simp: sys_send_def Let_def split: if_splits)
    then have "t_state (sess s) \<noteq> TCP_CLOSE" using good_not_close assms(2) by blast
    then show ?thesis
      using request [OF assms(3)] that(2) by (intro tcp_moves_step) (simp_all add: tcp_conf_def)
  qed
  have "case send_connect os hostname s w of None \<Rightarrow> True | Some (x, y) \<Rightarrow> tcp_moves (sess s) (sess x)"
    unfolding send_connect_def name_def [symmetric] using same rst req by (simp add: Let_def v t)
  then show ?thesis by (simp add: assms(1))
qed

lemma tcp_fin_moves:
  assumes "tcp_fin os t w = (t', w')" "talking (proxied_port (t_dest t)) (connect_sent t)"
  shows "tcp_moves t t'"
proof -
  let ?t = "t\<lparr>remote_seq := remote_seq t + 1\<rparr>"
  obtain r u v where a: "write_ack os ?t w = (r, u, v)" by (metis prod_cases3)
  have w: "wrote r ?t w u v" using a by (rule writer_wrote)
  have m: "tcp_moves t u" if "t_state t \<noteq> TCP_CLOSE"
    using w that by (auto simp: wrote_def tcp_moves_same tcp_moves_reset)
  have cw: "tcp_moves t (u\<lparr>t_state := TCP_CLOSE_WAIT\<rparr>)" if "t_state t = TCP_ESTABLISHED" "0 \<le> r"
    using that w assms(2) fin by (intro tcp_moves_step) (auto simp: wrote_def tcp_conf_def)
  have cw2: "tcp_moves t (t\<lparr>t_state := TCP_CLOSE_WAIT\<rparr>)" if "t_state t = TCP_ESTABLISHED"
    using that assms(2) fin by (intro tcp_moves_step) (simp_all add: tcp_conf_def)
  have cl: "tcp_moves t (u\<lparr>t_state := TCP_CLOSE\<rparr>)" if "t_state t = TCP_FIN_WAIT1" "0 \<le> r"
    using that w assms(2) last_fin by (intro tcp_moves_step) (auto simp: wrote_def tcp_conf_def)
  have "case tcp_fin os t w of (x, y) \<Rightarrow> tcp_moves t x"
    using m cw cw2 cl by (simp add: tcp_fin_def a Let_def tcp_moves_refl)
  then show ?thesis by (simp only: assms prod.case)
qed

lemma tcp_acknowledge_moves:
  assumes "talking (proxied_port (t_dest t)) (connect_sent t)"
  shows "tcp_moves t (tcp_acknowledge ack t)"
proof -
  have "tcp_moves t (t\<lparr>acked := ack, t_state := TCP_ESTABLISHED\<rparr>)" if "t_state t = TCP_SYN_RECV"
    using that assms acknowledged by (intro tcp_moves_step) (simp_all add: tcp_conf_def)
  then show ?thesis by (simp add: tcp_acknowledge_def Let_def tcp_moves_same tcp_moves_reset)
qed

lemma tcp_flags_in_moves:
  assumes "tcp_flags_in os h s w = (s', w')" "t_state (sess s) \<noteq> TCP_CLOSE"
    "talking (proxied_port (t_dest (sess s))) (connect_sent (sess s))"
  shows "tcp_moves (sess s) (sess s')"
proof -
  obtain t u where t: "tcp_fin os (sess s) w = (t, u)" by force
  obtain t2 u2 where x: "write_rst os (sess s) w = (t2, u2)" by force
  have o: "case tcp_other_ack os ack s w of (x, y) \<Rightarrow> tcp_moves (sess s) (sess x)" for ack
    using write_rst_moves [OF x] by (simp add: tcp_other_ack_def Let_def x tcp_moves_refl tcp_moves_same)
  have "tcp_moves (sess s) ((sess s)\<lparr>t_state := TCP_CLOSING\<rparr>)" using assms(2) by (simp add: tcp_moves_reset)
  then have "case tcp_flags_in os h s w of (x, y) \<Rightarrow> tcp_moves (sess s) (sess x)"
    using tcp_fin_moves [OF t assms(3)] tcp_acknowledge_moves [OF assms(3)] o
    by (simp add: tcp_flags_in_def t tcp_moves_refl)
  then show ?thesis by (simp only: assms prod.case)
qed

lemma tcp_found_moves:
  assumes "tcp_found os pkt off datalen h s w = Some (s', w')"
    "talking (proxied_port (t_dest (sess s))) (connect_sent (sess s))"
  shows "tcp_moves (sess s) (sess s')"
proof (cases "closing_state (t_state (sess s))")
  case True
  obtain t u where t: "write_rst os (sess s) w = (t, u)" by force
  with True assms(1) write_rst_moves [OF t] show ?thesis by (auto simp: tcp_found_def)
next
  case False
  then have scale: "\<not> unat (send_scale (sess s)) \<ge> 32" using assms(1) by (auto simp: tcp_found_def)
  have nc: "t_state (sess s) \<noteq> TCP_CLOSE" using False by (simp add: closing_state_def)
  obtain now v where n: "sys_time os w = (now, v)" by force
  let ?t = "(sess s)\<lparr>t_time := now, send_window := push_bit (unat (send_scale (sess s))) (ucast (th_window h))\<rparr>"
  have same: "tcp_moves (sess s) ?t" by (simp add: tcp_moves_same)
  show ?thesis
  proof (cases "datalen \<noteq> 0 \<and> (socket s < 0 \<or> t_state ?t = TCP_CLOSE_WAIT)")
    case True
    obtain t u where t: "write_rst os ?t v = (t, u)" by force
    with True scale False assms(1) n have "sess s' = t" by (auto simp: tcp_found_def Let_def)
    then show ?thesis using tcp_moves_trans [OF same write_rst_moves [OF t]] by simp
  next
    case nr: False
    then obtain t where t: "(if datalen \<noteq> 0 then queue_packet pkt off datalen h ?t else Some ?t) = Some t"
      and f: "tcp_flags_in os h (s\<lparr>sess := t\<rparr>) v = (s', w')"
      using scale False assms(1) n by (auto simp: tcp_found_def Let_def bind_Some_iff)
    obtain q where "t = ?t \<or> t = ?t\<lparr>forward := q\<rparr>"
      using t queue_packet_forward [of pkt off datalen h ?t t] by (auto split: if_splits)
    then have e: "t_dest t = t_dest (sess s)" "t_state t = t_state (sess s)" "connect_sent t = connect_sent (sess s)"
      by auto
    then have "tcp_moves (sess (s\<lparr>sess := t\<rparr>)) (sess s')"
      using nc assms(2) by (intro tcp_flags_in_moves [OF f]) simp_all
    moreover have "tcp_moves (sess s) t" using e by (intro tcp_moves_same)
    ultimately show ?thesis using tcp_moves_trans by simp
  qed
qed

lemma tcp_packet_in_moves:
  assumes "tcp_packet_in os hostname pkt off datalen h s w = Some (s', w')" "tcp_good s w"
  shows "tcp_moves (sess s) (sess s')"
proof (cases "proxied_port (t_dest (sess s))")
  case False
  then show ?thesis using assms(1) tcp_found_moves by (simp add: tcp_packet_in_def talking_def)
next
  case True
  then obtain s1 w1 where c: "send_connect os hostname s w = Some (s1, w1)"
    using assms(1) by (auto simp: tcp_packet_in_def bind_Some_iff)
  note m = send_connect_moves [OF c assms(2) True]
  show ?thesis
  proof (cases "connect_sent (sess s1) = TCP_CONNECT_ESTABLISHED")
    case est: True
    then have "tcp_found os pkt off datalen h s1 w1 = Some (s', w')" using assms(1) c True by (simp add: tcp_packet_in_def)
    from tcp_moves_trans [OF m tcp_found_moves [OF this]] show ?thesis using est by (simp add: talking_def)
  next
    case False
    then obtain t where q: "queue_packet pkt off datalen h (sess s1) = Some t" and "s' = s1\<lparr>sess := t\<rparr>"
      using assms(1) c True by (auto simp: tcp_packet_in_def bind_Some_iff)
    moreover have "tcp_moves (sess s1) t" using queue_packet_forward [OF q] by (auto simp: tcp_moves_same)
    ultimately show ?thesis using tcp_moves_trans [OF m] by simp
  qed
qed

section \<open>The life of a session\<close>

text \<open>Everything that happens to a session: a packet of the app, an event of its socket, the choice of
  the events to wait for, the periodic check, and what the calls for other sessions do to the io
  state.\<close>

inductive tcp_life :: "os \<Rightarrow> tcp_session ng_session \<times> io \<Rightarrow> tcp_session ng_session \<times> io \<Rightarrow> bool" for os where
  packet: "tcp_packet_in os hostname pkt off datalen h s w = Some (s', w') \<Longrightarrow> tcp_life os (s, w) (s', w')"
| event: "0 \<le> socket s \<Longrightarrow> check_tcp_socket os events s w = Some (s', w') \<Longrightarrow> tcp_life os (s, w) (s', w')"
| monitored: "0 \<le> socket s \<Longrightarrow> monitor_tcp_session os s w = (recheck, s', w') \<Longrightarrow> tcp_life os (s, w) (s', w')"
| checked: "check_tcp_session os s n m w = Some (del, s', w') \<Longrightarrow> tcp_life os (s, w) (s', w')"
| others: "sock_ok (socket s) w' \<Longrightarrow> tcp_life os (s, w) (s, w')"

lemma tcp_life_step:
  "tcp_life os x y \<Longrightarrow> tcp_good (fst x) (snd x) \<Longrightarrow>
     tcp_good (fst y) (snd y) \<and> tcp_moves (sess (fst x)) (sess (fst y))"
proof (induction rule: tcp_life.induct)
  case (packet hostname pkt off datalen h s w s' w')
  then show ?case using tcp_packet_in_ok [OF packet(1)] tcp_packet_in_moves [OF packet(1)] by (simp add: tcp_op_ok_def)
next
  case (event s events w s' w')
  then show ?case using check_tcp_socket_ok [OF event(2)] check_tcp_socket_moves [OF event(2)] by (simp add: tcp_op_ok_def)
next
  case (monitored s w recheck s' w')
  then show ?case
    using monitor_tcp_session_effect [OF monitored(2)] monitor_tcp_session_moves [OF monitored(2)] by simp
next
  case (checked s n m w del s' w')
  then show ?case using check_tcp_session_effect [OF checked(1)] check_tcp_session_moves [OF checked(1)] by simp
next
  case (others s w' w)
  then show ?case using tcp_good_frame tcp_moves_refl by simp
qed

lemma tcp_life_steps:
  "(tcp_life os)\<^sup>*\<^sup>* x y \<Longrightarrow> tcp_good (fst x) (snd x) \<Longrightarrow>
     tcp_good (fst y) (snd y) \<and> tcp_moves (sess (fst x)) (sess (fst y))"
proof (induction rule: rtranclp_induct)
  case base
  then show ?case using tcp_moves_refl by simp
next
  case (step y z)
  then show ?case using tcp_life_step tcp_moves_trans by blast
qed

section \<open>The invariant of the automaton as part of the contracts\<close>

text \<open>What every operation keeps also of a session whose socket is closed already, where an event that
  is reported late may reset it once more.\<close>

definition conf_ok :: "tcp_session \<Rightarrow> bool" where
  "conf_ok t \<longleftrightarrow> conf_inv (proxied_port (t_dest t)) (tcp_conf t)"

definition tcp_ok :: "tcp_session ng_session \<Rightarrow> io \<Rightarrow> bool" where
  "tcp_ok s w \<longleftrightarrow> tcp_good s w \<and> conf_ok (sess s)"

lemma conf_ok_moves: "tcp_moves t t' \<Longrightarrow> conf_ok t \<Longrightarrow> conf_ok t'"
  unfolding conf_ok_def tcp_moves_def using conf_inv_steps by metis

lemma conf_ok_quiet: "tcp_quiet t w t' w' \<Longrightarrow> conf_ok t \<Longrightarrow> conf_ok t'"
proof -
  assume q: "tcp_quiet t w t' w'" and "conf_ok t"
  then have c: "conf_inv (proxied_port (t_dest t)) (t_state t, connect_sent t)" by (simp add: conf_ok_def tcp_conf_def)
  then have "conf_inv (proxied_port (t_dest t)) (TCP_CLOSING, connect_sent t)" by simp
  with c q show "conf_ok t'" unfolding conf_ok_def tcp_conf_def tcp_quiet_def by metis
qed

lemma conf_ok_same:
  "t_dest t' = t_dest t \<Longrightarrow> t_state t' = t_state t \<Longrightarrow> connect_sent t' = connect_sent t \<Longrightarrow> conf_ok t' = conf_ok t"
  by (simp add: conf_ok_def tcp_conf_def)

lemma tcp_forward_conf:
  assumes "tcp_forward os events s w = Some (fwd, s', w')" "conf_ok (sess s)"
  shows "conf_ok (sess s')"
proof (cases "events AND EPOLLOUT \<noteq> 0")
  case False
  then show ?thesis using assms by (simp add: tcp_forward_def)
next
  case True
  obtain b v where b: "get_receive_buffer os s w = (b, v)" by force
  obtain t where f: "forward_data os (socket s) (forward (sess s)) (sess s) (word_of_int b) False v = Some (fwd, t, w')"
    and s': "s' = s\<lparr>sess := t\<rparr>"
    using assms(1) True b by (auto simp: tcp_forward_def bind_Some_iff)
  then show ?thesis using conf_ok_quiet [OF forward_data_quiet [OF f] assms(2)] by simp
qed

lemma check_tcp_socket_conf:
  assumes "check_tcp_socket os events s w = Some (s', w')" "conf_ok (sess s)"
  shows "conf_ok (sess s')"
proof (cases "events AND EPOLLERR \<noteq> 0")
  case True
  obtain now v where n: "sys_time os w = (now, v)" by force
  obtain t u where t: "write_rst os ((sess s)\<lparr>t_time := now\<rparr>) v = (t, u)" by force
  have "conf_ok ((sess s)\<lparr>t_time := now\<rparr>)" using assms(2) by (simp add: conf_ok_def tcp_conf_def)
  from conf_ok_quiet [OF write_rst_quiet [OF t] this] show ?thesis
    using assms(1) True n t by (auto simp: check_tcp_socket_def)
next
  case noerr: False
  show ?thesis
  proof (cases "t_state (sess s) = TCP_LISTEN")
    case True
    then have "tcp_moves (sess s) (sess s')"
      using assms(1) noerr tcp_connect_reply_moves [OF _ True] tcp_connected_moves [OF _ True]
      by (auto simp: check_tcp_socket_def split: if_splits)
    then show ?thesis using conf_ok_moves assms(2) by blast
  next
    case False
    then obtain fwd s1 w1 where f: "tcp_forward os events s w = Some (fwd, s1, w1)"
      using assms(1) noerr by (auto simp: check_tcp_socket_def bind_Some_iff)
    obtain s2 w2 where a: "tcp_ack_forwarded os fwd s1 w1 = (s2, w2)" by force
    have r: "tcp_read os events s2 w2 = (s', w')"
      using assms(1) noerr False f a by (simp add: check_tcp_socket_def)
    have "conf_ok (sess s1)" using tcp_forward_conf [OF f assms(2)] .
    then have "conf_ok (sess s2)" using tcp_ack_forwarded_quiet [OF a] conf_ok_quiet by auto
    then show ?thesis using tcp_read_moves [OF r] conf_ok_moves by blast
  qed
qed

text \<open>The contracts of \<open>Contracts\<close> with this invariant, for the code that walks over the list.\<close>

lemma tcp_ok_op:
  assumes "session_op f tcp_good socket"
    "\<And>s w s' w'. tcp_good s w \<Longrightarrow> conf_ok (sess s) \<Longrightarrow> f s w = Some (s', w') \<Longrightarrow> conf_ok (sess s')"
  shows "session_op f tcp_ok socket"
proof unfold_locales
  fix s w w' assume "tcp_ok s w"
  then show "sock_ok (socket s) w" "sock_ok (socket s) w' \<Longrightarrow> tcp_ok s w'"
    by (auto simp: tcp_ok_def tcp_good_def)
next
  fix s w s' w' assume "tcp_ok s w" and f: "f s w = Some (s', w')"
  then have g: "tcp_good s w" "conf_ok (sess s)" by (simp_all add: tcp_ok_def)
  note session_op.op_inv [OF assms(1) g(1) f] assms(2) [OF g f]
  then show "tcp_ok s' w'" by (simp add: tcp_ok_def)
  show "own_fd_only (socket s) w (socket s') w'" using session_op.op_fd [OF assms(1) g(1) f] .
  show "clean w \<Longrightarrow> clean w'" using session_op.op_clean [OF assms(1) g(1) f] .
qed

interpretation life_packet: session_op "\<lambda>s w. tcp_packet_in os hostname pkt off datalen h s w" tcp_ok socket
  for os hostname pkt off datalen h
proof (rule tcp_ok_op)
  show "session_op (\<lambda>s w. tcp_packet_in os hostname pkt off datalen h s w) tcp_good socket" by unfold_locales
qed (use tcp_packet_in_moves conf_ok_moves in blast)

interpretation life_socket: session_op "\<lambda>s w. check_tcp_socket os events s w" tcp_ok socket for os events
proof (rule tcp_ok_op)
  show "session_op (\<lambda>s w. check_tcp_socket os events s w) tcp_good socket" by unfold_locales
qed (use check_tcp_socket_conf in blast)

interpretation life_check: session_check "\<lambda>s w. check_tcp_session os s n m w" tcp_ok socket for os n m
proof unfold_locales
  fix s w s' w' assume "tcp_ok s w" and c: "check_tcp_session os s n m w = Some (False, s', w')"
  then have g: "tcp_good s w" "conf_ok (sess s)" by (simp_all add: tcp_ok_def)
  show "tcp_ok s' w'"
    using tcp_check.check_inv [OF g(1) c] conf_ok_moves [OF check_tcp_session_moves [OF c] g(2)] by (simp add: tcp_ok_def)
next
  fix s w del s' w' assume "tcp_ok s w" and c: "check_tcp_session os s n m w = Some (del, s', w')"
  then have g: "tcp_good s w" by (simp add: tcp_ok_def)
  show "own_fd_only (socket s) w (socket s') w'" using tcp_check.check_fd [OF g c] .
  show "clean w \<Longrightarrow> clean w'" using tcp_check.check_clean [OF g c] .
next
  fix s w s' w' assume "tcp_ok s w" and c: "check_tcp_session os s n m w = Some (True, s', w')"
  then show "socket s' = - 1" using tcp_check.deleted_released [of s w] by (simp add: tcp_ok_def)
qed

text \<open>In the whole life of a TCP session that a SYN has started, the session stays well formed and its socket
  consistent with its state; a session on a port of the proxy that is established or past it has its
  request marked as answered, and one on another port never sends a request.\<close>

theorem tcp_life_safe:
  assumes "tcp_good s w" "tcp_conf (sess s) = tcp_start" "(tcp_life os)\<^sup>*\<^sup>* (s, w) (s', w')"
  shows "tcp_good s' w' \<and> t_dest (sess s') = t_dest (sess s) \<and>
    (t_state (sess s') \<in> {TCP_ESTABLISHED, TCP_CLOSE_WAIT, TCP_FIN_WAIT1, TCP_LAST_ACK} \<longrightarrow>
      proxied_port (t_dest (sess s)) \<longrightarrow> connect_sent (sess s') = TCP_CONNECT_ESTABLISHED) \<and>
    (\<not> proxied_port (t_dest (sess s)) \<longrightarrow> connect_sent (sess s') = TCP_CONNECT_NOT_SENT)"
proof -
  have m: "tcp_good s' w' \<and> tcp_moves (sess s) (sess s')" using tcp_life_steps [OF assms(3)] assms(1) by simp
  then have "conf_inv (proxied_port (t_dest (sess s))) (tcp_conf (sess s'))"
    using conf_inv_steps conf_inv_start assms(2) unfolding tcp_moves_def by metis
  then show ?thesis using m by (auto simp: tcp_conf_def tcp_moves_def talking_def)
qed

text \<open>A session that has just been registered, for the witness.\<close>

definition example_listen :: "tcp_session ng_session" where
  "example_listen = \<lparr>sid = 1, socket = 7, ev_events = 12, sess = example_tcp\<lparr>t_state := TCP_LISTEN\<rparr>\<rparr>"

lemma example_listen_good: "tcp_good example_listen (empty_io\<lparr>fds := [7]\<rparr>)"
  by (simp add: example_listen_def example_tcp_def tcp_good_def sock_ok_def socket_state_def tcp_wf_def tcp_addrs_def
      drop_bit_eq_div)

lemma example_listen_error:
  obtains t v where "tcp_life calm_os (example_listen, empty_io\<lparr>fds := [7]\<rparr>) (example_listen\<lparr>sess := t\<rparr>, v)"
    "t_state t \<noteq> TCP_LISTEN"
proof -
  let ?w = "empty_io\<lparr>fds := [7]\<rparr>"
  obtain t v where t: "write_rst calm_os ((sess example_listen)\<lparr>t_time := 1000\<rparr>) (step_io [] ?w) = (t, v)" by force
  have "check_tcp_socket calm_os EPOLLERR example_listen ?w = Some (example_listen\<lparr>sess := t\<rparr>, v)"
    using t by (simp add: check_tcp_socket_def EPOLLERR_def sys_time_def calm_os_def)
  then have "tcp_life calm_os (example_listen, ?w) (example_listen\<lparr>sess := t\<rparr>, v)"
    by (intro tcp_life.event) (simp_all add: example_listen_def)
  moreover have "t_state t \<noteq> TCP_LISTEN" using write_rst_eq [OF t] by simp
  ultimately show ?thesis by (rule that)
qed

text \<open>C9: the code refines the protocol automaton \<open>tcp_next\<close> of a session's state and of its CONNECT
  request: whatever one packet, socket event, monitoring or periodic check does to a good session, the
  pair of its state and its request moves along the automaton of its port, the request never goes back,
  and the session is good again and keeps its destination port.\<close>

theorem tcp_life_refines:
  assumes "tcp_good s w" "tcp_life os (s, w) (s', w')"
  shows "tcp_steps (proxied_port (t_dest (sess s))) (tcp_conf (sess s)) (tcp_conf (sess s')) \<and>
    request_rank (connect_sent (sess s)) \<le> request_rank (connect_sent (sess s')) \<and>
    tcp_good s' w' \<and> t_dest (sess s') = t_dest (sess s)"
proof -
  have m: "tcp_good s' w' \<and> tcp_moves (sess s) (sess s')" using tcp_life_step [OF assms(2)] assms(1) by simp
  then have r: "tcp_steps (proxied_port (t_dest (sess s))) (tcp_conf (sess s)) (tcp_conf (sess s'))"
    by (simp add: tcp_moves_def)
  from request_monotone [OF r] m r show ?thesis by (simp add: tcp_moves_def tcp_conf_def)
qed

theorem tcp_life_refines_witness:
  "\<exists>s' w'. tcp_life calm_os (example_listen, empty_io\<lparr>fds := [7]\<rparr>) (s', w') \<and> t_state (sess s') \<noteq> TCP_LISTEN \<and>
    tcp_steps False (TCP_LISTEN, TCP_CONNECT_NOT_SENT) (tcp_conf (sess s'))"
proof -
  obtain t v where l: "tcp_life calm_os (example_listen, empty_io\<lparr>fds := [7]\<rparr>) (example_listen\<lparr>sess := t\<rparr>, v)"
    and n: "t_state t \<noteq> TCP_LISTEN" by (rule example_listen_error)
  have "tcp_conf (sess example_listen) = (TCP_LISTEN, TCP_CONNECT_NOT_SENT)"
    "\<not> proxied_port (t_dest (sess example_listen))"
    by (simp_all add: example_listen_def example_tcp_def tcp_conf_def proxied_port_def)
  then show ?thesis
    using tcp_life_refines [OF example_listen_good l] l n
    by (intro exI [of _ "example_listen\<lparr>sess := t\<rparr>"] exI [of _ v]) simp
qed

text \<open>C27: a well-formed session that has reached \<open>CLOSE\<close> stays there, holds no socket and does not ask the proxy again, whatever
  packets and checks still find it until it is freed.\<close>

theorem tcp_close_final:
  assumes "tcp_good s w" "t_state (sess s) = TCP_CLOSE" "(tcp_life os)\<^sup>*\<^sup>* (s, w) (s', w')"
  shows "t_state (sess s') = TCP_CLOSE \<and> socket s' = - 1 \<and> connect_sent (sess s') = connect_sent (sess s)"
proof -
  have m: "tcp_good s' w' \<and> tcp_moves (sess s) (sess s')" using tcp_life_steps [OF assms(3)] assms(1) by simp
  then have "tcp_conf (sess s') = tcp_conf (sess s)"
    using close_final [of _ "tcp_conf (sess s)" "tcp_conf (sess s')"] assms(2) by (auto simp: tcp_moves_def tcp_conf_def)
  then show ?thesis using m assms(2) by (auto simp: tcp_conf_def tcp_good_def socket_state_def)
qed

text \<open>A session that is closed and not yet freed, and a FIN of the app for it, which is answered with a reset.\<close>

definition example_closed :: "tcp_session ng_session" where
  "example_closed = \<lparr>sid = 1, socket = - 1, ev_events = 8, sess = example_tcp\<lparr>t_state := TCP_CLOSE\<rparr>\<rparr>"

definition example_fin :: tcphdr where
  "example_fin = \<lparr>th_source = 40000, th_dest = 8443, th_seq = 1001, th_ack_seq = 7001, th_doff = 5, th_fin = True, th_syn = False,
     th_rst = False, th_psh = False, th_ack = True, th_urg = False, th_window = 512\<rparr>"

lemma write_rst_trace:
  "write_rst os t w = (t', w') \<Longrightarrow> \<exists>b r. trace w' = trace w @ [Tun_Write b r]"
  by (auto simp: write_rst_def write_tcp_def sys_tun_write_def Let_def split: prod.splits if_splits)

lemma example_closed_packet:
  obtains s' w' b r where "tcp_packet_in calm_os [] [] 0 0 example_fin example_closed empty_io = Some (s', w')"
    "trace w' = [Tun_Write b r]"
proof -
  obtain t v where t: "write_rst calm_os (sess example_closed) empty_io = (t, v)" by force
  then have "tcp_packet_in calm_os [] [] 0 0 example_fin example_closed empty_io = Some (example_closed\<lparr>sess := t\<rparr>, v)"
    by (simp add: tcp_packet_in_def tcp_found_def closing_state_def proxied_port_def example_closed_def example_tcp_def)
  then show ?thesis using that write_rst_trace [OF t] by (auto simp: empty_io_def)
qed

theorem tcp_close_final_witness:
  "\<exists>s' w' b r. tcp_packet_in calm_os [] [] 0 0 example_fin example_closed empty_io = Some (s', w') \<and>
    trace w' = [Tun_Write b r] \<and> t_state (sess s') = TCP_CLOSE \<and> socket s' = - 1"
proof -
  obtain s' w' b r where p: "tcp_packet_in calm_os [] [] 0 0 example_fin example_closed empty_io = Some (s', w')"
    "trace w' = [Tun_Write b r]" by (rule example_closed_packet)
  have g: "tcp_good example_closed empty_io" "t_state (sess example_closed) = TCP_CLOSE"
    by (simp_all add: example_closed_def example_tcp_def tcp_good_def sock_ok_def socket_state_def tcp_wf_def tcp_addrs_def drop_bit_eq_div)
  have "(tcp_life calm_os)\<^sup>*\<^sup>* (example_closed, empty_io) (s', w')"
    by (intro r_into_rtranclp tcp_life.packet [OF p(1)])
  from tcp_close_final [OF g this] p show ?thesis by blast
qed

end
