(* ===== verification/Dns.thy ===== *)
theory Dns
  imports Prelude
begin

text \<open>
  DNS messages (\<^verbatim>\<open>dns.c\<close>): reading a possibly compressed name, and the walks over a response
  and a query. \<open>None\<close> is a read outside the allocation, a write outside the name buffer, or a
  loop that does not end (compression pointers may form a cycle). The lemmas show that the name
  buffer is never overrun, that an uncompressed name reads back as its labels joined by dots, and
  that a pointer to itself keeps the loop running for ever.
\<close>

section \<open>Names\<close>

definition DNS_QNAME_MAX :: nat where "DNS_QNAME_MAX = 255"

definition dns_header_size :: nat where "dns_header_size = 12"

text \<open>The loop of \<open>get_qname\<close> with its variables: the 16-bit position, the current length byte, the
  8-bit length of the name, whether a pointer was followed, the 16-bit offset and the name.\<close>

partial_function (option) qname_loop ::
    "byte list \<Rightarrow> nat \<Rightarrow> u16 \<Rightarrow> byte \<Rightarrow> byte \<Rightarrow> bool \<Rightarrow> u16 \<Rightarrow> byte list \<Rightarrow>
     (u16 \<times> byte \<times> byte \<times> bool \<times> u16 \<times> byte list) option" where
  "qname_loop data datalen ptr len noff c off qname =
     (if len = 0 then Some (ptr, len, noff, c, off, qname)
      else if len AND 0xC0 \<noteq> 0 then do {
        lo \<leftarrow> rd data (unat ptr + 1);
        let ptr = ucast (len AND 0x3F) * 256 + ucast lo;
        len \<leftarrow> rd data (unat ptr);
        qname_loop data datalen ptr len noff True (if c then off else off + 2) qname
      }
      else if unat ptr + 1 + unat len \<le> datalen \<and> unat noff + unat len \<le> DNS_QNAME_MAX then do {
        label \<leftarrow> rd_block data (unat ptr + 1) (unat len);
        qname \<leftarrow> wr_block qname (unat noff) (label @ [0x2E]);
        let noff = noff + (len + 1);
        let ptr = ptr + (ucast len + 1);
        len \<leftarrow> rd data (unat ptr);
        qname_loop data datalen ptr len noff c off qname
      }
      else Some (ptr, len, noff, c, off, qname))"

text \<open>The result and the name buffer, \<open>DNS_QNAME_MAX + 1\<close> bytes provided by the caller.\<close>

definition get_qname :: "byte list \<Rightarrow> nat \<Rightarrow> u16 \<Rightarrow> byte list \<Rightarrow> (int \<times> byte list) option" where
  "get_qname data datalen off qname = do {
     qname \<leftarrow> wr_block qname 0 [0];
     len \<leftarrow> rd data (unat off);
     (ptr, len, noff, c, off, qname) \<leftarrow> qname_loop data datalen off len 0 False off qname;
     let ptr = ptr + 1;
     if len > 0 \<or> noff = 0 then Some (- 1, qname)
     else do {
       qname \<leftarrow> wr_block qname (unat noff - 1) [0];
       Some (uint (if c then off else ptr), qname)
     }
   }"

section \<open>Messages\<close>

text \<open>The fields of the header that are used.\<close>

definition dns_qr :: "byte list \<Rightarrow> bool option" where
  "dns_qr data = do { b \<leftarrow> rd data 2; Some (b AND 0x80 \<noteq> 0) }"

definition dns_opcode :: "byte list \<Rightarrow> byte option" where
  "dns_opcode data = do { b \<leftarrow> rd data 2; Some (drop_bit 3 b AND 0xF) }"

text \<open>What the walk over a response finds out of one answer: the variables of the loop's body. The name is the
  buffer's.\<close>

record dns_found =
  f_name :: "byte list"
  f_type :: u16
  f_class :: u16
  f_ttl :: u32
  f_length :: u16
  f_addr :: "byte list"

text \<open>One answer: what was found and the offset behind it, or \<open>None\<close> inside for the early returns. An address
  is read as 4 or 16 bytes whatever \<open>rdlength\<close> says.\<close>

definition dns_answer :: "byte list \<Rightarrow> nat \<Rightarrow> int \<Rightarrow> byte list \<Rightarrow> (dns_found \<times> int \<times> byte list) option option" where
  "dns_answer data datalen off name = do {
     (off, name) \<leftarrow> get_qname data datalen (word_of_int off) name;
     if off > 0 \<and> off + 10 \<le> int datalen then do {
       qtype \<leftarrow> rd_be16 data (nat off);
       qclass \<leftarrow> rd_be16 data (nat off + 2);
       ttl \<leftarrow> rd_be32 data (nat off + 4);
       rdlength \<leftarrow> rd_be16 data (nat off + 8);
       let off = off + 10;
       if off + uint rdlength \<le> int datalen then do {
         addr \<leftarrow> (if qclass = 1 \<and> qtype = 1 then rd_block data (nat off) 4
                 else if qclass = 1 \<and> qtype = 28 then rd_block data (nat off) 16
                 else Some []);
         Some (Some (\<lparr>f_name = name, f_type = qtype, f_class = qclass, f_ttl = ttl, f_length = rdlength, f_addr = addr\<rparr>,
           off + uint rdlength, name))
       } else Some None
     } else Some None
   }"

text \<open>The loop over the answers, with the offset at which it stops.\<close>

fun dns_answers :: "nat \<Rightarrow> byte list \<Rightarrow> nat \<Rightarrow> int \<Rightarrow> byte list \<Rightarrow> (dns_found list \<times> int) option" where
  "dns_answers 0 data datalen off name = Some ([], off)"
| "dns_answers (Suc n) data datalen off name = do {
     r \<leftarrow> dns_answer data datalen off name;
     case r of None \<Rightarrow> Some ([], off)
     | Some (x, off, name) \<Rightarrow> do {
         (xs, off) \<leftarrow> dns_answers n data datalen off name;
         Some (x # xs, off)
       }
   }"

text \<open>\<open>parse_dns_response\<close> only logs what it finds. The value of the model is what its variables held: the
  question's name, type and class, the answers, and where the walk stopped; \<open>None\<close> inside when it did not
  come to the answers.\<close>

definition parse_dns_response ::
    "byte list \<Rightarrow> nat \<Rightarrow> byte list \<Rightarrow> (byte list \<times> u16 \<times> u16 \<times> dns_found list \<times> int) option option" where
  "parse_dns_response data datalen name =
     (if datalen < dns_header_size + 1 then Some None
      else do {
        qcount \<leftarrow> rd_be16 data 4;
        acount \<leftarrow> rd_be16 data 6;
        qr \<leftarrow> dns_qr data;
        opcode \<leftarrow> dns_opcode data;
        if qr \<and> opcode = 0 \<and> qcount > 0 \<and> acount > 0 then do {
          (off, name) \<leftarrow> get_qname data datalen (of_nat dns_header_size) name;
          if off > 0 \<and> off + 4 \<le> int datalen then do {
            qtype \<leftarrow> rd_be16 data (nat off);
            qclass \<leftarrow> rd_be16 data (nat off + 2);
            (found, end) \<leftarrow> dns_answers (unat acount) data datalen (off + 4) name;
            Some (Some (name, qtype, qclass, found, end))
          } else Some None
        } else Some None
      })"

text \<open>\<open>get_dns_query\<close>: the result code, and the type, class and name when it is 0.\<close>

definition get_dns_query ::
    "byte list \<Rightarrow> nat \<Rightarrow> byte list \<Rightarrow> (int \<times> (u16 \<times> u16) option \<times> byte list) option" where
  "get_dns_query data datalen qname =
     (if datalen < dns_header_size + 1 then Some (- 1, None, qname)
      else do {
        qcount \<leftarrow> rd_be16 data 4;
        qr \<leftarrow> dns_qr data;
        opcode \<leftarrow> dns_opcode data;
        if \<not> qr \<and> opcode = 0 \<and> qcount > 0 then do {
          (off, qname) \<leftarrow> get_qname data datalen (of_nat dns_header_size) qname;
          if off > 0 \<and> off + 4 = int datalen then do {
            qtype \<leftarrow> rd_be16 data (nat off);
            qclass \<leftarrow> rd_be16 data (nat off + 2);
            Some (0, Some (qtype, qclass), qname)
          } else Some (- 1, None, qname)
        } else Some (- 1, None, qname)
      })"

text \<open>\<open>check_domain\<close> lets every domain pass.\<close>

definition check_domain :: "byte list \<Rightarrow> nat \<Rightarrow> u16 \<Rightarrow> u16 \<Rightarrow> byte list \<Rightarrow> int" where
  "check_domain data datalen qclass qtype name = 0"

section \<open>The name buffer is never overrun\<close>

lemma qname_loop_length:
  assumes "qname_loop data datalen ptr len noff c off qname = Some r"
  shows "length (snd (snd (snd (snd (snd r))))) = length qname"
proof (induction rule: qname_loop.raw_induct [rotated, OF assms])
  case (1 loop data datalen ptr len noff c off qname r)
  from 1(2) show ?case
    by (auto simp: Let_def bind_Some_iff split: if_splits dest!: 1(1) wr_block_length)
qed

text \<open>And no write of the loop can fail on a buffer of the size the callers provide.\<close>

lemma qname_write_ok:
  assumes "length qname = DNS_QNAME_MAX + 1" "unat noff + unat len \<le> DNS_QNAME_MAX" "length label = unat len"
  shows "wr_block qname (unat (noff :: byte)) (label @ [0x2E]) \<noteq> None"
  using assms by (simp add: wr_block_def)

section \<open>Uncompressed names\<close>

definition dns_labels :: "byte list list \<Rightarrow> byte list" where
  "dns_labels ls = concat (map (\<lambda>l. of_nat (length l) # l) ls)"

definition dotted :: "byte list list \<Rightarrow> byte list" where
  "dotted ls = concat (map (\<lambda>l. l @ [0x2E]) ls)"

lemma dns_labels_simps [simp]:
  "dns_labels [] = []" "dns_labels (l # ls) = of_nat (length l) # l @ dns_labels ls"
  by (simp_all add: dns_labels_def)

lemma dotted_simps [simp]: "dotted [] = []" "dotted (l # ls) = l @ 0x2E # dotted ls"
  by (simp_all add: dotted_def)

lemma length_dotted: "length (dotted ls) = length (dns_labels ls)"
  by (induction ls) simp_all

lemma label_byte:
  assumes "0 < n" "n \<le> 63"
  shows "unat (of_nat n :: byte) = n" "(of_nat n :: byte) \<noteq> 0" "(of_nat n :: byte) AND 0xC0 = 0"
proof -
  show u: "unat (of_nat n :: byte) = n" using assms by (simp add: unat_of_nat)
  then show "(of_nat n :: byte) \<noteq> 0" using assms by (metis unat_0 less_irrefl)
  have "n AND 0xC0 = 0" using assms
  proof -
    have "n < 2 ^ 6" using assms by simp
    then have n: "n = take_bit 6 n" by (simp add: take_bit_nat_eq_self)
    have "take_bit 6 n AND 0xC0 = n AND take_bit 6 0xC0"
      by (simp only: take_bit_eq_mask and.assoc and.commute)
    with n show ?thesis by (simp add: take_bit_eq_mod)
  qed
  then have "unat ((of_nat n :: byte) AND 0xC0) = 0" using u by (simp add: unsigned_and_eq)
  then show "(of_nat n :: byte) AND 0xC0 = 0" unfolding unat_eq_zero .
qed

text \<open>One turn of the loop on a literal label.\<close>

lemma qname_loop_label:
  assumes l: "0 < length l" "length l \<le> 63"
    and pos: "length pre + 1 + length l < 65536" "length pre + 1 + length l \<le> datalen"
    and room: "length dn + length l + 1 \<le> 255" "length l + 1 \<le> length tail"
    and nxt: "nxt \<noteq> []"
  shows "qname_loop (pre @ of_nat (length l) # l @ nxt) datalen (of_nat (length pre)) (of_nat (length l))
      (of_nat (length dn)) c off (dn @ tail) =
    qname_loop (pre @ of_nat (length l) # l @ nxt) datalen (of_nat (length pre + 1 + length l)) (hd nxt)
      (of_nat (length dn + length l + 1)) c off ((dn @ l @ [0x2E]) @ drop (length l + 1) tail)"
proof -
  let ?d = "pre @ of_nat (length l) # l @ nxt" and ?len = "of_nat (length l) :: byte"
  note lb = label_byte [OF l]
  have p: "unat (of_nat (length pre) :: u16) = length pre" using pos by (simp add: unat_of_nat)
  have n: "unat (of_nat (length dn) :: byte) = length dn" using room by (simp add: unat_of_nat)
  have ptr: "of_nat (length pre) + (ucast ?len + 1 :: u16) = of_nat (length pre + 1 + length l)"
  proof -
    have "(ucast ?len :: u16) = of_nat (length l)"
      using lb(1) l by (intro word_unat_eq_iff [THEN iffD2]) (simp add: unat_of_nat)
    then show ?thesis by simp
  qed
  have noff: "of_nat (length dn) + (?len + 1) = (of_nat (length dn + length l + 1) :: byte)" by simp
  have "rd_block ?d (length pre + 1) (length l) = Some l"
    using rd_block_append [of "pre @ [?len]" l nxt] by simp
  moreover have "wr_block (dn @ tail) (length dn) (l @ [0x2E]) =
      Some ((dn @ l @ [0x2E]) @ drop (length l + 1) tail)"
    using room by (simp add: wr_block_def)
  moreover have "rd ?d (length pre + 1 + length l) = Some (hd nxt)"
    using rd_append2 [of "pre @ ?len # l" nxt 0] nxt by (cases nxt) (simp_all add: rd_def nth_append)
  moreover have "unat (of_nat (length pre + 1 + length l) :: u16) = length pre + 1 + length l"
    using pos by (simp only: unat_of_nat) simp
  ultimately show ?thesis
    using pos room
    by (subst qname_loop.simps) (simp only: lb if_False simp_thms p n DNS_QNAME_MAX_def ptr noff Let_def
        bind.bind_lunit, simp)
qed

definition label_ok :: "byte list \<Rightarrow> bool" where
  "label_ok l \<longleftrightarrow> 0 < length l \<and> length l \<le> 63"

lemma qname_loop_labels:
  assumes "list_all label_ok ls" "length dn + length (dotted ls) \<le> 255" "length (dotted ls) \<le> length tail"
    "length pre + length (dns_labels ls) < 65536" "length pre + length (dns_labels ls) \<le> datalen"
  shows "qname_loop (pre @ dns_labels ls @ 0 # rest) datalen (of_nat (length pre)) (hd (dns_labels ls @ [0]))
      (of_nat (length dn)) c off (dn @ tail) =
    Some (of_nat (length pre + length (dns_labels ls)), 0, of_nat (length dn + length (dotted ls)), c, off,
      dn @ dotted ls @ drop (length (dotted ls)) tail)"
  using assms
proof (induction ls arbitrary: pre dn tail)
  case Nil
  then show ?case by (subst qname_loop.simps) simp
next
  case (Cons l ls)
  let ?nxt = "dns_labels ls @ 0 # rest"
  let ?pre = "pre @ of_nat (length l) # l" and ?dn = "dn @ l @ [0x2E]" and ?tail = "drop (length l + 1) tail"
  have l: "0 < length l" "length l \<le> 63" using Cons.prems(1) by (simp_all add: label_ok_def)
  have hd: "hd ?nxt = hd (dns_labels ls @ [0])" by (cases ls) simp_all
  have "qname_loop (pre @ of_nat (length l) # l @ ?nxt) datalen (of_nat (length pre)) (of_nat (length l))
      (of_nat (length dn)) c off (dn @ tail) =
    qname_loop (pre @ of_nat (length l) # l @ ?nxt) datalen (of_nat (length pre + 1 + length l)) (hd ?nxt)
      (of_nat (length dn + length l + 1)) c off ((dn @ l @ [0x2E]) @ drop (length l + 1) tail)"
    using Cons.prems by (intro qname_loop_label [OF l]) simp_all
  also have "\<dots> = qname_loop (?pre @ dns_labels ls @ 0 # rest) datalen (of_nat (length ?pre)) (hd (dns_labels ls @ [0]))
      (of_nat (length ?dn)) c off (?dn @ ?tail)"
    unfolding hd by (simp add: algebra_simps)
  also have "\<dots> = Some (of_nat (length ?pre + length (dns_labels ls)), 0,
      of_nat (length ?dn + length (dotted ls)), c, off, ?dn @ dotted ls @ drop (length (dotted ls)) ?tail)"
    using Cons.prems by (intro Cons.IH) simp_all
  finally show ?case by (simp add: algebra_simps)
qed

text \<open>The name, with the last dot overwritten by the terminating NUL.\<close>

lemma get_qname_name:
  assumes "list_all label_ok ls" "ls \<noteq> []" "length (dotted ls) \<le> 255" "length qname = DNS_QNAME_MAX + 1"
    "length pre + length (dns_labels ls) < 65535" "length pre + length (dns_labels ls) \<le> datalen"
  shows "get_qname (pre @ dns_labels ls @ 0 # rest) datalen (of_nat (length pre)) qname =
    Some (int (length pre + length (dns_labels ls) + 1),
      butlast (dotted ls) @ 0 # drop (length (dotted ls)) qname)"
proof -
  let ?d = "pre @ dns_labels ls @ 0 # rest" and ?n = "length (dotted ls)"
  have n0: "0 < ?n" using assms(2) by (cases ls) simp_all
  have w: "wr_block qname 0 [0] = Some (0 # tl qname)"
    using assms(4) by (cases qname) (simp_all add: wr_block_def DNS_QNAME_MAX_def)
  have p: "unat (of_nat (length pre) :: u16) = length pre" using assms(5) by (simp add: unat_of_nat)
  have "rd ?d (length pre) = Some (hd (dns_labels ls @ [0]))"
    using assms(2) by (cases ls) (simp_all add: rd_def nth_append)
  then have r: "rd ?d (unat (of_nat (length pre) :: u16)) = Some (hd (dns_labels ls @ [0]))" by (simp only: p)
  have "qname_loop ?d datalen (of_nat (length pre)) (hd (dns_labels ls @ [0])) (of_nat (length ([] :: byte list)))
      False (of_nat (length pre)) ([] @ 0 # tl qname) =
    Some (of_nat (length pre + length (dns_labels ls)), 0, of_nat (length ([] :: byte list) + ?n), False,
      of_nat (length pre), [] @ dotted ls @ drop ?n (0 # tl qname))"
    using assms by (intro qname_loop_labels) (simp_all add: DNS_QNAME_MAX_def)
  then have l: "qname_loop ?d datalen (of_nat (length pre)) (hd (dns_labels ls @ [0])) 0
      False (of_nat (length pre)) (0 # tl qname) =
    Some (of_nat (length pre + length (dns_labels ls)), 0, of_nat ?n, False,
      of_nat (length pre), dotted ls @ drop ?n qname)"
    using n0 assms(4) by (cases qname; cases ?n) (simp_all add: DNS_QNAME_MAX_def)
  have n: "unat (of_nat ?n :: byte) = ?n" using assms(3) by (simp add: unat_of_nat)
  then have nz: "(of_nat ?n :: byte) \<noteq> 0" using n0 by (metis unat_0 less_irrefl)
  have ret: "uint (of_nat (length pre + length (dns_labels ls)) + 1 :: u16) = int (length pre + length (dns_labels ls) + 1)"
  proof -
    have "(of_nat (length pre + length (dns_labels ls)) + 1 :: u16) = of_nat (length pre + length (dns_labels ls) + 1)"
      by simp
    moreover have "unat (of_nat (length pre + length (dns_labels ls) + 1) :: u16) = length pre + length (dns_labels ls) + 1"
      using assms(5) by (simp only: unat_of_nat) simp
    ultimately show ?thesis by (metis uint_nat)
  qed
  have wr: "wr_block (dotted ls @ drop ?n qname) (?n - 1) [0] = Some (butlast (dotted ls) @ 0 # drop ?n qname)"
    using n0 by (simp add: wr_block_def butlast_conv_take)
  show ?thesis
    by (simp only: get_qname_def w bind.bind_lunit r l prod.case Let_def nz simp_thms if_False n wr ret) simp
qed

section \<open>A pointer to itself\<close>

text \<open>One pass of the loop, to tell a loop that goes on from a read outside of the data: \<open>qname_loop\<close>
  is this body repeated.\<close>

type_synonym qname_state = "u16 \<times> byte \<times> byte \<times> bool \<times> u16 \<times> byte list"

fun qname_pass :: "byte list \<Rightarrow> nat \<Rightarrow> qname_state \<Rightarrow> (qname_state + qname_state) option" where
  "qname_pass data datalen (ptr, len, noff, c, off, qname) =
     (if len = 0 then Some (Inr (ptr, len, noff, c, off, qname))
      else if len AND 0xC0 \<noteq> 0 then do {
        lo \<leftarrow> rd data (unat ptr + 1);
        let ptr = ucast (len AND 0x3F) * 256 + ucast lo;
        len \<leftarrow> rd data (unat ptr);
        Some (Inl (ptr, len, noff, True, if c then off else off + 2, qname))
      }
      else if unat ptr + 1 + unat len \<le> datalen \<and> unat noff + unat len \<le> DNS_QNAME_MAX then do {
        label \<leftarrow> rd_block data (unat ptr + 1) (unat len);
        qname \<leftarrow> wr_block qname (unat noff) (label @ [0x2E]);
        let ptr' = ptr + (ucast len + 1);
        len' \<leftarrow> rd data (unat ptr');
        Some (Inl (ptr', len', noff + (len + 1), c, off, qname))
      }
      else Some (Inr (ptr, len, noff, c, off, qname)))"

lemma qname_loop_passes:
  "qname_loop data datalen ptr len noff c off qname =
     (case qname_pass data datalen (ptr, len, noff, c, off, qname) of
        None \<Rightarrow> None
      | Some (Inr r) \<Rightarrow> Some r
      | Some (Inl (ptr, len, noff, c, off, qname)) \<Rightarrow> qname_loop data datalen ptr len noff c off qname)"
  by (subst qname_loop.simps) (simp add: Let_def split: bind_splits)

definition self_pointer :: "byte list \<Rightarrow> u16 \<Rightarrow> byte \<Rightarrow> bool" where
  "self_pointer data ptr len \<longleftrightarrow> len AND 0xC0 \<noteq> 0 \<and> rd data (unat ptr) = Some len \<and>
     (\<exists>lo. rd data (unat ptr + 1) = Some lo \<and> ucast (len AND 0x3F) * 256 + ucast lo = ptr)"

text \<open>At such a pointer a pass changes the offset behind the name at most.\<close>

lemma qname_pass_self_pointer:
  assumes "self_pointer data ptr len"
  shows "qname_pass data datalen (ptr, len, noff, c, off, qname) =
    Some (Inl (ptr, len, noff, True, if c then off else off + 2, qname))"
proof -
  have "len \<noteq> 0" using assms by (auto simp: self_pointer_def)
  then show ?thesis using assms by (auto simp: self_pointer_def)
qed

lemma qname_loop_no_self_pointer:
  assumes "qname_loop data datalen ptr len noff c off qname = Some r"
  shows "\<not> self_pointer data ptr len"
proof (induction rule: qname_loop.raw_induct [rotated, OF assms])
  case (1 loop data datalen ptr len noff c off qname r)
  show ?case
  proof
    assume s: "self_pointer data ptr len"
    then have "len \<noteq> 0" by (auto simp: self_pointer_def)
    with s 1(2) have "loop data datalen ptr len noff True (if c then off else off + 2) qname = Some r"
      by (auto simp: self_pointer_def)
    from 1(1) [OF this] s show False by simp
  qed
qed

text \<open>C39: on a name that is a pointer to itself the loop of \<open>get_qname\<close> does not end: after any number
  of passes it stands at the same pointer, with nothing written, and no read has left the data.\<close>

theorem get_qname_diverges:
  assumes "self_pointer data off len" "qname \<noteq> []"
  shows "get_qname data datalen off qname = None \<and>
    (\<exists>off' c. passes n (qname_pass data datalen) (off, len, 0, False, off, 0 # tl qname) =
      Some (Inl (off, len, 0, c, off', 0 # tl qname)))"
proof -
  let ?q = "0 # tl qname"
  have r: "rd data (unat off) = Some len" using assms(1) by (simp add: self_pointer_def)
  have "wr_block qname 0 [0] = Some ?q" using assms(2) by (cases qname) (simp_all add: wr_block_def)
  moreover have "qname_loop data datalen off len 0 False off ?q = None"
    using assms(1) qname_loop_no_self_pointer by (metis option.exhaust)
  ultimately have "get_qname data datalen off qname = None" by (simp add: get_qname_def r)
  moreover have "\<exists>y. passes n (qname_pass data datalen) (off, len, 0, False, off, ?q) = Some (Inl y) \<and>
      (\<exists>off' c. y = (off, len, 0, c, off', ?q))"
    by (rule passes_trapped) (use qname_pass_self_pointer [OF assms(1)] in auto)
  ultimately show ?thesis by blast
qed

theorem get_qname_diverges_witness:
  "get_qname ([0xC0, 0] @ replicate 20 0) 22 0 (replicate 256 0) = None \<and>
    (\<exists>off' c. passes 1000 (qname_pass ([0xC0, 0] @ replicate 20 0) 22) (0, 0xC0, 0, False, 0, 0 # tl (replicate 256 0)) =
      Some (Inl (0, 0xC0, 0, c, off', 0 # tl (replicate 256 0))))"
  by (rule get_qname_diverges) (simp_all add: self_pointer_def rd_def)

end
