(* ===== verification/Udp.thy ===== *)
theory Udp
  imports Packets Contracts Dns "HOL-Library.Signed_Division"
begin

text \<open>
  UDP sessions (\<^verbatim>\<open>udp.c\<close>) and the DHCP answer (\<^verbatim>\<open>dhcp.c\<close>): timeout and periodic check, events on
  the socket, packets of the app, opening the socket and writing a datagram to the tun device. The
  lemmas show that every operation keeps the contracts of \<open>Contracts\<close>, that a session's state
  only moves forward in the order of its constants, and that a datagram's checksums verify.
\<close>

section \<open>Timeout and periodic check\<close>

definition get_udp_timeout :: "udp_session \<Rightarrow> int \<Rightarrow> int \<Rightarrow> int option" where
  "get_udp_timeout u sessions maxsessions =
     (let timeout = (if u_dest u = 53 then UDP_TIMEOUT_53 else UDP_TIMEOUT_ANY)
      in if maxsessions = 0 then None
         else let scale = 100 - (sessions * 100) sdiv maxsessions
              in Some ((timeout * scale) sdiv 100))"

definition udp_expire :: "int \<Rightarrow> int \<Rightarrow> udp_session \<Rightarrow> udp_session" where
  "udp_expire now timeout u =
     (if u_state u = UDP_ACTIVE \<and> u_time u + timeout < now then u\<lparr>u_state := UDP_FINISHING\<rparr> else u)"

definition udp_close_socket :: "os \<Rightarrow> udp_session ng_session \<Rightarrow> io \<Rightarrow> udp_session ng_session \<times> io" where
  "udp_close_socket os s w =
     (if u_state (sess s) = UDP_FINISHING then
        let w = sys_close (socket s) w;
            (now, w) = sys_time os w
        in (s\<lparr>socket := - 1, sess := (sess s)\<lparr>u_time := now, u_state := UDP_CLOSED\<rparr>\<rparr>, w)
      else (s, w))"

definition udp_reset_counts :: "udp_session \<Rightarrow> udp_session" where
  "udp_reset_counts u =
     (if u_state u = UDP_CLOSED \<and> (u_sent u \<noteq> 0 \<or> u_received u \<noteq> 0)
      then u\<lparr>u_sent := 0, u_received := 0\<rparr> else u)"

definition check_udp_session ::
    "os \<Rightarrow> udp_session ng_session \<Rightarrow> int \<Rightarrow> int \<Rightarrow> io \<Rightarrow> (bool \<times> udp_session ng_session \<times> io) option" where
  "check_udp_session os s sessions maxsessions w = do {
     let (now, w) = sys_time os w;
     timeout \<leftarrow> get_udp_timeout (sess s) sessions maxsessions;
     let s = s\<lparr>sess := udp_expire now timeout (sess s)\<rparr>;
     let (s, w) = udp_close_socket os s w;
     let s = s\<lparr>sess := udp_reset_counts (sess s)\<rparr>;
     Some ((u_state (sess s) = UDP_CLOSED \<or> u_state (sess s) = UDP_BLOCKED) \<and>
       u_time (sess s) + UDP_KEEP_TIMEOUT < now, s, w)
   }"

section \<open>Writing a datagram\<close>

definition udp_header_front :: "udp_session \<Rightarrow> nat \<Rightarrow> byte list" where
  "udp_header_front cur datalen = be16 (u_dest cur) @ be16 (u_source cur) @ be16 (of_nat (8 + datalen))"

definition udp_packet :: "udp_session \<Rightarrow> byte list \<Rightarrow> byte list" where
  "udp_packet cur data =
     (let udplen = 8 + length data;
          v4 = (u_version cur = 4);
          src = take (if v4 then 4 else 16) (u_daddr cur);
          dst = take (if v4 then 4 else 16) (u_saddr cur);
          ip = (if v4 then ip4_header (20 + udplen) IPPROTO_UDP src dst
                else ip6_header udplen IPPROTO_UDP src dst);
          pseudo = (if v4 then ip4_pseudo src dst IPPROTO_UDP udplen
                    else ip6_pseudo src dst IPPROTO_UDP udplen);
          front = udp_header_front cur (length data);
          csum = calc_checksum 0 pseudo;
          csum = calc_checksum csum (front @ le16 0);
          csum = calc_checksum csum data
      in ip @ front @ le16 (NOT csum) @ data)"

definition write_udp :: "os \<Rightarrow> udp_session \<Rightarrow> byte list \<Rightarrow> io \<Rightarrow> int \<times> io" where
  "write_udp os cur data w =
     (let buffer = udp_packet cur data;
          (res, w) = sys_tun_write os buffer w
      in if res \<noteq> int (length buffer) then (- 1, w) else (res, w))"

section \<open>Events on the socket\<close>

text \<open>What \<open>recv\<close> gave. A response of port 53 is parsed (for the log) before it is passed on, and
  ends the session.\<close>

definition udp_received :: "os \<Rightarrow> rx \<Rightarrow> udp_session \<Rightarrow> io \<Rightarrow> (udp_session \<times> io) option" where
  "udp_received os r u w =
     (case r of
        Rx_Err e \<Rightarrow> Some (if e \<noteq> EINTR \<and> e \<noteq> EAGAIN then u\<lparr>u_state := UDP_FINISHING\<rparr> else u, w)
      | Rx_Data bytes \<Rightarrow>
          if bytes = [] then Some (u\<lparr>u_state := UDP_FINISHING\<rparr>, w)
          else do {
            let u = u\<lparr>u_received := u_received u + of_nat (length bytes)\<rparr>;
            _ \<leftarrow> (if u_dest u = 53
                  then parse_dns_response (buffer_of os (unat (u_mss u)) bytes) (length bytes) (buffer_of os 256 [])
                  else Some None);
            let (r, w) = write_udp os u bytes w;
            Some (if r < 0 \<or> u_dest u = 53 then u\<lparr>u_state := UDP_FINISHING\<rparr> else u, w)
          })"

definition check_udp_socket ::
    "os \<Rightarrow> u32 \<Rightarrow> udp_session ng_session \<Rightarrow> io \<Rightarrow> (udp_session ng_session \<times> io) option" where
  "check_udp_socket os events s w =
     (if events AND EPOLLERR \<noteq> 0 then
        let (now, w) = sys_time os w
        in Some (s\<lparr>sess := (sess s)\<lparr>u_time := now, u_state := UDP_FINISHING\<rparr>\<rparr>, w)
      else if events AND EPOLLIN \<noteq> 0 then do {
        let (now, w) = sys_time os w;
        let (r, w) = sys_recv (socket s) (unat (u_mss (sess s))) w;
        (u, w) \<leftarrow> udp_received os r ((sess s)\<lparr>u_time := now\<rparr>) w;
        Some (s\<lparr>sess := u\<rparr>, w)
      }
      else Some (s, w))"

section \<open>Finding a session\<close>

record udphdr =
  uh_source :: u16
  uh_dest :: u16

definition read_udphdr :: "byte list \<Rightarrow> nat \<Rightarrow> udphdr option" where
  "read_udphdr pkt p = do {
     source \<leftarrow> rd_be16 pkt p;
     dest \<leftarrow> rd_be16 pkt (p + 2);
     Some \<lparr>uh_source = source, uh_dest = dest\<rparr>
   }"

fun udp_matches :: "int \<Rightarrow> udphdr \<Rightarrow> byte list \<Rightarrow> byte list \<Rightarrow> session \<Rightarrow> bool" where
  "udp_matches version h saddr daddr (Udp s) =
     (u_version (sess s) = version \<and> u_source (sess s) = uh_source h \<and> u_dest (sess s) = uh_dest h \<and>
      u_saddr (sess s) = saddr \<and> u_daddr (sess s) = daddr)"
| "udp_matches version h saddr daddr _ = False"

definition has_udp_session :: "arguments \<Rightarrow> byte list \<Rightarrow> nat \<Rightarrow> session list \<Rightarrow> bool option" where
  "has_udp_session args pkt p ss = do {
     version \<leftarrow> pkt_version pkt;
     h \<leftarrow> read_udphdr pkt p;
     if uh_dest h = 53 \<and> \<not> fwd53 args then Some True
     else do {
       saddr \<leftarrow> pkt_saddr version pkt;
       daddr \<leftarrow> pkt_daddr version pkt;
       Some (find (udp_matches version h saddr daddr) ss \<noteq> None)
     }
   }"

text \<open>A blocked session has no socket; its counters and MSS are left uninitialised.\<close>

definition block_udp ::
    "os \<Rightarrow> byte list \<Rightarrow> nat \<Rightarrow> int \<Rightarrow> session list \<Rightarrow> io \<Rightarrow> (session list \<times> io) option" where
  "block_udp os pkt p uid ss w = do {
     version \<leftarrow> pkt_version pkt;
     h \<leftarrow> read_udphdr pkt p;
     let (i, w) = new_sid w;
     let (now, w) = sys_time os w;
     saddr \<leftarrow> pkt_saddr version pkt;
     daddr \<leftarrow> pkt_daddr version pkt;
     let u = \<lparr>u_time = now, u_uid = uid, u_version = version, u_mss = ucast (os_garbage os 0),
       u_sent = ucast (os_garbage os 1), u_received = ucast (os_garbage os 2), u_saddr = saddr,
       u_source = uh_source h, u_daddr = daddr, u_dest = uh_dest h, u_state = UDP_BLOCKED\<rparr>;
     Some (Udp \<lparr>sid = i, socket = - 1, ev_events = 0, sess = u\<rparr> # ss, w)
   }"

section \<open>Opening the socket\<close>

text \<open>The caller never redirects. A failure of \<open>protect\<close> does not close the descriptor.\<close>

definition open_udp_socket :: "os \<Rightarrow> udp_session \<Rightarrow> io \<Rightarrow> int \<times> io" where
  "open_udp_socket os cur w =
     (let (sock, w) = sys_socket os w
      in if sock < 0 then (- 1, w)
         else let (ok, w) = sys_protect os sock w
         in if \<not> ok then (- 1, w)
         else if u_version cur = 4 then
           (sock, if take 4 (u_daddr cur) = [255, 255, 255, 255] then sys_setsockopt sock ''SO_BROADCAST'' w else w)
         else
           (sock, if take 1 (u_daddr cur) = [255]
                  then sys_setsockopt sock ''IPV6_ADD_MEMBERSHIP''
                    (sys_setsockopt sock ''IPV6_MULTICAST_HOPS'' (sys_setsockopt sock ''IPV6_MULTICAST_LOOP'' w))
                  else w))"

section \<open>DHCP\<close>

definition dhcp_packet_size :: nat where "dhcp_packet_size = 240"

definition DHCP_OPTION_MAGIC_NUMBER :: u32 where "DHCP_OPTION_MAGIC_NUMBER = 0x63825363"

text \<open>\<open>response + sizeof(struct dhcp_packet)\<close> is arithmetic on a pointer to the structure: it
  advances by that many structures.\<close>

definition dhcp_options_at :: nat where
  "dhcp_options_at = dhcp_packet_size * dhcp_packet_size"

text \<open>The options; the lease time is stored without \<open>htonl\<close>.\<close>

definition dhcp_options :: "bool \<Rightarrow> byte list" where
  "dhcp_options offer =
     [53, 1, if offer then 2 else 5] @ [1, 4, 255, 255, 255, 0] @ [3, 4, 10, 1, 10, 1] @
     [51, 4, 0x10, 0x0E, 0, 0] @ [54, 4, 10, 1, 10, 1] @ [6, 4, 8, 8, 8, 8] @ [255]"

text \<open>The fields set in the copy of the request: opcode, secs, flags and the four addresses.\<close>

definition dhcp_reply :: "byte list \<Rightarrow> byte list option" where
  "dhcp_reply request = do {
     let offer = (take 4 (drop 20 request) = [0, 0, 0, 0]);
     r \<leftarrow> wr_block (replicate 500 0) 0 (take dhcp_packet_size request);
     r \<leftarrow> wr_block r 0 [if offer then 2 else 4];
     r \<leftarrow> wr_block r 8 [0, 0, 0, 0];
     r \<leftarrow> wr_block r 12 ([0, 0, 0, 0] @ [10, 1, 10, 2] @ [10, 1, 10, 1] @ [0, 0, 0, 0]);
     wr_block r dhcp_options_at (dhcp_options offer)
   }"

text \<open>The result code and the session, whose source address is overwritten.\<close>

definition check_dhcp ::
    "os \<Rightarrow> udp_session \<Rightarrow> byte list \<Rightarrow> nat \<Rightarrow> io \<Rightarrow> (int \<times> udp_session \<times> io) option" where
  "check_dhcp os u data datalen w =
     (if datalen < dhcp_packet_size then Some (- 1, u, w)
      else do {
        magic \<leftarrow> rd_be32 data 236;
        htype \<leftarrow> rd data 1;
        hlen \<leftarrow> rd data 2;
        opcode \<leftarrow> rd data 0;
        if magic \<noteq> DHCP_OPTION_MAGIC_NUMBER then Some (- 1, u, w)
        else if htype \<noteq> 1 \<or> hlen \<noteq> 6 then Some (- 1, u, w)
        else if opcode = 1 then do {
          let u = u\<lparr>u_saddr := [10, 1, 10, 1] @ drop 4 (u_saddr u)\<rparr>;
          request \<leftarrow> rd_block data 0 dhcp_packet_size;
          response \<leftarrow> dhcp_reply request;
          let (_, w) = write_udp os u response w;
          Some (0, u, w)
        }
        else Some (0, u, w)
      })"

section \<open>Packets of the app\<close>

definition udp_target :: "udp_session \<Rightarrow> endpoint" where
  "udp_target u = (if u_version u = 4 then Addr4 (u_daddr u) (u_dest u) else Addr6 (u_daddr u) (u_dest u))"

text \<open>The datagram is sent on; an error other than a retry ends the session.\<close>

definition udp_forward :: "os \<Rightarrow> byte list \<Rightarrow> udp_session ng_session \<Rightarrow> io \<Rightarrow> udp_session ng_session \<times> io" where
  "udp_forward os data s w =
     (let (now, w) = sys_time os w;
          u = (sess s)\<lparr>u_time := now\<rparr>;
          ((res, errno), w) = sys_sendto os (socket s) data (udp_target u) w
      in if res \<noteq> int (length data) then
           (s\<lparr>sess := if errno \<noteq> EINTR \<and> errno \<noteq> EAGAIN then u\<lparr>u_state := UDP_FINISHING\<rparr> else u\<rparr>, w)
         else (s\<lparr>sess := u\<lparr>u_sent := u_sent u + of_nat (length data)\<rparr>\<rparr>, w))"

definition udp_packet_in ::
    "os \<Rightarrow> byte list \<Rightarrow> nat \<Rightarrow> nat \<Rightarrow> udphdr \<Rightarrow> udp_session ng_session \<Rightarrow> io \<Rightarrow> (udp_session ng_session \<times> io) option" where
  "udp_packet_in os pkt off datalen h s w = do {
     let data = drop off pkt;
     _ \<leftarrow> (if uh_dest h = 53 then do { _ \<leftarrow> get_dns_query data datalen (buffer_of os 256 []); Some () }
          else Some ());
     (r, u, w) \<leftarrow> (if uh_source h = 68 \<or> uh_dest h = 67 then check_dhcp os (sess s) data datalen w
                  else Some (- 1, sess s, w));
     if r \<ge> 0 then Some (s\<lparr>sess := u\<rparr>, w)
     else do {
       block \<leftarrow> rd_block pkt off datalen;
       Some (udp_forward os block s w)
     }
   }"

definition new_udp_session :: "int \<Rightarrow> int \<Rightarrow> int \<Rightarrow> udphdr \<Rightarrow> byte list \<Rightarrow> byte list \<Rightarrow> udp_session" where
  "new_udp_session now uid version h saddr daddr =
     \<lparr>u_time = now, u_uid = uid, u_version = version,
      u_mss = of_nat (if version = 4 then UDP4_MAXMSG else UDP6_MAXMSG), u_sent = 0, u_received = 0,
      u_saddr = saddr, u_source = uh_source h, u_daddr = daddr, u_dest = uh_dest h, u_state = UDP_ACTIVE\<rparr>"

definition udp_new ::
    "os \<Rightarrow> byte list \<Rightarrow> nat \<Rightarrow> nat \<Rightarrow> int \<Rightarrow> int \<Rightarrow> udphdr \<Rightarrow> byte list \<Rightarrow> byte list \<Rightarrow> session list \<Rightarrow> io \<Rightarrow>
     (session list \<times> io) option" where
  "udp_new os pkt off datalen uid version h saddr daddr ss w =
     (let (i, w) = new_sid w;
          (now, w) = sys_time os w;
          u = new_udp_session now uid version h saddr daddr;
          (sock, w) = open_udp_socket os u w
      in if sock < 0 then Some (ss, w)
         else let ev = EPOLLIN OR EPOLLERR;
                  (_, w) = sys_epoll_add os sock ev w
              in do {
                (s, w) \<leftarrow> udp_packet_in os pkt off datalen h \<lparr>sid = i, socket = sock, ev_events = ev, sess = u\<rparr> w;
                Some (Udp s # ss, w)
              })"

text \<open>Packets of a session that is no longer active are ignored. A data length below zero wraps to
  a huge one, which no buffer has.\<close>

definition udp_found ::
    "os \<Rightarrow> byte list \<Rightarrow> nat \<Rightarrow> nat \<Rightarrow> udphdr \<Rightarrow> udp_session ng_session \<Rightarrow> io \<Rightarrow> (udp_session ng_session \<times> io) option" where
  "udp_found os pkt len off h s w =
     (if u_state (sess s) \<noteq> UDP_ACTIVE then Some (s, w)
      else if len < off then None
      else udp_packet_in os pkt off (len - off) h s w)"

definition handle_udp ::
    "os \<Rightarrow> byte list \<Rightarrow> nat \<Rightarrow> nat \<Rightarrow> int \<Rightarrow> session list \<Rightarrow> io \<Rightarrow> (session list \<times> io) option" where
  "handle_udp os pkt len p uid ss w = do {
     version \<leftarrow> pkt_version pkt;
     h \<leftarrow> read_udphdr pkt p;
     saddr \<leftarrow> pkt_saddr version pkt;
     daddr \<leftarrow> pkt_daddr version pkt;
     let off = p + 8;
     case find (udp_matches version h saddr daddr) ss of
       Some (Udp s) \<Rightarrow> do {
         (s, w) \<leftarrow> udp_found os pkt len off h s w;
         Some (replace_first (udp_matches version h saddr daddr) (Udp s) ss, w)
       }
     | _ \<Rightarrow> if len < off then None else udp_new os pkt off (len - off) uid version h saddr daddr ss w
   }"

section \<open>The contracts\<close>

definition udp_wf :: "udp_session \<Rightarrow> bool" where
  "udp_wf u \<longleftrightarrow> length (u_saddr u) = (if u_version u = 4 then 4 else 16) \<and>
     length (u_daddr u) = (if u_version u = 4 then 4 else 16)"

text \<open>A session has a socket exactly while it is active or finishing.\<close>

definition udp_good :: "udp_session ng_session \<Rightarrow> io \<Rightarrow> bool" where
  "udp_good s w \<longleftrightarrow> sock_ok (socket s) w \<and> (0 \<le> socket s \<longleftrightarrow> u_state (sess s) < UDP_CLOSED) \<and> udp_wf (sess s)"

lemma udp_less_closed [simp]: "st < UDP_CLOSED \<longleftrightarrow> st = UDP_ACTIVE \<or> st = UDP_FINISHING"
  by (cases st) (simp_all add: less_udp_state_def)

lemma udp_wf_upd [simp]:
  "udp_wf (u\<lparr>u_time := n\<rparr>) = udp_wf u" "udp_wf (u\<lparr>u_state := st\<rparr>) = udp_wf u"
  "udp_wf (u\<lparr>u_sent := c\<rparr>) = udp_wf u" "udp_wf (u\<lparr>u_received := c\<rparr>) = udp_wf u"
  by (simp_all add: udp_wf_def)

lemma udp_reset_counts_keeps [simp]:
  "u_state (udp_reset_counts u) = u_state u" "udp_wf (udp_reset_counts u) = udp_wf u"
  by (simp_all add: udp_reset_counts_def)

definition udp_op_ok :: "udp_session ng_session \<Rightarrow> io \<Rightarrow> udp_session ng_session \<Rightarrow> io \<Rightarrow> bool" where
  "udp_op_ok s w s' w' \<longleftrightarrow> udp_good s' w' \<and> own_fd_only (socket s) w (socket s') w' \<and>
     (clean w \<longrightarrow> clean w') \<and> u_state (sess s) \<le> u_state (sess s')"

text \<open>A session that keeps its socket may go on or finish.\<close>

lemma udp_update_ok:
  assumes "udp_good s w" "fds w' = fds w" "clean w' = clean w" "udp_wf u"
    "u_state u = u_state (sess s) \<or> 0 \<le> socket s \<and> u_state u = UDP_FINISHING"
  shows "udp_op_ok s w (s\<lparr>sess := u\<rparr>) w'"
  using assms by (auto simp: udp_op_ok_def own_fd_only_def udp_good_def sock_ok_def less_eq_udp_state_def)

lemma udp_op_ok_refl: "udp_good s w \<Longrightarrow> udp_op_ok s w s w"
  by (simp add: udp_op_ok_def own_fd_only_def)

lemma udp_close_socket_ok:
  assumes "udp_close_socket os s w = (s', w')" "udp_good s w"
  shows "udp_op_ok s w s' w' \<and> u_state (sess s') \<noteq> UDP_FINISHING"
proof (cases "u_state (sess s) = UDP_FINISHING")
  case True
  then have sock: "0 \<le> socket s" "socket s \<in> set (fds w)" using assms(2) by (auto simp: udp_good_def sock_ok_def)
  obtain now v where n: "sys_time os (sys_close (socket s) w) = (now, v)" by force
  have "fds v = fds (sys_close (socket s) w)" "clean v = clean (sys_close (socket s) w)"
    using n by (auto simp: sys_time_def clean_def)
  moreover have "s' = s\<lparr>socket := - 1, sess := (sess s)\<lparr>u_time := now, u_state := UDP_CLOSED\<rparr>\<rparr>" "w' = v"
    using assms(1) True n by (auto simp: udp_close_socket_def Let_def)
  ultimately show ?thesis
    using sock True assms(2)
    by (auto simp: udp_op_ok_def udp_good_def own_fd_only_def sock_ok_def less_eq_udp_state_def)
next
  case False
  then show ?thesis using assms udp_op_ok_refl by (auto simp: udp_close_socket_def)
qed

lemma check_udp_session_ok:
  assumes "check_udp_session os s n m w = Some (del, s', w')" "udp_good s w"
  shows "udp_op_ok s w s' w' \<and> (del \<longrightarrow> socket s' = - 1)"
proof -
  obtain now v where t: "sys_time os w = (now, v)" by force
  obtain timeout where to: "get_udp_timeout (sess s) n m = Some timeout"
    using assms(1) by (auto simp: check_udp_session_def t bind_Some_iff)
  let ?s = "s\<lparr>sess := udp_expire now timeout (sess s)\<rparr>"
  obtain s2 w2 where c: "udp_close_socket os ?s v = (s2, w2)" by force
  have r: "s' = s2\<lparr>sess := udp_reset_counts (sess s2)\<rparr>" "w' = w2"
      "del \<longrightarrow> u_state (sess s2) = UDP_CLOSED \<or> u_state (sess s2) = UDP_BLOCKED"
    using assms(1) by (auto simp: check_udp_session_def t to c)
  have io: "fds v = fds w" "clean v = clean w" using t by (auto simp: sys_time_def clean_def)
  have o1: "udp_op_ok s w ?s v"
    using assms(2) by (intro udp_update_ok io) (auto simp: udp_expire_def udp_good_def)
  then have "udp_good ?s v" by (simp add: udp_op_ok_def)
  note o2 = udp_close_socket_ok [OF c this]
  have "udp_good s' w'" using o2 r by (auto simp: udp_op_ok_def udp_good_def)
  moreover have "own_fd_only (socket s) w (socket s') w'"
    using o1 o2 r own_fd_only_trans by (auto simp: udp_op_ok_def)
  moreover have "clean w \<longrightarrow> clean w'" using o1 o2 r by (auto simp: udp_op_ok_def)
  moreover have "u_state (sess s) \<le> u_state (sess s')"
    using o1 o2 r by (auto simp: udp_op_ok_def)
  moreover have "del \<longrightarrow> socket s' = - 1"
    using \<open>udp_good s' w'\<close> r by (auto simp: udp_good_def sock_ok_def)
  ultimately show ?thesis by (simp add: udp_op_ok_def)
qed

interpretation udp_check: session_check "\<lambda>s w. check_udp_session os s n m w" udp_good socket for os n m
  by unfold_locales (use check_udp_session_ok in \<open>auto simp: udp_good_def udp_op_ok_def\<close>)

subsection \<open>Socket events and packets\<close>

lemma write_udp_frame: "write_udp os u d w = (r, w') \<Longrightarrow> fds w' = fds w \<and> clean w' = clean w"
  by (auto simp: write_udp_def Let_def sys_tun_write_def clean_def split: if_splits)

text \<open>What \<open>udp_received\<close> and \<open>check_dhcp\<close> leave of a session.\<close>

definition udp_kept :: "udp_session \<Rightarrow> io \<Rightarrow> udp_session \<Rightarrow> io \<Rightarrow> bool" where
  "udp_kept u w u' w' \<longleftrightarrow> fds w' = fds w \<and> clean w' = clean w \<and> udp_wf u' = udp_wf u \<and>
     (u_state u' = u_state u \<or> u_state u' = UDP_FINISHING)"

lemma udp_kept_ok:
  "udp_good s w \<Longrightarrow> 0 \<le> socket s \<Longrightarrow> udp_kept (sess s) w u w' \<Longrightarrow> udp_op_ok s w (s\<lparr>sess := u\<rparr>) w'"
  by (intro udp_update_ok) (auto simp: udp_kept_def udp_good_def)

lemma udp_received_kept:
  assumes "udp_received os r u w = Some (u', w')"
  shows "udp_kept u w u' w'"
proof (cases r)
  case (Rx_Err e)
  then show ?thesis using assms by (auto simp: udp_received_def udp_kept_def split: if_splits)
next
  case (Rx_Data bytes)
  let ?u = "u\<lparr>u_received := u_received u + of_nat (length bytes)\<rparr>"
  obtain res v where r: "write_udp os ?u bytes w = (res, v)" by force
  note write_udp_frame [OF r]
  then show ?thesis
    using assms r by (auto simp: udp_received_def udp_kept_def Rx_Data bind_Some_iff Let_def split: if_splits)
qed

lemma sys_recv_frame: "sys_recv fd n w = (r, w') \<Longrightarrow> fds w' = fds w \<and> clean w' = clean w"
  using fds_sys_recv [of fd n w] clean_sys(16) [of fd n w] by simp

lemma check_udp_socket_ok:
  assumes "check_udp_socket os events s w = Some (s', w')" "udp_good s w" "0 \<le> socket s"
  shows "udp_op_ok s w s' w'"
proof -
  obtain now v where n: "sys_time os w = (now, v)" by force
  have io: "fds v = fds w" "clean v = clean w" using n by (auto simp: sys_time_def clean_def)
  obtain r x where r: "sys_recv (socket s) (unat (u_mss (sess s))) v = (r, x)" by force
  note rx = sys_recv_frame [OF r]
  consider (err) "events AND EPOLLERR \<noteq> 0" | (rd) "events AND EPOLLERR = 0" "events AND EPOLLIN \<noteq> 0"
    | (none) "events AND EPOLLERR = 0" "events AND EPOLLIN = 0" by blast
  then show ?thesis
  proof cases
    case err
    then have "s' = s\<lparr>sess := (sess s)\<lparr>u_time := now, u_state := UDP_FINISHING\<rparr>\<rparr>" "w' = v"
      using assms(1) n by (auto simp: check_udp_socket_def)
    moreover have "udp_kept (sess s) w ((sess s)\<lparr>u_time := now, u_state := UDP_FINISHING\<rparr>) v"
      using io by (simp add: udp_kept_def)
    ultimately show ?thesis using udp_kept_ok [OF assms(2,3)] by simp
  next
    case rd
    then obtain u where u: "udp_received os r ((sess s)\<lparr>u_time := now\<rparr>) x = Some (u, w')" and s': "s' = s\<lparr>sess := u\<rparr>"
      using assms(1) n r by (auto simp: check_udp_socket_def bind_Some_iff)
    have "udp_kept (sess s) w u w'"
      using udp_received_kept [OF u] io rx by (simp add: udp_kept_def)
    then show ?thesis using udp_kept_ok [OF assms(2,3)] s' by simp
  next
    case none
    then show ?thesis using assms udp_op_ok_refl by (simp add: check_udp_socket_def)
  qed
qed

interpretation udp_socket: session_op "on_socket (check_udp_socket os events)" udp_good socket for os events
  by unfold_locales
     (use check_udp_socket_ok in \<open>auto simp: on_socket_def udp_op_ok_def own_fd_only_def split: if_splits\<close>)

text \<open>The reply is never built: its options are written far behind the 500-byte buffer.\<close>

lemma dhcp_reply_overflows: "dhcp_reply request = None"
proof -
  have over: "length r = 500 \<Longrightarrow> wr_block r dhcp_options_at (dhcp_options q) = None" for r q
    by (simp add: wr_block_def dhcp_options_at_def dhcp_packet_size_def)
  define offer where "offer = (take 4 (drop 20 request) = [0, 0, 0, 0])"
  note d = dhcp_reply_def [of request, folded offer_def, unfolded Let_def]
  show ?thesis
  proof (cases "dhcp_reply request")
    case (Some y)
    obtain r1 where r1: "wr_block (replicate 500 0) 0 (take dhcp_packet_size request) = Some r1"
      using Some by (auto simp: d bind_Some_iff)
    obtain r2 where r2: "wr_block r1 0 [if offer then 2 else 4] = Some r2"
      using Some by (auto simp: d r1 bind_Some_iff)
    obtain r3 where r3: "wr_block r2 8 [0, 0, 0, 0] = Some r3"
      using Some by (auto simp: d r1 r2 bind_Some_iff)
    obtain r4 where r4: "wr_block r3 12 ([0, 0, 0, 0] @ [10, 1, 10, 2] @ [10, 1, 10, 1] @ [0, 0, 0, 0]) = Some r4"
      using Some by (auto simp: d r1 r2 r3 bind_Some_iff)
    have "length r4 = 500"
      using wr_block_length [OF r1] wr_block_length [OF r2] wr_block_length [OF r3] wr_block_length [OF r4] by simp
    then show ?thesis using over by (simp only: d r1 r2 r3 r4 bind.bind_lunit)
  qed simp
qed

lemma check_dhcp_kept: "check_dhcp os u data datalen w = Some (r, u', w') \<Longrightarrow> u' = u \<and> w' = w"
  by (auto simp: check_dhcp_def bind_Some_iff dhcp_reply_overflows Let_def split: if_splits)

lemma sys_sendto_frame: "sys_sendto os fd d ep w = (r, w') \<Longrightarrow> fds w' = fds w \<and> clean w' = clean w"
  using fds_sys(6) [of os fd d ep w] clean_sys(6) [of os fd d ep w] by simp

lemma udp_forward_kept:
  assumes "udp_forward os data s w = (s', w')"
  shows "\<exists>u. s' = s\<lparr>sess := u\<rparr> \<and> udp_kept (sess s) w u w'"
proof -
  obtain now v where n: "sys_time os w = (now, v)" by force
  let ?u = "(sess s)\<lparr>u_time := now\<rparr>"
  obtain res e x where x: "sys_sendto os (socket s) data (udp_target ?u) v = ((res, e), x)" by (metis surj_pair)
  define u where "u = (if res \<noteq> int (length data) then if e \<noteq> EINTR \<and> e \<noteq> EAGAIN then ?u\<lparr>u_state := UDP_FINISHING\<rparr> else ?u
      else ?u\<lparr>u_sent := u_sent ?u + of_nat (length data)\<rparr>)"
  have "fds v = fds w" "clean v = clean w" using n by (auto simp: sys_time_def clean_def)
  then have "udp_kept (sess s) w u x"
    using sys_sendto_frame [OF x] by (simp add: udp_kept_def u_def)
  moreover have "udp_forward os data s w = (s\<lparr>sess := u\<rparr>, x)"
    by (simp add: udp_forward_def n x Let_def u_def)
  ultimately show ?thesis using assms by auto
qed

lemma udp_packet_in_kept:
  assumes "udp_packet_in os pkt off datalen h s w = Some (s', w')"
  shows "\<exists>u. s' = s\<lparr>sess := u\<rparr> \<and> udp_kept (sess s) w u w'"
proof -
  obtain r u v where d: "(if uh_source h = 68 \<or> uh_dest h = 67 then check_dhcp os (sess s) (drop off pkt) datalen w
                  else Some (- 1, sess s, w)) = Some (r, u, v)"
    using assms by (auto simp: udp_packet_in_def bind_Some_iff Let_def)
  then have e: "u = sess s" "v = w"
    using check_dhcp_kept [of os "sess s" "drop off pkt" datalen w r u v] by (auto split: if_splits)
  show ?thesis
  proof (cases "r \<ge> 0")
    case True
    then have "s' = s\<lparr>sess := sess s\<rparr>" "w' = w"
      using assms d e by (auto simp: udp_packet_in_def bind_Some_iff Let_def)
    then show ?thesis by (intro exI [of _ "sess s"]) (simp add: udp_kept_def)
  next
    case False
    then obtain block where "udp_forward os block s w = (s', w')"
      using assms d e by (auto simp: udp_packet_in_def bind_Some_iff Let_def)
    then show ?thesis by (rule udp_forward_kept)
  qed
qed

lemma udp_found_ok:
  assumes "udp_found os pkt len off h s w = Some (s', w')" "udp_good s w"
  shows "udp_op_ok s w s' w'"
proof (cases "u_state (sess s) = UDP_ACTIVE")
  case False
  then show ?thesis using assms udp_op_ok_refl by (simp add: udp_found_def)
next
  case True
  then have sock: "0 \<le> socket s" using assms(2) by (simp add: udp_good_def)
  have "udp_packet_in os pkt off (len - off) h s w = Some (s', w')"
    using assms(1) True by (simp add: udp_found_def split: if_splits)
  then show ?thesis using udp_packet_in_kept udp_kept_ok [OF assms(2) sock] by blast
qed

interpretation udp_packet: session_op "udp_found os pkt len off h" udp_good socket for os pkt len off h
  by unfold_locales (use udp_found_ok in \<open>auto simp: udp_op_ok_def\<close>)

subsection \<open>A new session\<close>

lemma open_udp_socket_cases:
  assumes "open_udp_socket os u w = (sock, w')"
  shows "clean w' = clean w \<and> set (fds w) \<subseteq> set (fds w') \<and>
    (sock < 0 \<or> sock \<notin> set (fds w) \<and> sock \<in> set (fds w'))"
proof -
  obtain f v where f: "sys_socket os w = (f, v)" by force
  have c: "clean v = clean w" using clean_sys(17) [of os w] f by simp
  have k: "f = - 1 \<and> fds v = fds w \<or> 0 \<le> f \<and> f \<notin> set (fds w) \<and> fds v = f # fds w"
    using sys_socket_cases [of os w] f by simp
  obtain ok x where x: "sys_protect os f v = (ok, x)" by force
  have xio: "fds x = fds v" "clean x = clean v" using x by (auto simp: sys_protect_def clean_def)
  have "case open_udp_socket os u w of (sock, w') \<Rightarrow> clean w' = clean w \<and> set (fds w) \<subseteq> set (fds w') \<and>
    (sock < 0 \<or> sock \<notin> set (fds w) \<and> sock \<in> set (fds w'))"
    using k c xio by (auto simp: open_udp_socket_def f x Let_def)
  then show ?thesis by (simp only: assms prod.case)
qed

section \<open>The datagram's checksums\<close>

definition udp_segment :: "udp_session \<Rightarrow> byte list \<Rightarrow> byte list" where
  "udp_segment u data = drop (if u_version u = 4 then 20 else 40) (udp_packet u data)"

lemma length_udp_header_front [wire]: "length (udp_header_front u n) = 6"
  by (simp add: udp_header_front_def)

lemma udp_packet_v4_verifies:
  assumes "udp_wf u" "u_version u = 4" "length data \<le> 65507"
  shows "calc_checksum 0 (take 20 (udp_packet u data)) = 0xFFFF"
    "calc_checksum 0 (ip4_pseudo (u_daddr u) (u_saddr u) IPPROTO_UDP
       (length (udp_segment u data)) @ udp_segment u data) = 0xFFFF"
proof -
  have addr: "length (u_saddr u) = 4" "length (u_daddr u) = 4" using assms(1,2) by (simp_all add: udp_wf_def)
  let ?ph = "ip4_pseudo (u_daddr u) (u_saddr u) IPPROTO_UDP (8 + length data)"
  let ?f = "udp_header_front u (length data)"
  define ck where "ck = NOT (calc_checksum (calc_checksum (calc_checksum 0 ?ph) (?f @ le16 0 @ [])) data)"
  have p: "udp_packet u data = ip4_header (20 + (8 + length data)) IPPROTO_UDP (u_daddr u) (u_saddr u) @ ?f @ le16 ck @ data"
    using assms(2) addr by (simp add: udp_packet_def Let_def ck_def)
  show "calc_checksum 0 (take 20 (udp_packet u data)) = 0xFFFF"
    unfolding p using addr by (simp add: ip4_header_verifies wire)
  have s: "udp_segment u data = ?f @ le16 ck @ data"
    unfolding udp_segment_def p using assms(2) addr by (simp add: wire)
  have "calc_checksum 0 (?ph @ ?f @ le16 ck @ [] @ data) = 0xFFFF"
    using assms(3) addr by (intro segment_verifies [OF _ _ _ _ ck_def]) (simp_all add: wire)
  then show "calc_checksum 0 (ip4_pseudo (u_daddr u) (u_saddr u) IPPROTO_UDP
       (length (udp_segment u data)) @ udp_segment u data) = 0xFFFF"
    by (simp add: s wire)
qed

lemma udp_packet_v6_verifies:
  assumes "udp_wf u" "u_version u \<noteq> 4" "length data \<le> 65487"
  shows "calc_checksum 0 (ip6_pseudo_std (u_daddr u) (u_saddr u) IPPROTO_UDP
       (length (udp_segment u data)) @ udp_segment u data) = 0xFFFF"
proof -
  have addr: "length (u_saddr u) = 16" "length (u_daddr u) = 16" using assms(1,2) by (simp_all add: udp_wf_def)
  let ?ph = "ip6_pseudo (u_daddr u) (u_saddr u) IPPROTO_UDP (8 + length data)"
  let ?f = "udp_header_front u (length data)"
  define ck where "ck = NOT (calc_checksum (calc_checksum (calc_checksum 0 ?ph) (?f @ le16 0 @ [])) data)"
  have p: "udp_packet u data = ip6_header (8 + length data) IPPROTO_UDP (u_daddr u) (u_saddr u) @ ?f @ le16 ck @ data"
    using assms(2) addr by (simp add: udp_packet_def Let_def ck_def)
  have s: "udp_segment u data = ?f @ le16 ck @ data"
    unfolding udp_segment_def p using assms(2) addr by (simp add: wire)
  have "calc_checksum 0 (?ph @ ?f @ le16 ck @ [] @ data) = 0xFFFF"
    using assms(3) addr by (intro segment_verifies [OF _ _ _ _ ck_def]) (simp_all add: wire)
  then show ?thesis
    using assms(3) addr by (subst ip6_pseudo_sum) (auto simp: s wire)
qed

section \<open>Known sessions\<close>

lemma udp_matches_Udp: "udp_matches version h saddr daddr x \<Longrightarrow> \<exists>s. x = Udp s"
  by (cases x) auto

lemma handle_udp_known:
  assumes "has_udp_session args pkt p ss = Some True" "fwd53 args"
    "handle_udp os pkt len p uid ss w = Some (ss', w')"
  shows "length ss' = length ss"
proof -
  obtain version h saddr daddr where v: "pkt_version pkt = Some version" "read_udphdr pkt p = Some h"
    "pkt_saddr version pkt = Some saddr" "pkt_daddr version pkt = Some daddr"
    using assms(3) by (auto simp: handle_udp_def bind_Some_iff)
  let ?m = "udp_matches version h saddr daddr"
  obtain x where f: "find ?m ss = Some x"
    using assms(1,2) v by (auto simp: has_udp_session_def)
  then have "?m x" by (auto simp: find_Some_iff)
  then obtain s where "x = Udp s" using udp_matches_Udp by blast
  with f show ?thesis using assms(3) v by (auto simp: handle_udp_def bind_Some_iff)
qed

text \<open>Every UDP datagram written to the tun device verifies at its receiver, and so does its IPv4
  header.\<close>

theorem udp_packet_checksums:
  assumes "udp_wf u" "length data \<le> 65487"
  shows "calc_checksum 0 ((if u_version u = 4 then ip4_pseudo else ip6_pseudo_std) (u_daddr u) (u_saddr u) IPPROTO_UDP
       (length (udp_segment u data)) @ udp_segment u data) = 0xFFFF \<and>
    (u_version u = 4 \<longrightarrow> calc_checksum 0 (take 20 (udp_packet u data)) = 0xFFFF)"
  using udp_packet_v4_verifies [OF assms(1)] udp_packet_v6_verifies [OF assms(1)] assms(2) by simp

definition example_dns :: udp_session where
  "example_dns = \<lparr>u_time = 990, u_uid = 10001, u_version = 4, u_mss = 65507, u_sent = 0, u_received = 0,
     u_saddr = [10, 1, 10, 1], u_source = 40000, u_daddr = [8, 8, 8, 8], u_dest = 53, u_state = UDP_ACTIVE\<rparr>"

theorem udp_packet_checksums_witness:
  "calc_checksum 0 ((if u_version example_dns = 4 then ip4_pseudo else ip6_pseudo_std)
      (u_daddr example_dns) (u_saddr example_dns) IPPROTO_UDP
      (length (udp_segment example_dns [1, 2, 3])) @ udp_segment example_dns [1, 2, 3]) = 0xFFFF \<and>
    calc_checksum 0 (take 20 (udp_packet example_dns [1, 2, 3])) = 0xFFFF"
proof -
  have "udp_wf example_dns" "u_version example_dns = 4" by (simp_all add: example_dns_def udp_wf_def)
  then show ?thesis using udp_packet_checksums [of example_dns "[1, 2, 3]"] by simp
qed

section \<open>DHCP requests\<close>

text \<open>C35: a DHCP request that passes the checks is never answered: building the reply stores its
  options 57600 bytes behind the start of a buffer of 500.\<close>

theorem dhcp_request_overflows:
  assumes "dhcp_packet_size \<le> datalen" "rd_be32 data 236 = Some DHCP_OPTION_MAGIC_NUMBER"
    "rd data 0 = Some 1" "rd data 1 = Some 1" "rd data 2 = Some 6"
  shows "check_dhcp os u data datalen w = None"
  using assms by (simp add: check_dhcp_def dhcp_reply_overflows not_less [symmetric])

theorem dhcp_request_overflows_witness:
  "check_dhcp calm_os example_dns ([1, 1, 6] @ replicate 233 0 @ [0x63, 0x82, 0x53, 0x63]) 240 empty_io = None"
  by (rule dhcp_request_overflows)
     (simp_all add: dhcp_packet_size_def rd_be32_def rd_be16_def rd_def nth_append DHCP_OPTION_MAGIC_NUMBER_def)

text \<open>C34: a UDP session never goes back: under the periodic check, an event of its socket or a
  packet of the app, its state only moves from active to finishing to closed.\<close>

theorem udp_state_forward:
  assumes "udp_good s w"
    "check_udp_session os s n m w = Some (del, s', w') \<or> udp_found os pkt len off h s w = Some (s', w') \<or>
     0 \<le> socket s \<and> check_udp_socket os events s w = Some (s', w')"
  shows "u_state (sess s) \<le> u_state (sess s')"
  using assms check_udp_session_ok [OF _ assms(1)] udp_found_ok [OF _ assms(1)] check_udp_socket_ok [OF _ assms(1)]
  by (elim disjE conjE) (simp_all add: udp_op_ok_def)

theorem udp_state_forward_witness:
  "\<exists>del s' w'. check_udp_session calm_os \<lparr>sid = 1, socket = 7, ev_events = 9,
      sess = example_dns\<lparr>u_state := UDP_FINISHING\<rparr>\<rparr> 1 409 (empty_io\<lparr>fds := [7]\<rparr>) = Some (del, s', w') \<and>
    UDP_FINISHING \<le> u_state (sess s')"
proof -
  let ?s = "\<lparr>sid = 1, socket = 7, ev_events = 9, sess = example_dns\<lparr>u_state := UDP_FINISHING\<rparr>\<rparr>"
  have g: "udp_good ?s (empty_io\<lparr>fds := [7]\<rparr>)"
    by (simp add: udp_good_def udp_wf_def sock_ok_def example_dns_def)
  obtain t where "get_udp_timeout (sess ?s) 1 409 = Some t" by (simp add: get_udp_timeout_def)
  then have "check_udp_session calm_os ?s 1 409 (empty_io\<lparr>fds := [7]\<rparr>) \<noteq> None"
    by (simp add: check_udp_session_def split: prod.split)
  then obtain del s' w' where "check_udp_session calm_os ?s 1 409 (empty_io\<lparr>fds := [7]\<rparr>) = Some (del, s', w')"
    by (metis not_None_eq prod_cases3)
  then show ?thesis using udp_state_forward [OF g] by fastforce
qed

end
