(* ===== verification/Icmp.thy ===== *)
theory Icmp
  imports Packets Contracts
begin

text \<open>
  ICMP sessions (\<^verbatim>\<open>icmp.c\<close>): echo requests of the app are sent through an unprivileged ICMP
  socket, with the identifier complemented, and the answers are given the identifier back and
  written to the tun device. The lemmas show the contracts of the operations and that both
  directions carry a checksum that verifies.
\<close>

section \<open>Timeout and periodic check\<close>

definition get_icmp_timeout :: "icmp_session \<Rightarrow> int \<Rightarrow> int \<Rightarrow> int option" where
  "get_icmp_timeout u sessions maxsessions =
     (if maxsessions = 0 then None
      else let scale = 100 - (sessions * 100) sdiv maxsessions
           in Some ((ICMP_TIMEOUT * scale) sdiv 100))"

definition check_icmp_session ::
    "os \<Rightarrow> icmp_session ng_session \<Rightarrow> int \<Rightarrow> int \<Rightarrow> io \<Rightarrow> (bool \<times> icmp_session ng_session \<times> io) option" where
  "check_icmp_session os s sessions maxsessions w = do {
     let (now, w) = sys_time os w;
     timeout \<leftarrow> get_icmp_timeout (sess s) sessions maxsessions;
     if i_stop (sess s) \<or> i_time (sess s) + timeout < now
     then Some (True, s\<lparr>socket := - 1\<rparr>, sys_close (socket s) w)
     else Some (False, s, w)
   }"

section \<open>Building a message\<close>

text \<open>Storing a 16-bit field: the identifier and the checksum are plain stores.\<close>

definition put16 :: "nat \<Rightarrow> u16 \<Rightarrow> byte list \<Rightarrow> byte list" where
  "put16 i v b = take i b @ le16 v @ drop (i + 2) b"

definition le32 :: "u32 \<Rightarrow> byte list" where
  "le32 v = le16 (ucast v) @ le16 (ucast (drop_bit 16 v))"

text \<open>The message with a new identifier and its checksum, \<open>n\<close> bytes of the buffer \<open>b\<close> long, on
  top of the sum \<open>start\<close>.\<close>

definition icmp_message :: "u16 \<Rightarrow> byte list \<Rightarrow> nat \<Rightarrow> u16 \<Rightarrow> byte list" where
  "icmp_message start b n ident =
     (let b = put16 2 0 (put16 4 ident b)
      in take n (put16 2 (NOT (calc_checksum start (take n b))) b))"

definition icmp_packet :: "icmp_session \<Rightarrow> byte list \<Rightarrow> byte list" where
  "icmp_packet cur data =
     (let v4 = (i_version cur = 4);
          src = take (if v4 then 4 else 16) (i_daddr cur);
          dst = take (if v4 then 4 else 16) (i_saddr cur)
      in (if v4 then ip4_header (20 + length data) IPPROTO_ICMP src dst
          else ip6_header (length data) IPPROTO_ICMPV6 src dst) @ data)"

definition write_icmp :: "os \<Rightarrow> icmp_session \<Rightarrow> byte list \<Rightarrow> io \<Rightarrow> int \<times> io" where
  "write_icmp os cur data w =
     (let buffer = icmp_packet cur data;
          (res, w) = sys_tun_write os buffer w
      in if res \<noteq> int (length buffer) then (- 1, w) else (res, w))"

section \<open>Events on the socket\<close>

text \<open>The pseudo header of an answer is given the length less 40, as a plain store.\<close>

definition icmp_answer :: "os \<Rightarrow> icmp_session \<Rightarrow> byte list \<Rightarrow> byte list" where
  "icmp_answer os cur bytes =
     (let blen = (if i_version cur = 4 then ICMP4_MAXMSG else ICMP6_MAXMSG);
          start = (if i_version cur = 6 then
            calc_checksum 0 (take 16 (i_daddr cur) @ take 16 (i_saddr cur) @
              le32 (of_nat (length bytes) - 40) @ [0, 0, 0, IPPROTO_ICMPV6]) else 0)
      in icmp_message start (buffer_of os blen bytes) (length bytes) (i_id cur))"

definition check_icmp_socket ::
    "os \<Rightarrow> u32 \<Rightarrow> icmp_session ng_session \<Rightarrow> io \<Rightarrow> (icmp_session ng_session \<times> io) option" where
  "check_icmp_socket os events s w =
     (if events AND EPOLLERR \<noteq> 0 then
        let (now, w) = sys_time os w
        in Some (s\<lparr>sess := (sess s)\<lparr>i_time := now, i_stop := True\<rparr>\<rparr>, w)
      else if events AND EPOLLIN \<noteq> 0 then
        let (now, w) = sys_time os w;
            u = (sess s)\<lparr>i_time := now\<rparr>;
            (r, w) = sys_recv (socket s) (if i_version u = 4 then ICMP4_MAXMSG else ICMP6_MAXMSG) w
        in case r of
             Rx_Err e \<Rightarrow>
               Some (s\<lparr>sess := if e \<noteq> EINTR \<and> e \<noteq> EAGAIN then u\<lparr>i_stop := True\<rparr> else u\<rparr>, w)
           | Rx_Data bytes \<Rightarrow>
               if bytes = [] then Some (s\<lparr>sess := u\<lparr>i_stop := True\<rparr>\<rparr>, w)
               else let (r, w) = write_icmp os u (icmp_answer os u bytes) w
                    in Some (s\<lparr>sess := if r < 0 then u\<lparr>i_stop := True\<rparr> else u\<rparr>, w)
      else Some (s, w))"

section \<open>Packets of the app\<close>

definition ICMP_ECHO :: byte where "ICMP_ECHO = 8"

fun icmp_matches :: "int \<Rightarrow> byte list \<Rightarrow> byte list \<Rightarrow> session \<Rightarrow> bool" where
  "icmp_matches version saddr daddr (Icmp s) =
     (\<not> i_stop (sess s) \<and> i_version (sess s) = version \<and> i_saddr (sess s) = saddr \<and> i_daddr (sess s) = daddr)"
| "icmp_matches version saddr daddr _ = False"

definition open_icmp_socket :: "os \<Rightarrow> icmp_session \<Rightarrow> io \<Rightarrow> int \<times> io" where
  "open_icmp_socket os cur w =
     (let (sock, w) = sys_socket os w
      in if sock < 0 then (- 1, w)
         else let (ok, w) = sys_protect os sock w
         in if \<not> ok then (- 1, w) else (sock, w))"

text \<open>The request that goes out: complemented identifier, checksum over \<open>icmplen\<close> bytes.\<close>

definition icmp_request :: "int \<Rightarrow> byte list \<Rightarrow> nat \<Rightarrow> nat \<Rightarrow> byte list option" where
  "icmp_request version pkt p icmplen = do {
     ident \<leftarrow> rd_le16 pkt (p + 4);
     start \<leftarrow> (if version = 6 then do {
         src \<leftarrow> rd_block pkt 8 16;
         dst \<leftarrow> rd_block pkt 24 16;
         plen \<leftarrow> rd_block pkt 4 2;
         nxt \<leftarrow> rd pkt 6;
         Some (calc_checksum 0 (dst @ src @ plen @ [0, 0] @ [0, 0, 0, nxt]))
       } else Some 0);
     if p + icmplen \<le> length pkt then Some (icmp_message start (drop p pkt) icmplen (NOT ident)) else None
   }"

definition icmp_target :: "int \<Rightarrow> byte list \<Rightarrow> endpoint" where
  "icmp_target version daddr = (if version = 4 then Addr4 daddr 0 else Addr6 daddr 0)"

definition icmp_packet_in ::
    "os \<Rightarrow> int \<Rightarrow> byte list \<Rightarrow> byte list \<Rightarrow> icmp_session ng_session \<Rightarrow> io \<Rightarrow> icmp_session ng_session \<times> io" where
  "icmp_packet_in os version daddr msg s w =
     (let (now, w) = sys_time os w;
          u = (sess s)\<lparr>i_time := now\<rparr>;
          ((res, errno), w) = sys_sendto os (socket s) msg (icmp_target version daddr) w
      in (s\<lparr>sess := if res \<noteq> int (length msg) \<and> errno \<noteq> EINTR \<and> errno \<noteq> EAGAIN
                    then u\<lparr>i_stop := True\<rparr> else u\<rparr>, w))"

definition icmp_new ::
    "os \<Rightarrow> byte list \<Rightarrow> nat \<Rightarrow> nat \<Rightarrow> int \<Rightarrow> int \<Rightarrow> byte list \<Rightarrow> byte list \<Rightarrow> session list \<Rightarrow> io \<Rightarrow> (session list \<times> io) option" where
  "icmp_new os pkt p icmplen uid version saddr daddr ss w = do {
     let (i, w) = new_sid w;
     let (now, w) = sys_time os w;
     ident \<leftarrow> rd_le16 pkt (p + 4);
     let u = \<lparr>i_time = now, i_uid = uid, i_version = version, i_saddr = saddr, i_daddr = daddr,
       i_id = ident, i_stop = False\<rparr>;
     let (sock, w) = open_icmp_socket os u w;
     if sock < 0 then Some (ss, w)
     else do {
       let ev = EPOLLIN OR EPOLLERR;
       let (_, w) = sys_epoll_add os sock ev w;
       msg \<leftarrow> icmp_request version pkt p icmplen;
       let (s, w) = icmp_packet_in os version daddr msg \<lparr>sid = i, socket = sock, ev_events = ev, sess = u\<rparr> w;
       Some (Icmp s # ss, w)
     }
   }"

definition handle_icmp ::
    "os \<Rightarrow> byte list \<Rightarrow> nat \<Rightarrow> nat \<Rightarrow> int \<Rightarrow> session list \<Rightarrow> io \<Rightarrow> (session list \<times> io) option" where
  "handle_icmp os pkt len p uid ss w = do {
     version \<leftarrow> pkt_version pkt;
     ty \<leftarrow> rd pkt p;
     if ty \<noteq> ICMP_ECHO then Some (ss, w)
     else if len < p then None
     else do {
       saddr \<leftarrow> pkt_saddr version pkt;
       daddr \<leftarrow> pkt_daddr version pkt;
       case find (icmp_matches version saddr daddr) ss of
         Some (Icmp s) \<Rightarrow> do {
           msg \<leftarrow> icmp_request version pkt p (len - p);
           let (s, w) = icmp_packet_in os version daddr msg s w;
           Some (replace_first (icmp_matches version saddr daddr) (Icmp s) ss, w)
         }
       | _ \<Rightarrow> icmp_new os pkt p (len - p) uid version saddr daddr ss w
     }
   }"

section \<open>The contracts\<close>

definition icmp_good :: "icmp_session ng_session \<Rightarrow> io \<Rightarrow> bool" where
  "icmp_good s w \<longleftrightarrow> 0 \<le> socket s \<and> sock_ok (socket s) w \<and>
     length (i_saddr (sess s)) = (if i_version (sess s) = 4 then 4 else 16) \<and>
     length (i_daddr (sess s)) = (if i_version (sess s) = 4 then 4 else 16)"

lemma icmp_good_upd:
  "icmp_good s w \<Longrightarrow> fds w' = fds w \<Longrightarrow> u = (sess s)\<lparr>i_time := n\<rparr> \<or> u = (sess s)\<lparr>i_time := n, i_stop := b\<rparr> \<Longrightarrow>
     icmp_good (s\<lparr>sess := u\<rparr>) w'"
  by (auto simp: icmp_good_def sock_ok_def)

lemma check_icmp_session_ok:
  assumes "check_icmp_session os s n m w = Some (del, s', w')" "icmp_good s w"
  shows "(del \<longrightarrow> socket s' = - 1) \<and> (\<not> del \<longrightarrow> s' = s \<and> fds w' = fds w) \<and>
    own_fd_only (socket s) w (socket s') w' \<and> (clean w \<longrightarrow> clean w')"
proof -
  obtain now v where t: "sys_time os w = (now, v)" by force
  have io: "fds v = fds w" "clean v = clean w" using t by (auto simp: sys_time_def clean_def)
  have sock: "0 \<le> socket s" "socket s \<in> set (fds w)" using assms(2) by (auto simp: icmp_good_def sock_ok_def)
  obtain timeout where to: "get_icmp_timeout (sess s) n m = Some timeout"
    using assms(1) by (auto simp: check_icmp_session_def t bind_Some_iff)
  have "if i_stop (sess s) \<or> i_time (sess s) + timeout < now
      then del \<and> s' = s\<lparr>socket := - 1\<rparr> \<and> w' = sys_close (socket s) v else \<not> del \<and> s' = s \<and> w' = v"
    using assms(1) by (auto simp: check_icmp_session_def t to split: if_splits)
  then show ?thesis using io sock by (auto simp: own_fd_only_def split: if_splits)
qed

interpretation icmp_check: session_check "\<lambda>s w. check_icmp_session os s n m w" icmp_good socket for os n m
proof unfold_locales
  fix s w s' w' assume g: "icmp_good s w" and c: "check_icmp_session os s n m w = Some (False, s', w')"
  show "icmp_good s' w'" using check_icmp_session_ok [OF c g] g by (auto simp: icmp_good_def sock_ok_def)
next
  fix s w s' w' del assume g: "icmp_good s w" and c: "check_icmp_session os s n m w = Some (del, s', w')"
  show "own_fd_only (socket s) w (socket s') w'" "clean w \<Longrightarrow> clean w'" using check_icmp_session_ok [OF c g] by simp_all
next
  fix s w s' w' assume g: "icmp_good s w" and c: "check_icmp_session os s n m w = Some (True, s', w')"
  show "socket s' = - 1" using check_icmp_session_ok [OF c g] by simp
qed (auto simp: icmp_good_def)

text \<open>Events and packets keep the descriptor, and touch the time and the stop flag only.\<close>

definition icmp_kept :: "icmp_session ng_session \<Rightarrow> io \<Rightarrow> icmp_session ng_session \<Rightarrow> io \<Rightarrow> bool" where
  "icmp_kept s w s' w' \<longleftrightarrow> fds w' = fds w \<and> clean w' = clean w \<and> (icmp_good s w \<longrightarrow> icmp_good s' w') \<and>
     socket s' = socket s \<and> (i_stop (sess s) \<longrightarrow> i_stop (sess s'))"

lemma icmp_keptI:
  "fds w' = fds w \<Longrightarrow> clean w' = clean w \<Longrightarrow>
   s' = s \<or> s' = s\<lparr>sess := (sess s)\<lparr>i_time := n\<rparr>\<rparr> \<or> s' = s\<lparr>sess := (sess s)\<lparr>i_time := n, i_stop := True\<rparr>\<rparr> \<Longrightarrow>
   icmp_kept s w s' w'"
  by (auto simp: icmp_kept_def icmp_good_def sock_ok_def)

lemma write_icmp_frame: "write_icmp os u d w = (r, w') \<Longrightarrow> fds w' = fds w \<and> clean w' = clean w"
  by (auto simp: write_icmp_def Let_def sys_tun_write_def clean_def split: if_splits)

lemma sys_recv_io: "sys_recv fd n w = (r, w') \<Longrightarrow> fds w' = fds w \<and> clean w' = clean w"
  using fds_sys_recv [of fd n w] clean_sys(16) [of fd n w] by simp

lemma check_icmp_socket_kept:
  assumes "check_icmp_socket os events s w = Some (s', w')"
  shows "icmp_kept s w s' w'"
proof -
  obtain now v where n: "sys_time os w = (now, v)" by force
  have io: "fds v = fds w" "clean v = clean w" using n by (auto simp: sys_time_def clean_def)
  let ?u = "(sess s)\<lparr>i_time := now\<rparr>"
  obtain r x where r: "sys_recv (socket s) (if i_version (sess s) = 4 then ICMP4_MAXMSG else ICMP6_MAXMSG) v = (r, x)"
    by force
  have k: "icmp_kept s w (s\<lparr>sess := ?u\<rparr>) y" "icmp_kept s w (s\<lparr>sess := ?u\<lparr>i_stop := True\<rparr>\<rparr>) y"
    if "fds y = fds w" "clean y = clean w" for y
    using that by (auto intro!: icmp_keptI [where n = now])
  have kx: "fds x = fds w" "clean x = clean w" using sys_recv_io [OF r] io by simp_all
  have "case check_icmp_socket os events s w of None \<Rightarrow> True | Some (a, b) \<Rightarrow> icmp_kept s w a b"
  proof (cases r)
    case (Rx_Err e)
    then show ?thesis
      using k [OF io] k [OF kx] icmp_keptI [of w w s s]
      by (simp add: check_icmp_socket_def n r Let_def)
  next
    case (Rx_Data bytes)
    obtain res y where y: "write_icmp os ?u (icmp_answer os ?u bytes) x = (res, y)" by force
    have "fds y = fds w" "clean y = clean w" using write_icmp_frame [OF y] kx by simp_all
    then show ?thesis
      using Rx_Data k [OF io] k [OF kx] k [of y] icmp_keptI [of w w s s]
      by (simp add: check_icmp_socket_def n r y Let_def)
  qed
  then show ?thesis by (simp add: assms)
qed

lemma icmp_packet_in_kept:
  assumes "icmp_packet_in os version daddr msg s w = (s', w')"
  shows "icmp_kept s w s' w'"
proof -
  obtain now v where n: "sys_time os w = (now, v)" by force
  obtain res e x where x: "sys_sendto os (socket s) msg (icmp_target version daddr) v = ((res, e), x)"
    by (metis surj_pair)
  have io: "fds x = fds w" "clean x = clean w"
    using n x fds_sys(6) [of os "socket s" msg "icmp_target version daddr" v]
      clean_sys(6) [of os "socket s" msg "icmp_target version daddr" v]
    by (auto simp: sys_time_def clean_def)
  have "case icmp_packet_in os version daddr msg s w of (a, b) \<Rightarrow> icmp_kept s w a b"
    using icmp_keptI [OF io, where n = now] by (simp add: icmp_packet_in_def n x Let_def)
  then show ?thesis by (simp only: assms prod.case)
qed

interpretation icmp_socket: session_op "check_icmp_socket os events" icmp_good socket for os events
  by unfold_locales
     (use check_icmp_socket_kept in \<open>auto simp: icmp_kept_def own_fd_only_def\<close>)

interpretation icmp_packet: session_op "\<lambda>s w. Some (icmp_packet_in os version daddr msg s w)" icmp_good socket
  for os version daddr msg
  by unfold_locales
     (use icmp_packet_in_kept in \<open>auto simp: icmp_kept_def own_fd_only_def\<close>)

lemma open_icmp_socket_cases:
  assumes "open_icmp_socket os u w = (sock, w')"
  shows "clean w' = clean w \<and> set (fds w) \<subseteq> set (fds w') \<and>
    (sock < 0 \<or> sock \<notin> set (fds w) \<and> sock \<in> set (fds w'))"
proof -
  obtain f v where f: "sys_socket os w = (f, v)" by force
  have c: "clean v = clean w" using clean_sys(17) [of os w] f by simp
  have k: "f = - 1 \<and> fds v = fds w \<or> 0 \<le> f \<and> f \<notin> set (fds w) \<and> fds v = f # fds w"
    using sys_socket_cases [of os w] f by simp
  obtain ok x where x: "sys_protect os f v = (ok, x)" by force
  have xio: "fds x = fds v" "clean x = clean v" using x by (auto simp: sys_protect_def clean_def)
  have "case open_icmp_socket os u w of (sock, w') \<Rightarrow> clean w' = clean w \<and> set (fds w) \<subseteq> set (fds w') \<and>
    (sock < 0 \<or> sock \<notin> set (fds w) \<and> sock \<in> set (fds w'))"
    using k c xio by (auto simp: open_icmp_socket_def f x Let_def)
  then show ?thesis by (simp only: assms prod.case)
qed

section \<open>Checksums\<close>

lemma length_put16 [simp]: "i + 2 \<le> length b \<Longrightarrow> length (put16 i v b) = length b"
  by (simp add: put16_def)

text \<open>A message built on the sum 0 verifies.\<close>

lemma icmp_message_verifies:
  assumes "4 \<le> n" "n \<le> length b" "6 \<le> length b" "n \<le> 131072"
  shows "calc_checksum 0 (icmp_message 0 b n ident) = 0xFFFF"
proof -
  define c where "c = put16 4 ident b"
  have lc: "length c = length b" using assms(3) by (simp add: c_def)
  have split: "take n (put16 2 v c) = take 2 c @ le16 v @ take (n - 4) (drop 4 c)" for v
    using assms lc by (simp add: put16_def)
  have "put16 2 v (put16 2 0 c) = put16 2 v c" for v
    using assms lc by (simp add: put16_def)
  then have "icmp_message 0 b n ident =
      take 2 c @ le16 (NOT (calc_checksum 0 (take 2 c @ le16 0 @ take (n - 4) (drop 4 c)))) @ take (n - 4) (drop 4 c)"
    by (simp add: icmp_message_def Let_def c_def [symmetric] split)
  then show ?thesis
    using assms lc by (simp only:) (rule inet.csum_verifies [OF _ _ refl], simp_all)
qed

text \<open>The request sent for an IPv4 echo request, and the answer handed back to the app.\<close>

lemma icmp_request_v4:
  assumes "icmp_request 4 pkt p n = Some msg" "8 \<le> n" "n \<le> 65535"
  shows "length msg = n \<and> calc_checksum 0 msg = 0xFFFF"
proof -
  obtain ident where m: "msg = icmp_message 0 (drop p pkt) n (NOT ident)" and le: "p + n \<le> length pkt"
    using assms(1) by (auto simp: icmp_request_def bind_Some_iff split: if_splits)
  then have "calc_checksum 0 msg = 0xFFFF" using assms by (simp only: m) (rule icmp_message_verifies, simp_all)
  moreover have "length msg = n" using assms le by (simp add: m icmp_message_def Let_def)
  ultimately show ?thesis by simp
qed

lemma icmp_answer_v4:
  assumes "i_version u = 4" "8 \<le> length bytes" "length bytes \<le> ICMP4_MAXMSG"
  shows "length (icmp_answer os u bytes) = length bytes \<and> calc_checksum 0 (icmp_answer os u bytes) = 0xFFFF"
proof -
  have l: "length (buffer_of os ICMP4_MAXMSG bytes) = ICMP4_MAXMSG" "ICMP4_MAXMSG = 65507"
    using assms(3) by (simp_all add: buffer_of_def ICMP4_MAXMSG_def)
  have e: "icmp_answer os u bytes = icmp_message 0 (buffer_of os ICMP4_MAXMSG bytes) (length bytes) (i_id u)"
    using assms(1) by (simp add: icmp_answer_def)
  show ?thesis
    unfolding e using assms l
    by (intro conjI icmp_message_verifies) (simp_all add: icmp_message_def Let_def)
qed

text \<open>Complementing the identifier twice gives it back.\<close>

lemma rd_le16_put16: "i + 2 \<le> length b \<Longrightarrow> rd_le16 (put16 i v b) i = Some v"
  using rd_le16_at [of "take i b" v "drop (i + 2) b"] by (simp add: put16_def)

definition example_ping :: icmp_session where
  "example_ping = \<lparr>i_time = 995, i_uid = 10001, i_version = 4, i_saddr = [10, 1, 10, 1],
     i_daddr = [9, 9, 9, 9], i_id = 77, i_stop = False\<rparr>"

lemma icmp_message_ident:
  assumes "6 \<le> n" "n \<le> length b"
  shows "rd_le16 (icmp_message start b n ident) 4 = Some ident"
proof -
  have "rd_le16 (put16 4 ident b) 4 = Some ident" using assms by (intro rd_le16_put16) simp
  moreover have "rd_le16 (take n (put16 2 ck (put16 2 0 c))) 4 = rd_le16 c 4" if "length c = length b" for ck c
    using that assms by (simp add: rd_le16_def rd_def put16_def le16_def nth_append)
  moreover have "length (put16 4 ident b) = length b" using assms by (simp add: put16_def)
  ultimately show ?thesis by (simp add: icmp_message_def Let_def)
qed

lemma find_behind: "find P xs = None \<Longrightarrow> P s \<Longrightarrow> find P (xs @ s # ys) = Some s \<and> replace_first P y (xs @ s # ys) = xs @ y # ys"
  by (induction xs) (auto split: if_splits)

text \<open>C33: a second program that pings an address gets its answers with the first program's identifier. When a
  session of the packet's addresses exists, an echo request with any other identifier is sent through that
  session's socket, under the complement of its own identifier; no session is added, the session keeps
  the identifier it was opened with, and every answer (of at least 8 bytes, either IP version) that comes in on it is
  given that one, which is not the request's.\<close>

theorem icmp_answer_first_id:
  assumes "handle_icmp os pkt len p uid (xs @ Icmp s # ys) w = Some (ss', w')"
    and "pkt_version pkt = Some (i_version (sess s))" "pkt_saddr (i_version (sess s)) pkt = Some (i_saddr (sess s))"
    "pkt_daddr (i_version (sess s)) pkt = Some (i_daddr (sess s))" "rd pkt p = Some ICMP_ECHO" "\<not> i_stop (sess s)"
    and "\<And>t. Icmp t \<in> set xs \<Longrightarrow> i_saddr (sess t) \<noteq> i_saddr (sess s) \<or> i_daddr (sess t) \<noteq> i_daddr (sess s)"
    and "rd_le16 pkt (p + 4) = Some ident" "ident \<noteq> i_id (sess s)" "p + 6 \<le> len"
    and "8 \<le> length bytes" "length bytes \<le> (if i_version (sess s) = 4 then ICMP4_MAXMSG else ICMP6_MAXMSG)"
  shows "\<exists>s' msg r. ss' = xs @ Icmp s' # ys \<and> i_id (sess s') = i_id (sess s) \<and>
    Sock_Sendto (socket s) msg (icmp_target (i_version (sess s)) (i_daddr (sess s))) r \<in> set (trace w') \<and>
    rd_le16 msg 4 = Some (NOT ident) \<and>
    rd_le16 (icmp_answer os (sess s') bytes) 4 = Some (i_id (sess s)) \<and>
    rd_le16 (icmp_answer os (sess s') bytes) 4 \<noteq> Some ident"
proof -
  let ?P = "icmp_matches (i_version (sess s)) (i_saddr (sess s)) (i_daddr (sess s))"
  have "find ?P xs = None"
    unfolding find_None_iff using assms(7) by (metis icmp_matches.elims(2))
  then have f: "find ?P (xs @ Icmp s # ys) = Some (Icmp s)" "replace_first ?P y (xs @ Icmp s # ys) = xs @ y # ys" for y
    using find_behind [of ?P xs "Icmp s"] assms(6) by simp_all
  have pl: "\<not> len < p" using assms(10) by simp
  obtain msg where m: "icmp_request (i_version (sess s)) pkt p (len - p) = Some msg"
    using assms(1) pl unfolding handle_icmp_def assms(2-5) bind.bind_lunit f(1) by (auto simp: bind_Some_iff)
  obtain s' v where i: "icmp_packet_in os (i_version (sess s)) (i_daddr (sess s)) msg s w = (s', v)" by force
  have ss: "ss' = xs @ Icmp s' # ys" "w' = v"
    using assms(1) pl unfolding handle_icmp_def assms(2-5) bind.bind_lunit f m by (simp_all add: i)
  obtain start where msg: "msg = icmp_message start (drop p pkt) (len - p) (NOT ident)" "p + (len - p) \<le> length pkt"
    using m by (auto simp: icmp_request_def assms(8) bind_Some_iff split: if_splits)
  have "rd_le16 msg 4 = Some (NOT ident)"
    unfolding msg(1) using assms(10) msg(2) by (intro icmp_message_ident) simp_all
  moreover have u: "i_id (sess s') = i_id (sess s)" "i_version (sess s') = i_version (sess s)"
    using i by (auto simp: icmp_packet_in_def Let_def split: prod.splits)
  moreover have "\<exists>r. Sock_Sendto (socket s) msg (icmp_target (i_version (sess s)) (i_daddr (sess s))) r \<in> set (trace v)"
    using i by (auto simp: icmp_packet_in_def sys_sendto_def sys_time_def Let_def split: prod.splits)
  moreover have "rd_le16 (icmp_answer os (sess s') bytes) 4 = Some (i_id (sess s'))"
    unfolding icmp_answer_def Let_def using assms(11,12) u(2) by (intro icmp_message_ident) (auto simp: buffer_of_def)
  ultimately show ?thesis using ss assms(9) by auto
qed

text \<open>A session that 10.1.10.1 opened for 9.9.9.9 with the identifier 77, and a request of the identifier 99.\<close>

definition second_ping :: "byte list" where
  "second_ping = [0x45, 0, 0, 28, 0, 0, 0, 0, 64, 1, 0, 0, 10, 1, 10, 1, 9, 9, 9, 9] @ [8, 0, 0, 0, 99, 0, 1, 0]"

theorem icmp_answer_first_id_witness:
  "\<exists>s' w'. handle_icmp calm_os second_ping 28 20 10002 [Icmp \<lparr>sid = 2, socket = 8, ev_events = 9, sess = example_ping\<rparr>]
      (empty_io\<lparr>fds := [8]\<rparr>) = Some ([Icmp s'], w') \<and>
    rd_le16 second_ping 24 = Some 99 \<and> rd_le16 (icmp_answer calm_os (sess s') [0, 0, 0, 0, 1, 2, 3, 4]) 4 = Some 77"
proof -
  let ?s = "\<lparr>sid = 2, socket = 8, ev_events = 9, sess = example_ping\<rparr>"
  have p: "pkt_version second_ping = Some (i_version (sess ?s))"
    "pkt_saddr (i_version (sess ?s)) second_ping = Some (i_saddr (sess ?s))"
    "pkt_daddr (i_version (sess ?s)) second_ping = Some (i_daddr (sess ?s))" "rd second_ping 20 = Some ICMP_ECHO"
    "rd_le16 second_ping (20 + 4) = Some 99"
    by (simp_all add: second_ping_def example_ping_def pkt_version_def pkt_saddr_def pkt_daddr_def rd_def rd_block_def
        rd_le16_def ICMP_ECHO_def drop_bit_eq_div nth_append)
  have "\<exists>y. handle_icmp calm_os second_ping 28 20 10002 ([] @ Icmp ?s # []) (empty_io\<lparr>fds := [8]\<rparr>) = Some y"
    using p by (simp add: handle_icmp_def icmp_request_def example_ping_def second_ping_def split: prod.split)
  then obtain ss' w' where h: "handle_icmp calm_os second_ping 28 20 10002 ([] @ Icmp ?s # []) (empty_io\<lparr>fds := [8]\<rparr>) = Some (ss', w')"
    by auto
  from icmp_answer_first_id [OF h p(1-4) _ _ p(5), of "[0, 0, 0, 0, 1, 2, 3, 4]"] obtain s' where
    "ss' = [Icmp s']" "rd_le16 (icmp_answer calm_os (sess s') [0, 0, 0, 0, 1, 2, 3, 4]) 4 = Some 77"
    by (auto simp: example_ping_def ICMP4_MAXMSG_def)
  then show ?thesis using h p(5) by auto
qed

text \<open>With IPv4, the echo request that is sent on and the answer that is handed to the app have
  the length of the message they are made from and a checksum that verifies.\<close>

theorem icmp_checksums_v4:
  assumes "icmp_request 4 pkt p n = Some msg" "8 \<le> n" "n \<le> 65535"
    and "i_version u = 4" "8 \<le> length bytes" "length bytes \<le> ICMP4_MAXMSG"
  shows "length msg = n \<and> calc_checksum 0 msg = 0xFFFF \<and>
    length (icmp_answer os u bytes) = length bytes \<and> calc_checksum 0 (icmp_answer os u bytes) = 0xFFFF"
  using icmp_request_v4 [OF assms(1-3)] icmp_answer_v4 [OF assms(4-6)] by simp

theorem icmp_checksums_v4_witness:
  "\<exists>msg. icmp_request 4 (replicate 20 0 @ [8, 0, 0, 0, 77, 0, 1, 0]) 20 8 = Some msg \<and>
    length msg = 8 \<and> calc_checksum 0 msg = 0xFFFF \<and>
    length (icmp_answer calm_os example_ping [0, 0, 0, 0, 1, 2, 3, 4]) = length [0, 0, 0, 0, 1, 2, 3, 4 :: byte] \<and>
    calc_checksum 0 (icmp_answer calm_os example_ping [0, 0, 0, 0, 1, 2, 3, 4]) = 0xFFFF"
proof -
  obtain msg where m: "icmp_request 4 (replicate 20 0 @ [8, 0, 0, 0, 77, 0, 1, 0]) 20 8 = Some msg"
    by (simp add: icmp_request_def rd_le16_def rd_def nth_append)
  show ?thesis
    using icmp_checksums_v4 [OF m, of example_ping "[0, 0, 0, 0, 1, 2, 3, 4]" calm_os] m
    by (simp add: example_ping_def ICMP4_MAXMSG_def)
qed

end
