(* ===== verification/Uid.thy ===== *)
theory Uid
  imports Packets
begin

text \<open>
  The owner of a connection (\<open>get_uid\<close> and \<open>get_uid_sub\<close> of \<^verbatim>\<open>ip.c\<close>): a scan of a table of
  \<^verbatim>\<open>/proc/net\<close>. The lemma says what the scan returns: the first exact match, or else the last
  line with the source port.
\<close>

section \<open>The scan\<close>

text \<open>\<open>htonl\<close> on each 32-bit word of an address.\<close>

fun swap_words :: "byte list \<Rightarrow> byte list" where
  "swap_words (a # b # c # d # r) = d # c # b # a # swap_words r"
| "swap_words _ = []"

definition line_addr :: "proc_line \<Rightarrow> byte list" where
  "line_addr l = swap_words (hex2bytes (pl_hex l))"

definition line_valid :: "int \<Rightarrow> proc_line \<Rightarrow> bool" where
  "line_valid version l \<longleftrightarrow> length (pl_hex l) = (if version = 4 then 8 else 32) \<and> pl_sport l > 0 \<and> pl_uid l \<ge> 0"

text \<open>The loop over the lines, with the user found so far.\<close>

fun scan_lines :: "int \<Rightarrow> u16 \<Rightarrow> byte list \<Rightarrow> u16 \<Rightarrow> int \<Rightarrow> proc_line option list \<Rightarrow> int" where
  "scan_lines version sport daddr dport uid [] = uid"
| "scan_lines version sport daddr dport uid (None # ls) = scan_lines version sport daddr dport uid ls"
| "scan_lines version sport daddr dport uid (Some l # ls) =
     (if line_valid version l \<and> pl_sport l = uint sport then
        if pl_dport l = uint dport \<and> line_addr l = daddr then pl_uid l
        else scan_lines version sport daddr dport (pl_uid l) ls
      else scan_lines version sport daddr dport uid ls)"

definition proc_file :: "int \<Rightarrow> byte \<Rightarrow> string option" where
  "proc_file version protocol =
     (if protocol = IPPROTO_ICMP \<and> version = 4 then Some ''/proc/net/icmp''
      else if protocol = IPPROTO_ICMPV6 \<and> version = 6 then Some ''/proc/net/icmp6''
      else if protocol = IPPROTO_TCP then Some (if version = 4 then ''/proc/net/tcp'' else ''/proc/net/tcp6'')
      else if protocol = IPPROTO_UDP then Some (if version = 4 then ''/proc/net/udp'' else ''/proc/net/udp6'')
      else None)"

definition get_uid_sub :: "os \<Rightarrow> int \<Rightarrow> byte \<Rightarrow> u16 \<Rightarrow> byte list \<Rightarrow> u16 \<Rightarrow> int" where
  "get_uid_sub os version protocol sport daddr dport =
     (case proc_file version protocol of None \<Rightarrow> - 1
      | Some fn \<Rightarrow> (case os_proc os fn of None \<Rightarrow> - 1
          | Some ls \<Rightarrow> scan_lines version sport daddr dport (- 1) ls))"

text \<open>An IPv4 connection may be listed in the table of IPv6 with a mapped address.\<close>

definition get_uid :: "os \<Rightarrow> int \<Rightarrow> byte \<Rightarrow> u16 \<Rightarrow> byte list \<Rightarrow> u16 \<Rightarrow> int" where
  "get_uid os version protocol sport daddr dport =
     (let uid = (if version = 4
                 then get_uid_sub os 6 protocol sport (replicate 10 0 @ [0xFF, 0xFF] @ take 4 daddr) dport
                 else - 1)
      in if uid < 0 then get_uid_sub os version protocol sport daddr dport else uid)"

section \<open>What the scan returns\<close>

definition port_lines :: "int \<Rightarrow> u16 \<Rightarrow> proc_line option list \<Rightarrow> proc_line list" where
  "port_lines version sport ls = [l \<leftarrow> map the (filter (\<lambda>x. x \<noteq> None) ls). line_valid version l \<and> pl_sport l = uint sport]"

definition exact :: "byte list \<Rightarrow> u16 \<Rightarrow> proc_line \<Rightarrow> bool" where
  "exact daddr dport l \<longleftrightarrow> pl_dport l = uint dport \<and> line_addr l = daddr"

text \<open>C40: the scan of a table of \<^verbatim>\<open>/proc/net\<close> gives the user of the first line with the local port and
  the remote address and port of the packet and, if there is none, of the last line with its local
  port.\<close>

theorem scan_lines_port:
  "scan_lines version sport daddr dport uid ls =
     (case find (exact daddr dport) (port_lines version sport ls) of
        Some l \<Rightarrow> pl_uid l
      | None \<Rightarrow> (if port_lines version sport ls = [] then uid else pl_uid (last (port_lines version sport ls))))"
  by (induction version sport daddr dport uid ls rule: scan_lines.induct)
     (auto simp: port_lines_def exact_def split: option.splits)

lemma scan_lines_valid: "uid \<ge> - 1 \<Longrightarrow> scan_lines version sport daddr dport uid ls \<ge> - 1"
  by (induction version sport daddr dport uid ls rule: scan_lines.induct) (auto simp: line_valid_def)

end
