(* ===== verification/Ip.thy ===== *)
theory Ip
  imports Tcp_Machine Udp Icmp Uid
begin

text \<open>
  Packets from the tun device (\<^verbatim>\<open>ip.c\<close>): reading one, checking its IP header, finding the
  transport header, limiting the number of sessions, and handing it to the protocol's handler.
  \<open>ihl\<close> and the extension headers may place the payload beyond the packet; the code's unsigned
  subtraction then passes the length check, and so does the model's.
\<close>

section \<open>Layers\<close>

definition is_lower_layer :: "byte \<Rightarrow> bool" where
  "is_lower_layer protocol \<longleftrightarrow> protocol \<in> {0, 60, 43, 44, 51, 50, 135}"

definition is_upper_layer :: "byte \<Rightarrow> bool" where
  "is_upper_layer protocol \<longleftrightarrow> protocol \<in> {IPPROTO_TCP, IPPROTO_UDP, IPPROTO_ICMP, IPPROTO_ICMPV6}"

section \<open>The IP header\<close>

definition IP_MF :: u16 where "IP_MF = 0x2000"

definition ANDROID_LOG_WARN :: int where "ANDROID_LOG_WARN = 5"

text \<open>The protocol and the offset of the payload, or \<open>None\<close> inside for a packet that is dropped.
  The fragment field is tested as it is stored; the checksum only when logging is verbose.\<close>

definition parse_ip4 :: "int \<Rightarrow> byte list \<Rightarrow> nat \<Rightarrow> (byte \<times> nat) option option" where
  "parse_ip4 loglevel pkt len =
     (if len < 20 then Some None
      else do {
        protocol \<leftarrow> rd pkt 9;
        frag_off \<leftarrow> rd_le16 pkt 6;
        b0 \<leftarrow> rd pkt 0;
        tot_len \<leftarrow> rd_be16 pkt 2;
        header \<leftarrow> rd_block pkt 0 20;
        let ipoptlen = ((b0 AND 0xF) - 5) * 4;
        if frag_off AND IP_MF \<noteq> 0 then Some None
        else if unat tot_len \<noteq> len then Some None
        else if loglevel < ANDROID_LOG_WARN \<and> calc_checksum 0 header = 0 then Some None
        else Some (Some (protocol, 20 + unat ipoptlen))
      })"

text \<open>The walk over the extension headers: \<open>off\<close> is a 16-bit offset.\<close>

partial_function (option) ext_loop :: "byte list \<Rightarrow> u16 \<Rightarrow> byte \<Rightarrow> (u16 \<times> byte) option" where
  "ext_loop pkt off protocol = do {
     nxt \<leftarrow> rd pkt (unat off);
     if is_lower_layer nxt \<and> \<not> is_upper_layer protocol then do {
       l \<leftarrow> rd pkt (unat off + 1);
       ext_loop pkt (off + (8 + ucast l)) nxt
     } else Some (off, protocol)
   }"

definition parse_ip6 :: "byte list \<Rightarrow> nat \<Rightarrow> (byte \<times> nat) option option" where
  "parse_ip6 pkt len =
     (if len < 40 then Some None
      else do {
        nxt \<leftarrow> rd pkt 6;
        (off, protocol) \<leftarrow>
          (if \<not> is_upper_layer nxt then do {
             (off, protocol) \<leftarrow> ext_loop pkt 40 nxt;
             Some (if is_upper_layer protocol then (off, protocol) else (0, nxt))
           } else Some (0, nxt));
        Some (Some (protocol, 40 + unat off))
      })"

definition parse_ip :: "int \<Rightarrow> byte list \<Rightarrow> nat \<Rightarrow> (byte \<times> nat) option option" where
  "parse_ip loglevel pkt len = do {
     version \<leftarrow> pkt_version pkt;
     if version = 4 then parse_ip4 loglevel pkt len
     else if version = 6 then parse_ip6 pkt len
     else Some None
   }"

section \<open>The transport header\<close>

text \<open>\<open>length - (payload - pkt) < n\<close> in unsigned arithmetic.\<close>

definition too_short :: "nat \<Rightarrow> nat \<Rightarrow> nat \<Rightarrow> bool" where
  "too_short len p n \<longleftrightarrow> p \<le> len \<and> len - p < n"

text \<open>The ports (the identifier for ICMP) and the SYN flag, or \<open>None\<close> inside for a packet that is
  too short. \<open>struct icmp\<close> has 28 bytes.\<close>

definition transport :: "byte list \<Rightarrow> nat \<Rightarrow> byte \<Rightarrow> nat \<Rightarrow> (u16 \<times> u16 \<times> bool) option option" where
  "transport pkt len protocol p =
     (if protocol = IPPROTO_ICMP \<or> protocol = IPPROTO_ICMPV6 then
        if too_short len p 28 then Some None
        else do { i \<leftarrow> rd_be16 pkt (p + 4); Some (Some (i, i, False)) }
      else if protocol = IPPROTO_UDP then
        if too_short len p 8 then Some None
        else do { s \<leftarrow> rd_be16 pkt p; d \<leftarrow> rd_be16 pkt (p + 2); Some (Some (s, d, False)) }
      else if protocol = IPPROTO_TCP then
        if too_short len p 20 then Some None
        else do {
          s \<leftarrow> rd_be16 pkt p; d \<leftarrow> rd_be16 pkt (p + 2); f \<leftarrow> rd pkt (p + 13);
          Some (Some (s, d, f AND 2 \<noteq> 0))
        }
      else Some (Some (0, 0, False)))"

section \<open>Dispatch\<close>

text \<open>Whether the packet would start a session.\<close>

definition starts_session :: "arguments \<Rightarrow> byte list \<Rightarrow> nat \<Rightarrow> byte \<Rightarrow> bool \<Rightarrow> session list \<Rightarrow> bool option" where
  "starts_session args pkt p protocol syn ss =
     (if protocol = IPPROTO_ICMP \<or> protocol = IPPROTO_ICMPV6 then Some True
      else if protocol = IPPROTO_UDP then map_option Not (has_udp_session args pkt p ss)
      else Some (protocol = IPPROTO_TCP \<and> syn))"

definition handle_ip ::
    "os \<Rightarrow> arguments \<Rightarrow> int \<Rightarrow> byte list \<Rightarrow> nat \<Rightarrow> int \<Rightarrow> int \<Rightarrow> session list \<Rightarrow> io \<Rightarrow> (session list \<times> io) option" where
  "handle_ip os args loglevel pkt len sessions maxsessions ss w = do {
     r \<leftarrow> parse_ip loglevel pkt len;
     case r of None \<Rightarrow> Some (ss, w)
     | Some (protocol, p) \<Rightarrow> do {
         version \<leftarrow> pkt_version pkt;
         t \<leftarrow> transport pkt len protocol p;
         case t of None \<Rightarrow> Some (ss, w)
         | Some (sport, dport, syn) \<Rightarrow> do {
             new \<leftarrow> starts_session args pkt p protocol syn ss;
             if sessions \<ge> maxsessions \<and> new then Some (ss, w)
             else do {
               daddr \<leftarrow> pkt_daddr version pkt;
               let uid = (if new then get_uid os version protocol sport daddr dport else - 1);
               if protocol = IPPROTO_ICMP \<or> protocol = IPPROTO_ICMPV6 then handle_icmp os pkt len p uid ss w
               else if protocol = IPPROTO_UDP then handle_udp os pkt len p uid ss w
               else if protocol = IPPROTO_TCP then handle_tcp os args pkt len p uid ss w
               else Some (ss, w)
             }
           }
       }
   }"

text \<open>One packet of the tun device: the result code, and the sessions. The buffer has twice the
  MTU.\<close>

definition check_tun ::
    "os \<Rightarrow> arguments \<Rightarrow> int \<Rightarrow> u32 \<Rightarrow> int \<Rightarrow> int \<Rightarrow> session list \<Rightarrow> io \<Rightarrow> (int \<times> session list \<times> io) option" where
  "check_tun os args loglevel events sessions maxsessions ss w =
     (if events AND EPOLLERR \<noteq> 0 then Some (- 1, ss, w)
      else if events AND EPOLLIN \<noteq> 0 then
        let (r, w) = sys_tun_read os (unat get_mtu) w
        in case r of
             Rx_Err e \<Rightarrow> Some (if e = EINTR \<or> e = EAGAIN then 0 else - 1, ss, w)
           | Rx_Data bs \<Rightarrow>
               if bs = [] then Some (- 1, ss, w)
               else do {
                 (ss, w) \<leftarrow> handle_ip os args loglevel (buffer_of os (2 * unat get_mtu) bs) (length bs)
                   sessions maxsessions ss w;
                 Some (0, ss, w)
               }
      else Some (0, ss, w))"

section \<open>What the parsers accept\<close>

lemma lower_not_upper: "is_lower_layer x \<Longrightarrow> \<not> is_upper_layer x"
  by (auto simp: is_lower_layer_def is_upper_layer_def IPPROTO_TCP_def IPPROTO_UDP_def IPPROTO_ICMP_def IPPROTO_ICMPV6_def)

lemma ext_loop_not_upper:
  assumes "ext_loop pkt off protocol = Some r" "\<not> is_upper_layer protocol"
  shows "\<not> is_upper_layer (snd r)"
proof -
  have "\<not> is_upper_layer protocol \<longrightarrow> \<not> is_upper_layer (snd r)"
  proof (rule ext_loop.raw_induct [rotated, OF assms(1)])
    fix f pkt off protocol r
    assume IH: "\<And>pkt off protocol r. f pkt off protocol = Some r \<Longrightarrow> \<not> is_upper_layer protocol \<longrightarrow> \<not> is_upper_layer (snd r)"
      and body: "rd pkt (unat off) \<bind> (\<lambda>nxt.
        if is_lower_layer nxt \<and> \<not> is_upper_layer protocol
        then rd pkt (unat off + 1) \<bind> (\<lambda>l. f pkt (off + (8 + ucast l)) nxt)
        else Some (off, protocol)) = Some r"
    then show "\<not> is_upper_layer protocol \<longrightarrow> \<not> is_upper_layer (snd r)"
      by (auto simp: bind_Some_iff dest!: IH lower_not_upper split: if_splits)
  qed
  then show ?thesis using assms(2) by simp
qed

text \<open>C28: a packet of IPv6 is taken to have its transport header right behind the fixed header, and the
  protocol of its next-header field: the walk over the extension headers never gives another
  result, so a packet with extension headers is never passed on.\<close>

theorem parse_ip6_fixed:
  assumes "parse_ip6 pkt len = Some (Some (protocol, p))"
  shows "p = 40 \<and> rd pkt 6 = Some protocol"
proof -
  obtain nxt where n: "rd pkt 6 = Some nxt" "\<not> len < 40"
    using assms by (auto simp: parse_ip6_def bind_Some_iff split: if_splits)
  show ?thesis
  proof (cases "is_upper_layer nxt")
    case True
    then show ?thesis using assms n by (simp add: parse_ip6_def)
  next
    case False
    then obtain off q where e: "ext_loop pkt 40 nxt = Some (off, q)"
      using assms n by (auto simp: parse_ip6_def bind_Some_iff split: if_splits)
    then have "\<not> is_upper_layer q" using ext_loop_not_upper [OF e False] by simp
    then show ?thesis using assms n False e by (simp add: parse_ip6_def)
  qed
qed

theorem parse_ip6_fixed_witness:
  "40 = (40 :: nat) \<and> rd ([0x60, 0, 0, 0, 0, 8, 17] @ replicate 41 0) 6 = Some 17"
  by (rule parse_ip6_fixed [where len = 48])
     (simp add: parse_ip6_def rd_def is_upper_layer_def IPPROTO_TCP_def IPPROTO_UDP_def IPPROTO_ICMP_def IPPROTO_ICMPV6_def)

lemma mf_bit: "(ucast (b :: byte) * 256 + ucast (x :: byte)) AND IP_MF \<noteq> (0 :: u16) \<longleftrightarrow> bit b 5"
proof -
  let ?w = "ucast b * 256 + ucast x :: u16"
  have x: "unat x < 256" "unat b < 256" using unsigned_less [of x, where ?'a = nat] unsigned_less [of b, where ?'a = nat] by simp_all
  have d: "(B * 256 + X) div 8192 = B div 32" if "X < 256" for B X :: nat
    using that div_mult2_eq [of "B * 256 + X" 256 32] by simp
  have "unat b * 256 + unat x < 65536" using x by linarith
  then have "unat ?w = unat b * 256 + unat x"
    by (simp add: unat_word_ariths unsigned_ucast_eq take_bit_nat_eq_self)
  then have "unat ?w div 2 ^ 13 = unat b div 2 ^ 5" using d [OF x(1)] by simp
  then have "bit (unat ?w) 13 \<longleftrightarrow> bit (unat b) 5" by (simp only: bit_iff_odd)
  then have "bit ?w 13 \<longleftrightarrow> bit b 5" by (simp add: bit_unsigned_iff)
  moreover have "?w AND 2 ^ 13 = 0 \<longleftrightarrow> \<not> bit ?w 13" by (rule and_exp_eq_0_iff_not_bit)
  moreover have "IP_MF = 2 ^ 13" by (simp add: IP_MF_def)
  ultimately show ?thesis by (simp only: not_not)
qed

lemma payload_offset:
  fixes b :: byte
  shows "20 + unat (((b AND 0xF) - 5) * 4) = (if unat b mod 16 < 5 then 256 else 0) + 4 * (unat b mod 16)"
proof -
  define k where "k = unat b mod 16"
  have k: "k < 16" by (simp add: k_def)
  have "b AND 0xF = take_bit 4 b" by (simp add: take_bit_eq_mask mask_eq_exp_minus_1)
  then have "unat (b AND 0xF) = k" by (simp add: k_def take_bit_eq_mod unat_mod)
  then have b: "b AND 0xF = of_nat k" by (simp flip: \<open>unat (b AND 0xF) = k\<close>)
  have "list_all (\<lambda>k. 20 + unat ((of_nat k - 5 :: byte) * 4) = (if k < 5 then 256 else 0) + 4 * k) [0..<16]"
    by code_simp
  then have "20 + unat ((of_nat k - 5 :: byte) * 4) = (if k < 5 then 256 else 0) + 4 * k"
    using k by (simp add: list_all_iff)
  then show ?thesis by (simp add: b k_def)
qed

text \<open>C38: exactly which packets of IPv4 are accepted, and with which payload, at a log level of WARN or above
  (below it a packet whose header sums to zero is dropped too): the header is there, the length is the one that the header
  states, and bit 5 of the byte at 7 is clear (the flag More-Fragments is in the byte at 6). The payload is taken at
  the length of the header; a header length below 5 words, which no packet can have, is
  not refused but wraps around: the payload is then taken 256 bytes behind it.\<close>

theorem parse_ip4_accepts:
  assumes "ANDROID_LOG_WARN \<le> loglevel" "20 \<le> length pkt"
  shows "parse_ip4 loglevel pkt len = Some (Some (protocol, p)) \<longleftrightarrow>
    20 \<le> len \<and> 256 * unat (pkt ! 2) + unat (pkt ! 3) = len \<and> \<not> bit (pkt ! 7) 5 \<and> protocol = pkt ! 9 \<and>
    p = (if unat (pkt ! 0) mod 16 < 5 then 256 else 0) + 4 * (unat (pkt ! 0) mod 16)"
proof -
  have r: "rd pkt 9 = Some (pkt ! 9)" "rd pkt 0 = Some (pkt ! 0)" "rd_block pkt 0 20 = Some (take 20 pkt)"
    "rd_le16 pkt 6 = Some (ucast (pkt ! 7) * 256 + ucast (pkt ! 6))"
    "rd_be16 pkt 2 = Some (ucast (pkt ! 2) * 256 + ucast (pkt ! 3))"
    using assms(2) by (auto simp: rd_def rd_block_def rd_le16_def rd_be16_def)
  have x: "unat (pkt ! 2) < 256" "unat (pkt ! 3) < 256"
    using unsigned_less [of "pkt ! 2", where ?'a = nat] unsigned_less [of "pkt ! 3", where ?'a = nat] by simp_all
  then have "unat (pkt ! 2) * 256 + unat (pkt ! 3) < 65536" by linarith
  then have l: "unat (ucast (pkt ! 2) * 256 + ucast (pkt ! 3) :: u16) = 256 * unat (pkt ! 2) + unat (pkt ! 3)"
    by (simp add: unat_word_ariths unsigned_ucast_eq take_bit_nat_eq_self)
  have w: "\<not> loglevel < ANDROID_LOG_WARN" using assms(1) by simp
  show ?thesis
    unfolding parse_ip4_def r bind.bind_lunit Let_def mf_bit l payload_offset using w by auto
qed

text \<open>A header that states no words at all.\<close>

theorem parse_ip4_accepts_witness:
  "parse_ip4 5 ([0x40, 0, 0, 20, 0, 0, 0, 0, 64, 17] @ replicate 10 0) 20 = Some (Some (17, 256))"
proof -
  have l: "20 \<le> length ([0x40, 0, 0, 20, 0, 0, 0, 0, 64, 17 :: byte] @ replicate 10 0)" by simp
  have "ANDROID_LOG_WARN \<le> 5" by (simp add: ANDROID_LOG_WARN_def)
  from parse_ip4_accepts [OF this l, of 20 17 256] show ?thesis by simp
qed

text \<open>The byte of the header that holds the More-Fragments flag has no influence on what is
  done with the packet: the test looks at the other byte of the field.\<close>

theorem parse_ip4_ignores_MF:
  assumes "ANDROID_LOG_WARN \<le> loglevel"
  shows "parse_ip4 loglevel (pkt[6 := x]) len = parse_ip4 loglevel pkt len"
proof (cases "7 < length pkt")
  case True
  have u: "rd (pkt[6 := x]) i = rd pkt i" if "i \<noteq> 6" for i using that by (simp add: rd_def)
  have b: "(rd_block (pkt[6 := x]) 0 20 = None) = (rd_block pkt 0 20 = None)" by (simp add: rd_block_def)
  obtain h h' where "rd_block pkt 0 20 = None \<and> rd_block (pkt[6 := x]) 0 20 = None \<or>
      rd_block pkt 0 20 = Some h \<and> rd_block (pkt[6 := x]) 0 20 = Some h'"
    using b by (metis option.exhaust)
  moreover have "rd_le16 (pkt[6 := x]) 6 = Some (ucast (pkt ! 7) * 256 + ucast x)"
    "rd_le16 pkt 6 = Some (ucast (pkt ! 7) * 256 + ucast (pkt ! 6))"
    using True by (simp_all add: rd_le16_def rd_def)
  moreover have "rd_be16 (pkt[6 := x]) 2 = rd_be16 pkt 2" by (simp add: rd_be16_def u)
  ultimately show ?thesis
    using assms by (elim disjE) (simp_all add: parse_ip4_def u mf_bit cong: if_cong)
next
  case False
  then have "rd_le16 (pkt[6 := x]) 6 = None" "rd_le16 pkt 6 = None"
    by (simp_all add: rd_le16_def rd_def)
  moreover have "rd (pkt[6 := x]) 9 = rd pkt 9" by (simp add: rd_def)
  ultimately show ?thesis by (simp add: parse_ip4_def)
qed

theorem parse_ip4_ignores_MF_witness:
  "parse_ip4 5 (([0x45, 0, 0, 20, 0, 0, 0, 0, 64, 17] @ replicate 10 0)[6 := 0x20]) 20 =
   parse_ip4 5 ([0x45, 0, 0, 20, 0, 0, 0, 0, 64, 17] @ replicate 10 0) 20"
  by (rule parse_ip4_ignores_MF) (simp add: ANDROID_LOG_WARN_def)

section \<open>The limit on sessions\<close>

lemma transport_syn:
  assumes "transport pkt len IPPROTO_TCP p = Some (Some (sport, dport, syn))" "read_tcphdr pkt p = Some h"
  shows "th_syn h = syn"
  using assms
  by (auto simp: transport_def read_tcphdr_def bind_Some_iff IPPROTO_TCP_def IPPROTO_UDP_def IPPROTO_ICMP_def
      IPPROTO_ICMPV6_def Let_def split: if_splits)

text \<open>A packet that starts no session meets one of the handlers of UDP and TCP, and there a session
  that exists or, for TCP, a packet without SYN.\<close>

lemma no_new_session:
  assumes "fwd53 args" "starts_session args pkt p protocol syn ss = Some False"
    "transport pkt len protocol p = Some (Some (sport, dport, syn))"
    "protocol = IPPROTO_UDP \<and> handle_udp os pkt len p uid ss w = Some (ss', w') \<or>
     protocol = IPPROTO_TCP \<and> handle_tcp os args pkt len p uid ss w = Some (ss', w')"
  shows "length ss' = length ss"
proof -
  have "has_udp_session args pkt p ss = Some True" if "protocol = IPPROTO_UDP"
    using assms(2) that by (auto simp: starts_session_def IPPROTO_UDP_def IPPROTO_ICMP_def IPPROTO_ICMPV6_def)
  moreover have "\<not> syn" if "protocol = IPPROTO_TCP"
    using assms(2) that
    by (auto simp: starts_session_def IPPROTO_TCP_def IPPROTO_UDP_def IPPROTO_ICMP_def IPPROTO_ICMPV6_def)
  moreover have "\<exists>h. read_tcphdr pkt p = Some h" if "handle_tcp os args pkt len p uid ss w = Some (ss', w')"
    using that by (auto simp: handle_tcp_def bind_Some_iff)
  ultimately show ?thesis
    using assms(1,3,4) handle_udp_known handle_tcp_no_syn transport_syn by metis
qed

text \<open>At the limit a packet that is handled at all starts no session.\<close>

lemma handle_ip_at_limit:
  assumes "m \<le> n" "handle_ip os args loglevel pkt len n m ss w = Some (ss', w')"
  shows "ss' = ss \<or> (\<exists>protocol p sport dport syn. starts_session args pkt p protocol syn ss = Some False \<and>
    transport pkt len protocol p = Some (Some (sport, dport, syn)) \<and>
    (protocol = IPPROTO_UDP \<and> handle_udp os pkt len p (- 1) ss w = Some (ss', w') \<or>
     protocol = IPPROTO_TCP \<and> handle_tcp os args pkt len p (- 1) ss w = Some (ss', w')))"
proof -
  obtain r where r: "parse_ip loglevel pkt len = Some r"
    using assms(2) by (auto simp: handle_ip_def bind_Some_iff)
  show ?thesis
  proof (cases r)
    case None
    then show ?thesis using assms(2) r by (simp add: handle_ip_def)
  next
    case (Some a)
    then obtain protocol p where r: "parse_ip loglevel pkt len = Some (Some (protocol, p))" using r by (cases a) auto
    obtain version t where v: "pkt_version pkt = Some version" "transport pkt len protocol p = Some t"
      using assms(2) by (auto simp: handle_ip_def r bind_Some_iff)
    show ?thesis
    proof (cases t)
      case None
      then show ?thesis using assms(2) r v by (simp add: handle_ip_def)
    next
      case (Some b)
      then obtain sport dport syn where t: "transport pkt len protocol p = Some (Some (sport, dport, syn))"
        using v by (cases b) auto
      obtain new where new: "starts_session args pkt p protocol syn ss = Some new"
        using assms(2) by (auto simp: handle_ip_def r v(1) t bind_Some_iff)
      have "ss' = ss" if new
        using assms that by (simp add: handle_ip_def r v(1) t new)
      moreover have "ss' = ss \<or> protocol = IPPROTO_UDP \<and> handle_udp os pkt len p (- 1) ss w = Some (ss', w') \<or>
          protocol = IPPROTO_TCP \<and> handle_tcp os args pkt len p (- 1) ss w = Some (ss', w')" if "\<not> new"
        using assms(2) that new
        by (auto simp: handle_ip_def r v(1) t bind_Some_iff starts_session_def split: if_splits)
      moreover have "starts_session args pkt p protocol syn ss = Some False" if "\<not> new" using new that by simp
      ultimately show ?thesis using t by blast
    qed
  qed
qed

text \<open>C26: at the limit no packet adds a session, and none is lost (with DNS forwarding on; without it
  every datagram to port 53 counts as one of a known session).\<close>

theorem session_limit:
  assumes "fwd53 args" "m \<le> n" "handle_ip os args loglevel pkt len n m ss w = Some (ss', w')"
  shows "length ss' = length ss"
  using handle_ip_at_limit [OF assms(2,3)] no_new_session [OF assms(1)] by blast

definition echo_packet :: "byte list" where
  "echo_packet = [0x45, 0, 0, 48, 0, 0, 0, 0, 64, 1, 0, 0, 10, 1, 10, 1, 8, 8, 8, 8, 8, 0] @ replicate 26 0"

theorem session_limit_witness:
  "\<exists>ss' w'. handle_ip calm_os \<lparr>fwd53 = True, rcode = 3, proxyIp = [], proxyPort = 8080\<rparr> 5 echo_packet 48 7 7 [] empty_io
      = Some (ss', w') \<and> length ss' = length ([] :: session list)"
proof -
  let ?a = "\<lparr>fwd53 = True, rcode = 3, proxyIp = [], proxyPort = 8080\<rparr> :: arguments"
  have "pkt_version echo_packet = Some 4" by (simp add: pkt_version_def echo_packet_def rd_def)
  moreover have "parse_ip4 5 echo_packet 48 = Some (Some (IPPROTO_ICMP, 20))"
    by (simp add: parse_ip4_def echo_packet_def rd_def rd_be16_def rd_le16_def rd_block_def IP_MF_def
        ANDROID_LOG_WARN_def IPPROTO_ICMP_def)
  moreover have "transport echo_packet 48 IPPROTO_ICMP 20 = Some (Some (0, 0, False))"
    by (simp add: transport_def too_short_def echo_packet_def rd_be16_def rd_def nth_append)
  ultimately have r: "handle_ip calm_os ?a 5 echo_packet 48 7 7 [] empty_io = Some ([], empty_io)"
    by (simp add: handle_ip_def parse_ip_def starts_session_def)
  show ?thesis using session_limit [OF _ _ r] r by auto
qed

end
