(* ===== verification/Session_List.thy ===== *)
theory Session_List
  imports Ip
begin

text \<open>
  The list of sessions as a whole: what a session of any kind promises, and that every packet
  from the tun device (\<^verbatim>\<open>ip.c\<close>) keeps it for all sessions of the list, new ones included. The
  contracts of the three protocols are lifted from their own session type to \<open>session\<close>.
\<close>

section \<open>One contract for the three kinds\<close>

fun session_good :: "session \<Rightarrow> io \<Rightarrow> bool" where
  "session_good (Icmp s) w = icmp_good s w"
| "session_good (Udp s) w = udp_good s w"
| "session_good (Tcp s) w = tcp_ok s w"

fun on_icmp ::
    "(icmp_session ng_session \<Rightarrow> io \<Rightarrow> (icmp_session ng_session \<times> io) option) \<Rightarrow> session \<Rightarrow> io \<Rightarrow> (session \<times> io) option" where
  "on_icmp f (Icmp s) w = do { (s, w) \<leftarrow> f s w; Some (Icmp s, w) }"
| "on_icmp f x w = Some (x, w)"

fun on_udp ::
    "(udp_session ng_session \<Rightarrow> io \<Rightarrow> (udp_session ng_session \<times> io) option) \<Rightarrow> session \<Rightarrow> io \<Rightarrow> (session \<times> io) option" where
  "on_udp f (Udp s) w = do { (s, w) \<leftarrow> f s w; Some (Udp s, w) }"
| "on_udp f x w = Some (x, w)"

fun on_tcp ::
    "(tcp_session ng_session \<Rightarrow> io \<Rightarrow> (tcp_session ng_session \<times> io) option) \<Rightarrow> session \<Rightarrow> io \<Rightarrow> (session \<times> io) option" where
  "on_tcp f (Tcp s) w = do { (s, w) \<leftarrow> f s w; Some (Tcp s, w) }"
| "on_tcp f x w = Some (x, w)"

lemma session_good_frame: "session_good s w \<Longrightarrow> sock_ok (socket_of s) w' \<Longrightarrow> session_good s w'"
  by (cases s) (auto simp: icmp_good_def udp_good_def tcp_ok_def tcp_good_def)

lemma session_good_sock: "session_good s w \<Longrightarrow> sock_ok (socket_of s) w"
  by (cases s) (auto simp: icmp_good_def udp_good_def tcp_ok_def tcp_good_def)

interpretation slist: session_frame session_good socket_of
  by unfold_locales (rule session_good_sock, assumption, rule session_good_frame)

lemma own_fd_same: "own_fd_only fd w fd w"
  by (simp add: own_fd_only_def)

text \<open>A contract of one protocol is a contract on the list, where other sessions are left alone.\<close>

lemma session_opI:
  assumes "\<And>s w s' w'. session_good s w \<Longrightarrow> f s w = Some (s', w') \<Longrightarrow>
    session_good s' w' \<and> own_fd_only (socket_of s) w (socket_of s') w' \<and> (clean w \<longrightarrow> clean w')"
  shows "session_op f session_good socket_of"
  by unfold_locales (use assms in blast)+

lemma on_icmp_op:
  assumes "session_op f icmp_good socket"
  shows "session_op (on_icmp f) session_good socket_of"
proof (rule session_opI)
  fix x w x' w' assume g: "session_good x w" and f: "on_icmp f x w = Some (x', w')"
  show "session_good x' w' \<and> own_fd_only (socket_of x) w (socket_of x') w' \<and> (clean w \<longrightarrow> clean w')"
    using g f session_op.op_inv [OF assms] session_op.op_fd [OF assms] session_op.op_clean [OF assms]
    by (cases x) (auto simp: bind_Some_iff own_fd_same)
qed

lemma on_udp_op:
  assumes "session_op f udp_good socket"
  shows "session_op (on_udp f) session_good socket_of"
proof (rule session_opI)
  fix x w x' w' assume g: "session_good x w" and f: "on_udp f x w = Some (x', w')"
  show "session_good x' w' \<and> own_fd_only (socket_of x) w (socket_of x') w' \<and> (clean w \<longrightarrow> clean w')"
    using g f session_op.op_inv [OF assms] session_op.op_fd [OF assms] session_op.op_clean [OF assms]
    by (cases x) (auto simp: bind_Some_iff own_fd_same)
qed

lemma on_tcp_op:
  assumes "session_op f tcp_ok socket"
  shows "session_op (on_tcp f) session_good socket_of"
proof (rule session_opI)
  fix x w x' w' assume g: "session_good x w" and f: "on_tcp f x w = Some (x', w')"
  show "session_good x' w' \<and> own_fd_only (socket_of x) w (socket_of x') w' \<and> (clean w \<longrightarrow> clean w')"
    using g f session_op.op_inv [OF assms] session_op.op_fd [OF assms] session_op.op_clean [OF assms]
    by (cases x) (auto simp: bind_Some_iff own_fd_same)
qed

text \<open>The interpretations on the packet handlers: what a packet does to the session it is for.\<close>

interpretation icmp_in: session_op "on_icmp (\<lambda>s w. Some (icmp_packet_in os version daddr msg s w))"
  session_good socket_of for os version daddr msg
  by (intro on_icmp_op) unfold_locales

interpretation udp_in: session_op "on_udp (udp_found os pkt len off h)" session_good socket_of for os pkt len off h
  by (intro on_udp_op) unfold_locales

interpretation tcp_in: session_op "on_tcp (\<lambda>s w. tcp_packet_in os hostname pkt off datalen h s w)"
  session_good socket_of for os hostname pkt off datalen h
  by (intro on_tcp_op) unfold_locales

section \<open>The invariant of the list\<close>

text \<open>Every session is good, no two hold the same descriptor, and no call was ever made to close a
  descriptor that was not open.\<close>

definition list_inv :: "session list \<Rightarrow> io \<Rightarrow> bool" where
  "list_inv ss w \<longleftrightarrow> all_inv session_good socket_of ss w \<and> clean w"

lemma list_inv_grown: "list_inv ss w \<Longrightarrow> set (fds w) \<subseteq> set (fds w') \<Longrightarrow> clean w' = clean w \<Longrightarrow> list_inv ss w'"
  using slist.grown_inv [of ss w w'] by (simp add: list_inv_def)

lemma list_inv_new:
  "list_inv ss w \<Longrightarrow> set (fds w) \<subseteq> set (fds w') \<Longrightarrow> clean w' = clean w \<Longrightarrow> session_good s w' \<Longrightarrow>
     socket_of s \<notin> set (fds w) \<Longrightarrow> list_inv (s # ss) w'"
  using slist.new_inv [of ss w w' s] by (simp add: list_inv_def)

section \<open>ICMP packets\<close>

lemma pkt_addr_length:
  "pkt_saddr version pkt = Some a \<Longrightarrow> length a = (if version = 4 then 4 else 16)"
  "pkt_daddr version pkt = Some a \<Longrightarrow> length a = (if version = 4 then 4 else 16)"
  by (auto simp: pkt_saddr_def pkt_daddr_def dest: rd_block_length split: if_splits)

lemma icmp_new_inv:
  assumes "icmp_new os pkt p n uid version saddr daddr ss w = Some (ss', w')" "list_inv ss w"
    "length saddr = (if version = 4 then 4 else 16)" "length daddr = (if version = 4 then 4 else 16)"
  shows "list_inv ss' w'"
proof -
  obtain i w1 where i: "new_sid w = (i, w1)" by force
  obtain now w2 where n: "sys_time os w1 = (now, w2)" by force
  obtain ident where id: "rd_le16 pkt (p + 4) = Some ident"
    using assms(1) by (auto simp: icmp_new_def i n bind_Some_iff)
  let ?u = "\<lparr>i_time = now, i_uid = uid, i_version = version, i_saddr = saddr, i_daddr = daddr,
       i_id = ident, i_stop = False\<rparr>"
  obtain sock w3 where o: "open_icmp_socket os ?u w2 = (sock, w3)" by force
  have io: "fds w2 = fds w" "clean w2 = clean w"
    using i n by (auto simp: new_sid_def sys_time_def clean_def)
  note o' = open_icmp_socket_cases [OF o, unfolded io]
  show ?thesis
  proof (cases "sock < 0")
    case True
    then have "ss' = ss" "w' = w3" using assms(1) by (simp_all add: icmp_new_def i n id o)
    then show ?thesis using list_inv_grown [OF assms(2)] o' by simp
  next
    case False
    let ?ev = "EPOLLIN OR EPOLLERR"
    obtain ok w4 where e: "sys_epoll_add os sock ?ev w3 = (ok, w4)" by force
    obtain msg where m: "icmp_request version pkt p n = Some msg"
      using assms(1) False by (auto simp: icmp_new_def i n id o e bind_Some_iff)
    let ?s = "\<lparr>sid = i, socket = sock, ev_events = ?ev, sess = ?u\<rparr>"
    obtain s w5 where s: "icmp_packet_in os version daddr msg ?s w4 = (s, w5)" by force
    have r: "ss' = Icmp s # ss" "w' = w5"
      using assms(1) False by (simp_all add: icmp_new_def i n id o e m s)
    have io4: "fds w4 = fds w3" "clean w4 = clean w3" using e by (auto simp: sys_epoll_add_def clean_def)
    have "icmp_good ?s w4" using False o' assms(3,4) io4 by (simp add: icmp_good_def sock_ok_def)
    then show ?thesis
      using icmp_packet_in_kept [OF s] o' io4 False r
      by (auto simp: icmp_kept_def intro!: list_inv_new [OF assms(2)])
  qed
qed

lemma handle_icmp_inv:
  assumes "handle_icmp os pkt len p uid ss w = Some (ss', w')" "list_inv ss w"
  shows "list_inv ss' w'"
proof -
  obtain version ty where v: "pkt_version pkt = Some version" "rd pkt p = Some ty"
    using assms(1) by (auto simp: handle_icmp_def bind_Some_iff)
  show ?thesis
  proof (cases "ty \<noteq> ICMP_ECHO")
    case True
    then show ?thesis using assms v by (simp add: handle_icmp_def)
  next
    case False
    then obtain saddr daddr where a: "pkt_saddr version pkt = Some saddr" "pkt_daddr version pkt = Some daddr"
      and le: "\<not> len < p"
      using assms(1) v by (auto simp: handle_icmp_def bind_Some_iff split: if_splits)
    let ?m = "icmp_matches version saddr daddr"
    show ?thesis
    proof (cases "\<exists>s. find ?m ss = Some (Icmp s)")
      case True
      then obtain s where f: "find ?m ss = Some (Icmp s)" by blast
      then obtain msg where m: "icmp_request version pkt p (len - p) = Some msg"
        using assms(1) v a le False by (auto simp: handle_icmp_def bind_Some_iff)
      obtain s1 w1 where s1: "icmp_packet_in os version daddr msg s w = (s1, w1)" by force
      have "ss' = replace_first ?m (Icmp s1) ss" "w' = w1"
        using assms(1) v a le False f m s1 by (simp_all add: handle_icmp_def)
      then show ?thesis
        using icmp_in.found_step [OF _ f, of w os version daddr msg "Icmp s1" w1] assms(2) s1
        by (simp add: list_inv_def)
    next
      case None: False
      then have "icmp_new os pkt p (len - p) uid version saddr daddr ss w = Some (ss', w')"
        using assms(1) v a le False
        by (auto simp: handle_icmp_def split: option.splits session.splits)
      then show ?thesis using icmp_new_inv assms(2) pkt_addr_length a by blast
    qed
  qed
qed

section \<open>UDP packets\<close>

lemma udp_new_inv:
  assumes "udp_new os pkt off n uid version h saddr daddr ss w = Some (ss', w')" "list_inv ss w"
    "length saddr = (if version = 4 then 4 else 16)" "length daddr = (if version = 4 then 4 else 16)"
  shows "list_inv ss' w'"
proof -
  obtain i w1 where i: "new_sid w = (i, w1)" by force
  obtain now w2 where n: "sys_time os w1 = (now, w2)" by force
  let ?u = "new_udp_session now uid version h saddr daddr"
  obtain sock w3 where o: "open_udp_socket os ?u w2 = (sock, w3)" by force
  have io: "fds w2 = fds w" "clean w2 = clean w"
    using i n by (auto simp: new_sid_def sys_time_def clean_def)
  note o' = open_udp_socket_cases [OF o, unfolded io]
  show ?thesis
  proof (cases "sock < 0")
    case True
    then have "ss' = ss" "w' = w3" using assms(1) by (simp_all add: udp_new_def i n o)
    then show ?thesis using list_inv_grown [OF assms(2)] o' by simp
  next
    case False
    let ?ev = "EPOLLIN OR EPOLLERR"
    obtain ok w4 where e: "sys_epoll_add os sock ?ev w3 = (ok, w4)" by force
    let ?s = "\<lparr>sid = i, socket = sock, ev_events = ?ev, sess = ?u\<rparr>"
    obtain s w5 where s: "udp_packet_in os pkt off n h ?s w4 = Some (s, w5)"
      using assms(1) False by (auto simp: udp_new_def i n o e bind_Some_iff)
    have r: "ss' = Udp s # ss" "w' = w5"
      using assms(1) False by (simp_all add: udp_new_def i n o e s)
    have io4: "fds w4 = fds w3" "clean w4 = clean w3" using e by (auto simp: sys_epoll_add_def clean_def)
    have g: "udp_good ?s w4" using False o' assms(3,4) io4
      by (simp add: udp_good_def sock_ok_def udp_wf_def new_udp_session_def)
    obtain u where u: "s = ?s\<lparr>sess := u\<rparr>" "udp_kept ?u w4 u w5"
      using udp_packet_in_kept [OF s] by auto
    have "udp_op_ok ?s w4 s w5" using udp_kept_ok [OF g, of u w5] u False by simp
    then have "udp_good s w5" by (simp add: udp_op_ok_def)
    then show ?thesis
      using u o' io4 False r by (auto simp: udp_kept_def intro!: list_inv_new [OF assms(2)])
  qed
qed

lemma handle_udp_inv:
  assumes "handle_udp os pkt len p uid ss w = Some (ss', w')" "list_inv ss w"
  shows "list_inv ss' w'"
proof -
  obtain version h saddr daddr where v: "pkt_version pkt = Some version" "read_udphdr pkt p = Some h"
    "pkt_saddr version pkt = Some saddr" "pkt_daddr version pkt = Some daddr"
    using assms(1) by (auto simp: handle_udp_def bind_Some_iff)
  let ?m = "udp_matches version h saddr daddr"
  show ?thesis
  proof (cases "\<exists>s. find ?m ss = Some (Udp s)")
    case True
    then obtain s where f: "find ?m ss = Some (Udp s)" by blast
    then obtain s1 w1 where s1: "udp_found os pkt len (p + 8) h s w = Some (s1, w1)"
      using assms(1) v by (auto simp: handle_udp_def bind_Some_iff)
    have "ss' = replace_first ?m (Udp s1) ss" "w' = w1"
      using assms(1) v f s1 by (simp_all add: handle_udp_def)
    then show ?thesis
      using udp_in.found_step [OF _ f, of w os pkt len "p + 8" h "Udp s1" w1] assms(2) s1
      by (simp add: list_inv_def)
  next
    case None: False
    then have "udp_new os pkt (p + 8) (len - (p + 8)) uid version h saddr daddr ss w = Some (ss', w')"
      using assms(1) v
      by (auto simp: handle_udp_def Let_def split: option.splits session.splits if_splits)
    then show ?thesis using udp_new_inv assms(2) pkt_addr_length v by blast
  qed
qed

text \<open>A blocked session holds no descriptor.\<close>

lemma block_udp_inv:
  assumes "block_udp os pkt p uid ss w = Some (ss', w')" "list_inv ss w"
  shows "list_inv ss' w'"
proof -
  obtain i w1 where i: "new_sid w = (i, w1)" by force
  obtain now w2 where n: "sys_time os w1 = (now, w2)" by force
  obtain version h saddr daddr where v: "pkt_version pkt = Some version" "read_udphdr pkt p = Some h"
    "pkt_saddr version pkt = Some saddr" "pkt_daddr version pkt = Some daddr"
    using assms(1) by (auto simp: block_udp_def bind_Some_iff i n)
  have io: "fds w2 = fds w" "clean w2 = clean w"
    using i n by (auto simp: new_sid_def sys_time_def clean_def)
  obtain s where r: "ss' = Udp s # ss" "w' = w2" "socket s = - 1" "u_state (sess s) = UDP_BLOCKED" "udp_wf (sess s)"
    using assms(1) pkt_addr_length(1) [OF v(3)] pkt_addr_length(2) [OF v(4)]
    by (auto simp: block_udp_def v i n udp_wf_def split: if_splits)
  then have "udp_good s w2" by (simp add: udp_good_def sock_ok_def)
  moreover have "socket s \<notin> set (held socket_of ss)" using r by (simp add: held_def)
  ultimately show ?thesis
    using list_inv_grown [OF assms(2), of w2] io r by (auto simp: list_inv_def all_inv_def held_Cons)
qed

section \<open>TCP packets\<close>

lemma open_tcp_socket_cases:
  assumes "open_tcp_socket os t al w = (sock, w')"
  shows "clean w' = clean w \<and> set (fds w) \<subseteq> set (fds w') \<and>
    (sock < 0 \<or> sock \<notin> set (fds w) \<and> sock \<in> set (fds w'))"
proof -
  obtain f v where f: "sys_socket os w = (f, v)" by force
  have c: "clean v = clean w" using clean_sys(17) [of os w] f by simp
  have k: "f = - 1 \<and> fds v = fds w \<or> 0 \<le> f \<and> f \<notin> set (fds w) \<and> fds v = f # fds w"
    using sys_socket_cases [of os w] f by simp
  obtain ok x where x: "sys_protect os f v = (ok, x)" by force
  have xio: "fds x = fds v" "clean x = clean v" using x by (auto simp: sys_protect_def clean_def)
  obtain ok2 y where y: "sys_fcntl os f x = (ok2, y)" by force
  have yio: "fds y = fds v" "clean y = clean v" using y xio by (auto simp: sys_fcntl_def clean_def)
  define vn where "vn = (if proxied_port (t_dest t) then (if of_char (CHR '':'') \<in> set (raddr al) then 6 else 4)
    else t_version t)"
  define tg where "tg = (if proxied_port (t_dest t) then (if vn = 4 then Proxy4 else Proxy6) (raddr al) (rport al)
    else (if vn = 4 then Addr4 else Addr6) (t_daddr t) (t_dest t))"
  obtain err errno z where z: "sys_connect os f tg y = ((err, errno), z)" by (metis surj_pair)
  have e: "open_tcp_socket os t al w =
    (if f < 0 then (- 1, v) else if \<not> ok then (- 1, x) else if \<not> ok2 then (- 1, y)
     else if err < 0 \<and> errno \<noteq> EINPROGRESS then (- 1, z) else (f, z))"
    by (simp only: open_tcp_socket_def f x y z [unfolded tg_def vn_def] Let_def prod.case)
  have zio: "fds z = fds v" "clean z = clean v" using z yio by (auto simp: sys_connect_def clean_def)
  have "case open_tcp_socket os t al w of (sock, w') \<Rightarrow> clean w' = clean w \<and> set (fds w) \<subseteq> set (fds w') \<and>
    (sock < 0 \<or> sock \<notin> set (fds w) \<and> sock \<in> set (fds w'))"
    unfolding e using k c xio yio zio by auto
  then show ?thesis by (simp only: assms prod.case)
qed

lemma register_tcp_inv:
  assumes "register_tcp os i t al ss w = (ss', w')" "list_inv ss w"
    "t_state t = TCP_LISTEN" "connect_sent t = TCP_CONNECT_NOT_SENT" "tcp_addrs t" "unat (recv_scale t) < 32" "unat (send_scale t) < 32"
  shows "list_inv ss' w'"
proof -
  obtain sock w1 where o: "open_tcp_socket os t al w = (sock, w1)" by force
  note o' = open_tcp_socket_cases [OF o]
  show ?thesis
  proof (cases "sock < 0")
    case True
    then have "ss' = ss" "w' = w1" using assms(1) by (simp_all add: register_tcp_def o)
    then show ?thesis using list_inv_grown [OF assms(2)] o' by simp
  next
    case False
    let ?ev = "EPOLLOUT OR EPOLLERR"
    let ?s = "\<lparr>sid = i, socket = sock, ev_events = ?ev, sess = t\<rparr>"
    obtain win w2 where w: "get_receive_window os ?s w1 = (win, w2)" by force
    obtain ok w3 where e: "sys_epoll_add os sock ?ev w2 = (ok, w3)" by force
    have io: "fds w3 = fds w1" "clean w3 = clean w1"
      using get_receive_window_frame [OF w] e by (auto simp: sys_epoll_add_def clean_def)
    let ?s' = "?s\<lparr>sess := t\<lparr>recv_window := win\<rparr>\<rparr>"
    have r: "ss' = Tcp ?s' # ss" "w' = w3" using assms(1) False by (simp_all add: register_tcp_def o w e)
    have "tcp_ok ?s' w3"
      using get_receive_window_fits [OF w] assms(3-7) False o' io
      by (simp add: tcp_ok_def conf_ok_def tcp_conf_def tcp_good_def sock_ok_def socket_state_def tcp_wf_def tcp_addrs_def)
    then show ?thesis using r o' io False by (auto intro!: list_inv_new [OF assms(2)])
  qed
qed

lemma tcp_syn_inv:
  assumes "tcp_syn os pkt len p uid h version al ss w = Some (ss', w')" "list_inv ss w"
  shows "list_inv ss' w'"
proof -
  obtain mss ws where o: "tcp_options_loop pkt (p + 20) (uint (tcp_optlen h)) (get_default_mss version) 0 = Some (mss, ws)"
    using assms(1) by (auto simp: tcp_syn_def bind_Some_iff)
  obtain i w1 where i: "new_sid w = (i, w1)" by force
  obtain now w2 where n: "sys_time os w1 = (now, w2)" by force
  obtain isn w3 where r: "sys_rand os w2 = (isn, w3)" by force
  obtain saddr daddr data t where a: "pkt_saddr version pkt = Some saddr" "pkt_daddr version pkt = Some daddr"
    and t: "new_tcp_session now uid isn version h saddr daddr mss ws data = Some t"
    and g: "register_tcp os i t al ss w3 = (ss', w')"
    using assms(1) by (auto simp: tcp_syn_def o i n r bind_Some_iff)
  have io: "fds w3 = fds w" "clean w3 = clean w"
    using i n r by (auto simp: new_sid_def sys_time_def sys_rand_def clean_def)
  then have inv: "list_inv ss w3" using list_inv_grown [OF assms(2)] by simp
  have "t_state t = TCP_LISTEN \<and> connect_sent t = TCP_CONNECT_NOT_SENT \<and> tcp_addrs t \<and> unat (recv_scale t) < 32 \<and> unat (send_scale t) < 32"
    using t pkt_addr_length(1) [OF a(1)] pkt_addr_length(2) [OF a(2)]
    by (auto simp: new_tcp_session_def tcp_addrs_def split: if_splits)
  then show ?thesis using register_tcp_inv [OF g inv] by simp
qed

lemma tcp_unknown_inv:
  assumes "tcp_unknown os pkt len p h version w = Some w'" "list_inv ss w"
  shows "list_inv ss w'"
proof -
  obtain t where "snd (write_rst os t w) = w'"
    using assms(1) by (auto simp: tcp_unknown_def bind_Some_iff)
  then obtain t' where "write_rst os t w = (t', w')" by (metis prod.collapse)
  then show ?thesis using list_inv_grown [OF assms(2)] write_rst_frame by auto
qed

lemma handle_tcp_inv:
  assumes "handle_tcp os args pkt len p uid ss w = Some (ss', w')" "list_inv ss w"
  shows "list_inv ss' w'"
proof -
  obtain version h hostname al saddr daddr where v: "pkt_version pkt = Some version" "read_tcphdr pkt p = Some h"
    "parse_tls_header (os_signed_char os) (drop (tcp_data_off h p) pkt) (unat (tcp_datalen h p len)) [] = Some hostname"
    "tcp_redirect args = Some al" "pkt_saddr version pkt = Some saddr" "pkt_daddr version pkt = Some daddr"
    using assms(1) by (auto simp: handle_tcp_def bind_Some_iff Let_def)
  let ?m = "tcp_matches version h saddr daddr"
  consider (urg) "th_urg h" | (found) s where "\<not> th_urg h" "find ?m ss = Some (Tcp s)"
    | (none) "\<not> th_urg h" "\<nexists>s. find ?m ss = Some (Tcp s)" by blast
  then show ?thesis
  proof cases
    case urg
    then show ?thesis using assms v by (simp add: handle_tcp_def)
  next
    case found
    then obtain s1 w1 where s1:
      "tcp_packet_in os hostname pkt (tcp_data_off h p) (tcp_datalen h p len) h s w = Some (s1, w1)"
      using assms(1) v by (auto simp: handle_tcp_def bind_Some_iff)
    have "ss' = replace_first ?m (Tcp s1) ss" "w' = w1"
      using assms(1) v found s1 by (simp_all add: handle_tcp_def)
    then show ?thesis
      using tcp_in.found_step [OF _ found(2), of w os hostname pkt "tcp_data_off h p"
          "tcp_datalen h p len" h "Tcp s1" w1] assms(2) s1
      by (simp add: list_inv_def)
  next
    case none
    then have "if th_syn h then tcp_syn os pkt len p uid h version al ss w = Some (ss', w')
      else ss' = ss \<and> tcp_unknown os pkt len p h version w = Some w'"
      using assms(1) v
      by (auto simp: handle_tcp_def bind_Some_iff split: option.splits session.splits if_splits)
    then show ?thesis using tcp_syn_inv tcp_unknown_inv assms(2) by (auto split: if_splits)
  qed
qed

section \<open>Any packet\<close>

lemma handle_ip_inv:
  assumes "handle_ip os args loglevel pkt len n m ss w = Some (ss', w')" "list_inv ss w"
  shows "list_inv ss' w'"
proof -
  have "(ss' = ss \<and> w' = w) \<or> (\<exists>p uid. handle_icmp os pkt len p uid ss w = Some (ss', w') \<or>
      handle_udp os pkt len p uid ss w = Some (ss', w') \<or> handle_tcp os args pkt len p uid ss w = Some (ss', w'))"
    using assms(1)
    by (auto simp: handle_ip_def bind_Some_iff Let_def split: option.splits if_splits)
  then show ?thesis
    using assms(2) by (elim disjE exE conjE) (simp_all add: handle_icmp_inv handle_udp_inv handle_tcp_inv)
qed

end
