(* ===== verification/Events.thy ===== *)
theory Events
  imports Session_List
begin

text \<open>
  The event loop (\<^verbatim>\<open>session.c\<close>): the preparation of a thread, the counting, monitoring and
  checking of the sessions before each \<open>epoll_wait\<close>, and the dispatch of the events it reports.
  What \<open>epoll_wait\<close> answers is an argument of a round, so a run of the loop is a sequence of steps of
  \<open>events_step\<close> with any answers. The descriptors of \<open>epoll\<close>, of the tun device and of the
  signal pipe are not among the descriptors of the io state, which are those of the sessions.
\<close>

section \<open>Preparing the thread\<close>

text \<open>\<open>init\<close> and \<open>clear\<close>: the list is emptied, and every descriptor a session holds is closed. The
  queues of the TCP sessions are freed with them.\<close>

definition init :: "session list" where
  "init = []"

fun clear :: "session list \<Rightarrow> io \<Rightarrow> session list \<times> io" where
  "clear [] w = ([], w)"
| "clear (s # ss) w = clear ss (if 0 \<le> socket_of s then sys_close (socket_of s) w else w)"

text \<open>Sessions left by an earlier thread are terminated; the blocked ones are freed.\<close>

fun check_allowed :: "os \<Rightarrow> session list \<Rightarrow> io \<Rightarrow> session list \<times> io" where
  "check_allowed os [] w = ([], w)"
| "check_allowed os (Icmp s # ss) w =
     (let (ss, w) = check_allowed os ss w in (Icmp (s\<lparr>sess := (sess s)\<lparr>i_stop := True\<rparr>\<rparr>) # ss, w))"
| "check_allowed os (Udp s # ss) w =
     (let (ss, w) = check_allowed os ss w
      in (if u_state (sess s) = UDP_ACTIVE then Udp (s\<lparr>sess := (sess s)\<lparr>u_state := UDP_FINISHING\<rparr>\<rparr>) # ss
          else if u_state (sess s) = UDP_BLOCKED then ss
          else Udp s # ss, w))"
| "check_allowed os (Tcp s # ss) w =
     (let (t, w) = (if closing_state (t_state (sess s)) then (sess s, w) else write_rst os (sess s) w);
          (ss, w) = check_allowed os ss w
      in (Tcp (s\<lparr>sess := t\<rparr>) # ss, w))"

text \<open>The limit on sessions, from the limit on open files: \<open>rlim_t\<close> has 64 bits and is cast to \<open>int\<close>.\<close>

definition max_sessions :: "u64 \<Rightarrow> int" where
  "max_sessions rlim_cur =
     (let m = sint (ucast (rlim_cur * of_nat SESSION_LIMIT div 100) :: u32)
      in if m > 1000 then 1000 else m)"

record event_loop =
  el_sessions :: "session list"
  el_last :: int
  el_running :: bool
  el_timeout :: int
  el_io :: io

text \<open>\<open>setup\<close>: whether \<open>epoll_create\<close> and the two \<open>epoll_ctl\<close> succeeded.\<close>

definition events_start :: "os \<Rightarrow> bool \<Rightarrow> session list \<Rightarrow> io \<Rightarrow> event_loop" where
  "events_start os setup ss w =
     (let (ss, w) = check_allowed os ss w
      in \<lparr>el_sessions = ss, el_last = 0, el_running = setup, el_timeout = 0, el_io = w\<rparr>)"

section \<open>Before the poll\<close>

text \<open>Whether a session counts.\<close>

fun counted :: "session \<Rightarrow> bool" where
  "counted (Icmp s) = (\<not> i_stop (sess s))"
| "counted (Udp s) = (u_state (sess s) = UDP_ACTIVE)"
| "counted (Tcp s) = (\<not> closing_state (t_state (sess s)))"

fun monitor_session :: "os \<Rightarrow> session \<Rightarrow> io \<Rightarrow> bool \<times> session \<times> io" where
  "monitor_session os (Tcp s) w =
     (if 0 \<le> socket s then let (r, s, w) = monitor_tcp_session os s w in (r, Tcp s, w)
      else (False, Tcp s, w))"
| "monitor_session os x w = (False, x, w)"

fun count_sessions :: "os \<Rightarrow> session list \<Rightarrow> io \<Rightarrow> int \<times> bool \<times> session list \<times> io" where
  "count_sessions os [] w = (0, False, [], w)"
| "count_sessions os (s # ss) w =
     (let c = (if counted s then 1 else 0);
          (r, s, w) = monitor_session os s w;
          (n, recheck, ss, w) = count_sessions os ss w
      in (c + n, r \<or> recheck, s # ss, w))"

fun check_session :: "os \<Rightarrow> int \<Rightarrow> int \<Rightarrow> session \<Rightarrow> io \<Rightarrow> (bool \<times> session \<times> io) option" where
  "check_session os n m (Icmp s) w = do { (del, s, w) \<leftarrow> check_icmp_session os s n m w; Some (del, Icmp s, w) }"
| "check_session os n m (Udp s) w = do { (del, s, w) \<leftarrow> check_udp_session os s n m w; Some (del, Udp s, w) }"
| "check_session os n m (Tcp s) w = do { (del, s, w) \<leftarrow> check_tcp_session os s n m w; Some (del, Tcp s, w) }"

text \<open>When the session expires, and the timeout of the poll that this asks for, an \<open>int\<close>.\<close>

fun expiry :: "session \<Rightarrow> int \<Rightarrow> int \<Rightarrow> int option" where
  "expiry (Icmp s) n m = map_option (\<lambda>t. i_time (sess s) + t) (get_icmp_timeout (sess s) n m)"
| "expiry (Udp s) n m = map_option (\<lambda>t. u_time (sess s) + t) (get_udp_timeout (sess s) n m)"
| "expiry (Tcp s) n m = map_option (\<lambda>t. t_time (sess s) + t) (get_tcp_timeout (sess s) n m)"

definition lower_timeout :: "int \<Rightarrow> int \<Rightarrow> int \<Rightarrow> int" where
  "lower_timeout e now timeout =
     (let stimeout = sint (word_of_int (e - now + 1) :: u32)
      in if stimeout > 0 \<and> stimeout < timeout then stimeout else timeout)"

fun check_sessions ::
    "os \<Rightarrow> int \<Rightarrow> int \<Rightarrow> int \<Rightarrow> int \<Rightarrow> session list \<Rightarrow> io \<Rightarrow> (int \<times> session list \<times> io) option" where
  "check_sessions os now n m timeout [] w = Some (timeout, [], w)"
| "check_sessions os now n m timeout (s # ss) w = do {
     (del, s, w) \<leftarrow> check_session os n m s w;
     timeout \<leftarrow> (if counted s \<and> \<not> del then map_option (\<lambda>e. lower_timeout e now timeout) (expiry s n m)
                else Some timeout);
     (timeout, ss, w) \<leftarrow> check_sessions os now n m timeout ss w;
     Some (timeout, if del then ss else s # ss, w)
   }"

text \<open>The first half of a round: the number of sessions, and the timeout in milliseconds that
  \<open>epoll_wait\<close> is given. The checks are skipped when the last ones were just now.\<close>

definition before_poll :: "os \<Rightarrow> int \<Rightarrow> event_loop \<Rightarrow> (int \<times> event_loop) option" where
  "before_poll os m st =
     (let (n, recheck, ss, w) = count_sessions os (el_sessions st) (el_io st);
          (ms, w) = sys_ms os w
      in if ms - el_last st > EPOLL_MIN_CHECK then do {
           let (now, w) = sys_time os w;
           (timeout, ss, w) \<leftarrow> check_sessions os now n m EPOLL_TIMEOUT ss w;
           Some (n, st\<lparr>el_sessions := ss, el_last := ms,
             el_timeout := (if recheck then EPOLL_MIN_CHECK else timeout * 1000), el_io := w\<rparr>)
         } else Some (n, st\<lparr>el_sessions := ss, el_timeout := EPOLL_MIN_CHECK, el_io := w\<rparr>))"

section \<open>Dispatch\<close>

text \<open>What an event refers to: the signal pipe, the tun device, or a session by its address.\<close>

datatype source = From_Pipe | From_Tun | From_Session nat

text \<open>The tun device is read until nothing is left; the result says whether an error ended it. The
  loop ends when \<open>poll\<close> says so, which is up to the environment.\<close>

partial_function (option) tun_loop ::
    "os \<Rightarrow> arguments \<Rightarrow> int \<Rightarrow> int \<Rightarrow> u32 \<Rightarrow> int \<Rightarrow> int \<Rightarrow> session list \<Rightarrow> io \<Rightarrow> (bool \<times> session list \<times> io) option" where
  "tun_loop os args loglevel tun events n m ss w =
     (case is_readable os tun w of (readable, w) \<Rightarrow>
        if readable then do {
          (r, ss, w) \<leftarrow> check_tun os args loglevel events n m ss w;
          if r < 0 then Some (True, ss, w) else tun_loop os args loglevel tun events n m ss w
        } else Some (False, ss, w))"

partial_function (option) udp_loop ::
    "os \<Rightarrow> u32 \<Rightarrow> udp_session ng_session \<Rightarrow> io \<Rightarrow> (udp_session ng_session \<times> io) option" where
  "udp_loop os events s w =
     (if events AND EPOLLERR = 0 \<and> events AND EPOLLIN \<noteq> 0 then
        case is_readable os (socket s) w of (readable, w) \<Rightarrow>
          if readable then do {
            (s, w) \<leftarrow> check_udp_socket os events s w;
            udp_loop os events s w
          } else Some (s, w)
      else Some (s, w))"

fun check_socket :: "os \<Rightarrow> u32 \<Rightarrow> session \<Rightarrow> io \<Rightarrow> (session \<times> io) option" where
  "check_socket os events (Icmp s) w = on_icmp (check_icmp_socket os events) (Icmp s) w"
| "check_socket os events (Udp s) w = on_udp (udp_loop os events) (Udp s) w"
| "check_socket os events (Tcp s) w = on_tcp (check_tcp_socket os events) (Tcp s) w"

text \<open>The events in turn; the result says whether the loop is to stop, by the pipe or an error of
  the tun device. An event of a session that is no longer there would be a dangling pointer.\<close>

fun dispatch ::
    "os \<Rightarrow> arguments \<Rightarrow> int \<Rightarrow> int \<Rightarrow> int \<Rightarrow> int \<Rightarrow> (source \<times> u32) list \<Rightarrow> session list \<Rightarrow> io \<Rightarrow>
     (bool \<times> session list \<times> io) option" where
  "dispatch os args loglevel tun n m [] ss w = Some (False, ss, w)"
| "dispatch os args loglevel tun n m ((From_Pipe, events) # es) ss w = Some (True, ss, w)"
| "dispatch os args loglevel tun n m ((From_Tun, events) # es) ss w = do {
     (error, ss, w) \<leftarrow> tun_loop os args loglevel tun events n m ss w;
     if error then Some (True, ss, w) else dispatch os args loglevel tun n m es ss w
   }"
| "dispatch os args loglevel tun n m ((From_Session i, events) # es) ss w = do {
     s \<leftarrow> session_at i ss;
     (s, w) \<leftarrow> check_socket os events s w;
     dispatch os args loglevel tun n m es (replace_first (\<lambda>x. sid_of x = i) s ss) w
   }"

section \<open>The loop\<close>

datatype wait = Wait_Fails int | Wait_Ready "(source \<times> u32) list"

definition events_round ::
    "os \<Rightarrow> arguments \<Rightarrow> int \<Rightarrow> int \<Rightarrow> int \<Rightarrow> wait \<Rightarrow> event_loop \<Rightarrow> event_loop option" where
  "events_round os args loglevel tun m answer st = do {
     (n, st) \<leftarrow> before_poll os m st;
     case answer of
       Wait_Fails e \<Rightarrow> Some (st\<lparr>el_running := (e = EINTR)\<rparr>)
     | Wait_Ready es \<Rightarrow> do {
         (stop, ss, w) \<leftarrow> dispatch os args loglevel tun n m es (el_sessions st) (el_io st);
         Some (st\<lparr>el_sessions := ss, el_running := \<not> stop, el_io := w\<rparr>)
       }
   }"

inductive events_step :: "os \<Rightarrow> arguments \<Rightarrow> int \<Rightarrow> int \<Rightarrow> int \<Rightarrow> event_loop \<Rightarrow> event_loop \<Rightarrow> bool"
  for os args loglevel tun m where
  round: "el_running st \<Longrightarrow> events_round os args loglevel tun m answer st = Some st' \<Longrightarrow>
    events_step os args loglevel tun m st st'"

inductive_cases events_stepE: "events_step os args loglevel tun m st st'"

abbreviation events_steps :: "os \<Rightarrow> arguments \<Rightarrow> int \<Rightarrow> int \<Rightarrow> int \<Rightarrow> event_loop \<Rightarrow> event_loop \<Rightarrow> bool" where
  "events_steps os args loglevel tun m \<equiv> (events_step os args loglevel tun m)\<^sup>*\<^sup>*"

section \<open>The contracts of a round\<close>

text \<open>Monitoring and checking a session of any kind.\<close>

lemma monitor_session_ok:
  assumes "session_good x w"
  shows "case monitor_session os x w of (r, x', w') \<Rightarrow>
    session_good x' w' \<and> own_fd_only (socket_of x) w (socket_of x') w' \<and> (clean w \<longrightarrow> clean w')"
proof (cases x)
  case (Tcp s)
  obtain r s' w' where m: "monitor_tcp_session os s w = (r, s', w')" by (metis prod_cases3)
  have g: "tcp_good s w" "conf_ok (sess s)" using assms Tcp by (simp_all add: tcp_ok_def)
  have "0 \<le> socket s \<Longrightarrow> conf_ok (sess s')" using monitor_tcp_session_moves [OF m g(1)] conf_ok_moves g(2) by blast
  with monitor_tcp_session_effect [OF m g(1)] show ?thesis using Tcp assms by (simp add: m own_fd_only_def tcp_ok_def)
qed (use assms in \<open>simp_all add: own_fd_same\<close>)

interpretation monitoring: session_op "\<lambda>s w. Some (snd (monitor_session os s w))" session_good socket_of for os
proof (rule session_opI)
  fix x w x' w' assume "session_good x w" "Some (snd (monitor_session os x w)) = Some (x', w')"
  then show "session_good x' w' \<and> own_fd_only (socket_of x) w (socket_of x') w' \<and> (clean w \<longrightarrow> clean w')"
    using monitor_session_ok [of x w os] by (cases "monitor_session os x w") auto
qed

interpretation upkeep: session_check "\<lambda>s w. check_session os n m s w" session_good socket_of for os n m
proof unfold_locales
  fix x w x' w' assume "session_good x w" "check_session os n m x w = Some (False, x', w')"
  then show "session_good x' w'"
    using icmp_check.check_inv udp_check.check_inv life_check.check_inv
    by (cases x) (auto simp: bind_Some_iff)
next
  fix x w del x' w' assume "session_good x w" "check_session os n m x w = Some (del, x', w')"
  then show "own_fd_only (socket_of x) w (socket_of x') w'" "clean w \<Longrightarrow> clean w'"
    using icmp_check.check_fd udp_check.check_fd life_check.check_fd
      icmp_check.check_clean udp_check.check_clean life_check.check_clean
    by (cases x; fastforce simp: bind_Some_iff)+
next
  fix x w x' w' assume "session_good x w" "check_session os n m x w = Some (True, x', w')"
  then show "socket_of x' = - 1"
    using icmp_check.deleted_released udp_check.deleted_released life_check.deleted_released
    by (cases x) (auto simp: bind_Some_iff)
qed

text \<open>The two walks over the list are sweeps.\<close>

lemma count_sessions_sweep:
  "count_sessions os ss w = (n, r, ss', w') \<Longrightarrow>
     sweep (\<lambda>s w. map_option (Pair False) (Some (snd (monitor_session os s w)))) ss w = Some (ss', w')"
  by (induction ss arbitrary: w n r ss' w') (auto simp: Let_def split: prod.splits)

lemma check_sessions_sweep:
  "check_sessions os now n m timeout ss w = Some (t, ss', w') \<Longrightarrow>
     sweep (check_session os n m) ss w = Some (ss', w')"
  by (induction ss arbitrary: timeout w t ss' w') (auto simp: bind_Some_iff)

lemma count_sessions_inv:
  "count_sessions os ss w = (n, r, ss', w') \<Longrightarrow> list_inv ss w \<Longrightarrow> list_inv ss' w'"
  unfolding list_inv_def by (elim conjE) (rule monitoring.walk.sweep_inv [OF _ _ count_sessions_sweep])

lemma check_sessions_inv:
  "check_sessions os now n m timeout ss w = Some (t, ss', w') \<Longrightarrow> list_inv ss w \<Longrightarrow> list_inv ss' w'"
  unfolding list_inv_def by (elim conjE) (rule upkeep.sweep_inv [OF _ _ check_sessions_sweep])

text \<open>Events of a session.\<close>

lemma is_readable_frame:
  "is_readable os fd w = (r, w') \<Longrightarrow> fds w' = fds w \<and> clean w' = clean w \<and> (r \<longrightarrow> 0 \<le> fd)"
  by (auto simp: is_readable_def clean_def)

lemma udp_op_ok_trans:
  "udp_op_ok s w s1 w1 \<Longrightarrow> udp_op_ok s1 w1 s2 w2 \<Longrightarrow> udp_op_ok s w s2 w2"
  unfolding udp_op_ok_def using own_fd_only_trans order_trans by blast

lemma udp_loop_ok:
  assumes "udp_loop os events s w = Some (s', w')"
  shows "udp_good s w \<Longrightarrow> udp_op_ok s w s' w'"
proof (rule udp_loop.raw_induct [rotated, OF assms, where P =
    "\<lambda>os events s w (s', w'). udp_good s w \<longrightarrow> udp_op_ok s w s' w'", simplified, rule_format])
  fix f os events s w y
  assume IH: "\<And>os events s w y. f os events s w = Some y \<Longrightarrow> case y of (s', w') \<Rightarrow> udp_good s w \<longrightarrow> udp_op_ok s w s' w'"
    and body: "(if events AND EPOLLERR = 0 \<and> events AND EPOLLIN \<noteq> 0 then
        case is_readable os (socket s) w of (readable, w) \<Rightarrow>
          if readable then check_udp_socket os events s w \<bind> (\<lambda>(s, w). f os events s w) else Some (s, w)
      else Some (s, w)) = Some y"
  obtain r v where r: "is_readable os (socket s) w = (r, v)" by force
  note rf = is_readable_frame [OF r]
  have v: "udp_op_ok s w s v" if "udp_good s w"
    using udp_update_ok [OF that, of v "sess s"] rf that by (simp add: udp_good_def)
  show "case y of (s', w') \<Rightarrow> udp_good s w \<longrightarrow> udp_op_ok s w s' w'"
  proof (cases "events AND EPOLLERR = 0 \<and> events AND EPOLLIN \<noteq> 0 \<and> r")
    case True
    then obtain s1 w1 where c: "check_udp_socket os events s v = Some (s1, w1)" and f: "f os events s1 w1 = Some y"
      using body r by (auto simp: bind_Some_iff)
    obtain s2 w2 where y: "y = (s2, w2)" by force
    have ok: "udp_op_ok s w s1 w1" if g: "udp_good s w"
      using udp_op_ok_trans [OF v [OF g] check_udp_socket_ok [OF c]] v [OF g] rf True by (simp add: udp_op_ok_def)
    have "udp_good s1 w1 \<longrightarrow> udp_op_ok s1 w1 s2 w2" using IH [OF f] unfolding y by (simp only: prod.case)
    moreover have "udp_good s1 w1" if "udp_good s w" using ok [OF that] by (simp add: udp_op_ok_def)
    ultimately show ?thesis unfolding y prod.case using ok udp_op_ok_trans by blast
  next
    case False
    then have "y = (s, w) \<or> y = (s, v)" using body r by (auto split: if_splits)
    then show ?thesis using v udp_op_ok_refl by auto
  qed
qed

lemma check_socket_ok:
  assumes "session_good x w" "check_socket os events x w = Some (x', w')"
  shows "session_good x' w' \<and> own_fd_only (socket_of x) w (socket_of x') w' \<and> (clean w \<longrightarrow> clean w')"
proof (cases x)
  case (Icmp s)
  then obtain s' where c: "check_icmp_socket os events s w = Some (s', w')" and x': "x' = Icmp s'"
    using assms(2) by (auto simp: bind_Some_iff)
  show ?thesis using check_icmp_socket_kept [OF c] assms(1) Icmp x' by (simp add: icmp_kept_def own_fd_only_def)
next
  case (Udp s)
  then obtain s' where c: "udp_loop os events s w = Some (s', w')" and x': "x' = Udp s'"
    using assms(2) by (auto simp: bind_Some_iff)
  show ?thesis using udp_loop_ok [OF c] assms(1) Udp x' by (simp add: udp_op_ok_def)
next
  case (Tcp s)
  then obtain s' where c: "check_tcp_socket os events s w = Some (s', w')" and x': "x' = Tcp s'"
    using assms(2) by (auto simp: bind_Some_iff)
  show ?thesis using life_socket.op_inv [OF _ c] life_socket.op_fd [OF _ c] life_socket.op_clean [OF _ c] assms(1) Tcp x' by simp
qed

interpretation sockets: session_op "check_socket os events" session_good socket_of for os events
  by (rule session_opI) (rule check_socket_ok)

section \<open>Starting and stopping\<close>

text \<open>\<open>check_allowed\<close> changes no descriptor and keeps every session good.\<close>

lemma check_allowed_io: "check_allowed os ss w = (ss', w') \<Longrightarrow> fds w' = fds w \<and> clean w' = clean w"
proof (induction os ss w arbitrary: ss' w' rule: check_allowed.induct)
  case (4 os s ss w)
  obtain t v where t: "write_rst os (sess s) w = (t, v)" by force
  note f = write_rst_frame [OF t]
  show ?case
  proof (cases "closing_state (t_state (sess s))")
    case True
    then show ?thesis using "4.IH" [of "(sess s, w)" "sess s" w] "4.prems" by (auto split: prod.splits)
  next
    case False
    then show ?thesis using "4.IH" [of "(t, v)" t v] "4.prems" t f by (auto split: prod.splits)
  qed
qed (auto split: prod.splits)

lemma check_allowed_good:
  "check_allowed os ss w = (ss', w') \<Longrightarrow> \<forall>x \<in> set ss. session_good x w \<Longrightarrow>
     (\<forall>x \<in> set ss'. session_good x w) \<and> held socket_of ss' = held socket_of ss"
proof (induction os ss w arbitrary: ss' w' rule: check_allowed.induct)
  case (2 os s ss w)
  then show ?case by (auto simp: held_Cons icmp_good_def split: prod.splits)
next
  case (3 os s ss w)
  then show ?case by (auto simp: held_Cons udp_good_def split: prod.splits if_splits)
next
  case (4 os s ss w)
  obtain t v where t: "write_rst os (sess s) w = (t, v)" by force
  note f = write_rst_frame [OF t]
  have g: "tcp_good s w" "conf_ok (sess s)" and ss: "\<forall>x \<in> set ss. session_good x w" using "4.prems"(2) by (simp_all add: tcp_ok_def)
  show ?case
  proof (cases "closing_state (t_state (sess s))")
    case True
    then show ?thesis using "4.IH" [of "(sess s, w)" "sess s" w] "4.prems" by (auto simp: held_Cons split: prod.splits)
  next
    case False
    obtain rest u where r: "check_allowed os ss v = (rest, u)" by force
    have frame: "session_good x v \<longleftrightarrow> session_good x w" for x
      using f session_good_sock session_good_frame sock_ok_fds by metis
    have "tcp_ok (s\<lparr>sess := t\<rparr>) v"
      using tcp_quiet_good [OF write_rst_quiet [OF t] g(1)] conf_ok_quiet [OF write_rst_quiet [OF t] g(2)]
      by (simp add: tcp_ok_def)
    then have "tcp_ok (s\<lparr>sess := t\<rparr>) w" using frame [of "Tcp (s\<lparr>sess := t\<rparr>)"] by simp
    moreover have "(\<forall>x \<in> set rest. session_good x v) \<and> held socket_of rest = held socket_of ss"
      using "4.IH" [of "(t, v)" t v rest u] False t r ss frame by simp
    moreover have "ss' = Tcp (s\<lparr>sess := t\<rparr>) # rest" using "4.prems"(1) False t r by simp
    ultimately show ?thesis using frame by (simp add: held_Cons)
  qed
qed simp

lemma check_allowed_inv:
  assumes "check_allowed os ss w = (ss', w')" "list_inv ss w"
  shows "list_inv ss' w'"
proof -
  have "list_inv ss' w"
    using check_allowed_good [OF assms(1)] assms(2) by (simp add: list_inv_def all_inv_def)
  then show ?thesis using list_inv_grown check_allowed_io [OF assms(1)] by simp
qed

lemma clear_closes_from:
  "all_inv session_good socket_of ss w \<Longrightarrow> clear ss w = (ss', w') \<Longrightarrow>
     ss' = [] \<and> trace w' = trace w @ map Sock_Close (held socket_of ss) \<and>
     set (fds w') = set (fds w) - set (held socket_of ss)"
proof (induction ss arbitrary: w)
  case (Cons s ss)
  let ?w = "if 0 \<le> socket_of s then sys_close (socket_of s) w else w"
  have "own_fd_only (socket_of s) w (- 1) ?w \<or> ?w = w" by (simp add: own_fd_only_def)
  then have i: "all_inv session_good socket_of ss ?w"
    using slist.others_inv [of "[]" s ss w "- 1" ?w] Cons.prems(1)
    by (cases "0 \<le> socket_of s") (auto simp: own_fd_only_def all_inv_def held_Cons)
  have "0 \<le> socket_of s \<longrightarrow> socket_of s \<in> set (fds w)"
    using slist.list_open [OF Cons.prems(1)] by (auto simp: held_Cons)
  then have "trace ?w = trace w @ (if 0 \<le> socket_of s then [Sock_Close (socket_of s)] else [])"
    by (simp add: sys_close_def)
  then show ?case using Cons.IH [OF i] Cons.prems(2) by (auto simp: held_Cons split: if_splits)
qed simp

lemma clear_inv:
  assumes "clear ss w = (ss', w')" "list_inv ss w"
  shows "list_inv ss' w'"
proof -
  have i: "all_inv session_good socket_of ss w" "clean w" using assms(2) by (simp_all add: list_inv_def)
  note k = clear_closes_from [OF i(1) assms(1)]
  then show ?thesis using i(2) by (auto simp: list_inv_def all_inv_def clean_def)
qed

lemma check_socket_inv:
  assumes "session_at i ss = Some s" "check_socket os events s w = Some (s', w')" "list_inv ss w"
  shows "list_inv (replace_first (\<lambda>x. sid_of x = i) s' ss) w'"
  using sockets.found_step [OF _ assms(1) [unfolded session_at_def] assms(2)] assms(3) by (simp add: list_inv_def)

section \<open>Invariants of the loop\<close>

text \<open>A property of the list of sessions and the io state that each thing the loop does with them
  keeps: a call without effect, a packet, the two walks over the list, an event, the preparation and the
  end of a thread. It then holds in every state that the loop reaches.\<close>

locale loop_invariant =
  fixes I :: "session list \<Rightarrow> io \<Rightarrow> bool"
  assumes I_call: "I ss w \<Longrightarrow> I ss (step_io [] w)"
    and I_packet: "handle_ip os args loglevel pkt len n m ss w = Some (ss', w') \<Longrightarrow> I ss w \<Longrightarrow> I ss' w'"
    and I_count: "count_sessions os ss w = (n, r, ss', w') \<Longrightarrow> I ss w \<Longrightarrow> I ss' w'"
    and I_check: "check_sessions os now n m timeout ss w = Some (t, ss', w') \<Longrightarrow> I ss w \<Longrightarrow> I ss' w'"
    and I_event: "session_at i ss = Some s \<Longrightarrow> check_socket os events s w = Some (s', w') \<Longrightarrow> I ss w \<Longrightarrow>
      I (replace_first (\<lambda>x. sid_of x = i) s' ss) w'"
    and I_allowed: "check_allowed os ss w = (ss', w') \<Longrightarrow> I ss w \<Longrightarrow> I ss' w'"
    and I_clear: "clear ss w = (ss', w') \<Longrightarrow> I ss w \<Longrightarrow> I ss' w'"
begin

lemma before_poll_kept:
  assumes "before_poll os m st = Some (n, st')" "I (el_sessions st) (el_io st)"
  shows "I (el_sessions st') (el_io st')"
proof -
  obtain k r ss w where c: "count_sessions os (el_sessions st) (el_io st) = (k, r, ss, w)" by (metis prod_cases4)
  have i: "I ss (step_io [] w)" by (rule I_call [OF I_count [OF c assms(2)]])
  show ?thesis
  proof (cases "os_ms os (tick w) - el_last st > EPOLL_MIN_CHECK")
    case True
    then obtain t ss' w' where s: "check_sessions os (os_time os (Suc (tick w))) k m EPOLL_TIMEOUT ss
        (step_io [] (step_io [] w)) = Some (t, ss', w')"
      and "el_sessions st' = ss'" "el_io st' = w'"
      using assms(1) by (auto simp: before_poll_def c sys_ms_def sys_time_def bind_Some_iff)
    then show ?thesis using I_check [OF s I_call [OF i]] by simp
  next
    case False
    then have "el_sessions st' = ss" "el_io st' = step_io [] w"
      using assms(1) by (auto simp: before_poll_def c sys_ms_def)
    then show ?thesis using i by simp
  qed
qed

lemma check_tun_kept:
  assumes "check_tun os args loglevel events n m ss w = Some (r, ss', w')" "I ss w"
  shows "I ss' w'"
proof -
  have "(ss' = ss \<and> (w' = w \<or> w' = step_io [] w)) \<or>
    (\<exists>pkt len. handle_ip os args loglevel pkt len n m ss (step_io [] w) = Some (ss', w'))"
    using assms(1)
    by (auto simp: check_tun_def sys_tun_read_def bind_Some_iff split: if_splits rx.splits)
  then show ?thesis using assms(2) I_call [OF assms(2)] I_packet by (elim disjE exE conjE) simp_all
qed

lemma tun_loop_kept:
  assumes "tun_loop os args loglevel tun events n m ss w = Some (e, ss', w')"
  shows "I ss w \<Longrightarrow> I ss' w'"
proof (rule tun_loop.raw_induct [rotated, OF assms, where P =
    "\<lambda>os args loglevel tun events n m ss w (e, ss', w'). I ss w \<longrightarrow> I ss' w'", simplified, rule_format])
  fix f os args loglevel tun events n m ss w y
  assume IH: "\<And>os args loglevel tun events n m ss w y. f os args loglevel tun events n m ss w = Some y \<Longrightarrow>
      case y of (e, ss', w') \<Rightarrow> I ss w \<longrightarrow> I ss' w'"
    and body: "(case is_readable os tun w of (readable, w) \<Rightarrow>
        if readable then check_tun os args loglevel events n m ss w \<bind> (\<lambda>(r, ss, w).
          if r < 0 then Some (True, ss, w) else f os args loglevel tun events n m ss w)
        else Some (False, ss, w)) = Some y"
  obtain readable where r: "is_readable os tun w = (readable, step_io [] w)" by (simp add: is_readable_def)
  obtain e ss2 w2 where y: "y = (e, ss2, w2)" by (metis prod_cases3)
  show "case y of (e, ss', w') \<Rightarrow> I ss w \<longrightarrow> I ss' w'"
  proof (cases readable)
    case True
    then obtain res ss1 w1 where c: "check_tun os args loglevel events n m ss (step_io [] w) = Some (res, ss1, w1)"
      and f: "if res < 0 then y = (True, ss1, w1) else f os args loglevel tun events n m ss1 w1 = Some y"
      using body r by (auto simp: bind_Some_iff split: if_splits)
    have i: "I ss1 w1" if "I ss w" using check_tun_kept [OF c I_call [OF that]] .
    have "I ss1 w1 \<longrightarrow> I ss2 w2"
      using f IH [of os args loglevel tun events n m ss1 w1 y] unfolding y by (auto split: if_splits)
    then show ?thesis unfolding y prod.case using i by blast
  next
    case False
    then have "y = (False, ss, step_io [] w)" using body r by simp
    then show ?thesis using I_call by simp
  qed
qed

lemma dispatch_kept:
  "dispatch os args loglevel tun n m es ss w = Some (stop, ss', w') \<Longrightarrow> I ss w \<Longrightarrow> I ss' w'"
proof (induction os args loglevel tun n m es ss w rule: dispatch.induct)
  case (3 os args loglevel tun n m events es ss w)
  then obtain e ss1 w1 where t: "tun_loop os args loglevel tun events n m ss w = Some (e, ss1, w1)"
    by (auto simp: bind_Some_iff)
  show ?case using "3.IH" [OF t refl refl] "3.prems" t tun_loop_kept [OF t "3.prems"(2)] by (cases e) simp_all
next
  case (4 os args loglevel tun n m i events es ss w)
  then obtain s s1 w1 where s: "session_at i ss = Some s" and c: "check_socket os events s w = Some (s1, w1)"
    by (auto simp: bind_Some_iff)
  show ?case using "4.IH" [OF s c refl] "4.prems" s c I_event [OF s c "4.prems"(2)] by simp
qed simp_all

lemma events_round_kept:
  assumes "events_round os args loglevel tun m answer st = Some st'" "I (el_sessions st) (el_io st)"
  shows "I (el_sessions st') (el_io st')"
proof -
  obtain n st1 where b: "before_poll os m st = Some (n, st1)"
    using assms(1) by (auto simp: events_round_def bind_Some_iff)
  note i = before_poll_kept [OF b assms(2)]
  show ?thesis
  proof (cases answer)
    case (Wait_Fails e)
    then have "st' = st1\<lparr>el_running := (e = EINTR)\<rparr>" using assms(1) b by (simp add: events_round_def)
    then show ?thesis using i by simp
  next
    case (Wait_Ready es)
    then obtain stop ss w where
      d: "dispatch os args loglevel tun n m es (el_sessions st1) (el_io st1) = Some (stop, ss, w)"
      using assms(1) b by (auto simp: events_round_def bind_Some_iff)
    then have "st' = st1\<lparr>el_sessions := ss, el_running := \<not> stop, el_io := w\<rparr>"
      using assms(1) b Wait_Ready by (simp add: events_round_def)
    then show ?thesis using dispatch_kept [OF d i] by simp
  qed
qed

lemma events_steps_kept:
  "events_steps os args loglevel tun m st st' \<Longrightarrow> I (el_sessions st) (el_io st) \<Longrightarrow> I (el_sessions st') (el_io st')"
  by (induction rule: rtranclp_induct) (auto elim!: events_stepE intro: events_round_kept)

lemma events_start_kept:
  "I ss w \<Longrightarrow> I (el_sessions (events_start os setup ss w)) (el_io (events_start os setup ss w))"
  using I_allowed [of os ss w] by (simp add: events_start_def split: prod.split)

end

text \<open>The invariant of the descriptors is one.\<close>

interpretation descriptors: loop_invariant list_inv
proof
  show "list_inv ss (step_io [] w)" if "list_inv ss w" for ss w
    using list_inv_grown [OF that] by (simp add: clean_def)
qed (fact handle_ip_inv count_sessions_inv check_sessions_inv check_socket_inv check_allowed_inv clear_inv)+

text \<open>C1: the safety of the descriptors in every state the event loop can reach, whatever packets
  arrive, whatever the calls answer and whatever events are reported: no two sessions of the list
  hold the same descriptor, every descriptor a session holds is open, and no descriptor was ever
  closed that was not open.\<close>

theorem events_descriptors:
  assumes "list_inv ss w" "events_steps os args loglevel tun m (events_start os setup ss w) st"
  shows "distinct (held socket_of (el_sessions st)) \<and>
    set (held socket_of (el_sessions st)) \<subseteq> set (fds (el_io st)) \<and> clean (el_io st)"
  using descriptors.events_steps_kept [OF assms(2) descriptors.events_start_kept [OF assms(1)]] slist.list_open
  by (auto simp: list_inv_def all_inv_def)

text \<open>C25: stopping closes exactly the descriptors that the sessions hold, each once and in the order
  of the list, and empties the list.\<close>

theorem clear_closes:
  assumes "list_inv ss w"
  shows "\<exists>w'. clear ss w = ([], w') \<and> trace w' = trace w @ map Sock_Close (held socket_of ss) \<and>
    set (fds w') = set (fds w) - set (held socket_of ss) \<and> clean w'"
proof -
  obtain ss' w' where c: "clear ss w = (ss', w')" by force
  have i: "all_inv session_good socket_of ss w" "clean w" using assms by (simp_all add: list_inv_def)
  note k = clear_closes_from [OF i(1) c]
  then have "clean w'" using i(2) by (auto simp: clean_def)
  then show ?thesis using k c by auto
qed

text \<open>An active UDP session on descriptor 7 and an ICMP session on descriptor 8, for the witnesses.\<close>

definition example_udp :: "udp_session ng_session" where
  "example_udp = \<lparr>sid = 1, socket = 7, ev_events = 9, sess = \<lparr>u_time = 990, u_uid = 10001, u_version = 4,
     u_mss = 65507, u_sent = 0, u_received = 0, u_saddr = [10, 1, 10, 1], u_source = 40000,
     u_daddr = [8, 8, 8, 8], u_dest = 53, u_state = UDP_ACTIVE\<rparr>\<rparr>"

definition example_icmp :: "icmp_session ng_session" where
  "example_icmp = \<lparr>sid = 2, socket = 8, ev_events = 9, sess = \<lparr>i_time = 995, i_uid = 10001, i_version = 4,
     i_saddr = [10, 1, 10, 1], i_daddr = [9, 9, 9, 9], i_id = 77, i_stop = False\<rparr>\<rparr>"

definition example_io :: io where
  "example_io = empty_io\<lparr>fds := [7, 8]\<rparr>"

definition example_args :: arguments where
  "example_args = \<lparr>fwd53 = True, rcode = 3, proxyIp = cstr ''10.0.0.1'', proxyPort = 8080\<rparr>"

lemmas examples = example_udp_def example_icmp_def example_io_def empty_io_def

lemma example_inv: "list_inv [Udp example_udp, Icmp example_icmp] example_io"
  by (simp add: list_inv_def all_inv_def held_def examples udp_good_def icmp_good_def udp_wf_def sock_ok_def clean_def)

theorem clear_closes_witness:
  "\<exists>w'. clear [Udp example_udp, Icmp example_icmp] example_io = ([], w') \<and>
    trace w' = trace example_io @ map Sock_Close (held socket_of [Udp example_udp, Icmp example_icmp]) \<and>
    set (fds w') = set (fds example_io) - set (held socket_of [Udp example_udp, Icmp example_icmp]) \<and> clean w'"
  by (rule clear_closes [OF example_inv])

section \<open>Totality, timeouts and counting\<close>

lemma timeouts_total:
  "m \<noteq> 0 \<Longrightarrow> \<exists>t. get_icmp_timeout i n m = Some t"
  "m \<noteq> 0 \<Longrightarrow> \<exists>t. get_udp_timeout u n m = Some t"
  "m \<noteq> 0 \<Longrightarrow> \<exists>t. get_tcp_timeout c n m = Some t"
  by (simp_all add: get_icmp_timeout_def get_udp_timeout_def get_tcp_timeout_def Let_def)

lemma expiry_total: "m \<noteq> 0 \<Longrightarrow> \<exists>e. expiry s n m = Some e"
  using timeouts_total [of m _ n] by (cases s) (auto simp: option.map_sel)

lemma check_session_total: "m \<noteq> 0 \<Longrightarrow> \<exists>r. check_session os n m s w = Some r"
proof -
  assume m: "m \<noteq> 0"
  show ?thesis
  proof (cases s)
    case (Icmp x)
    obtain t where "get_icmp_timeout (sess x) n m = Some t" using timeouts_total [OF m] by blast
    moreover obtain now v where "sys_time os w = (now, v)" by force
    ultimately show ?thesis
      by (cases "i_stop (sess x) \<or> i_time (sess x) + t < now") (auto simp: Icmp check_icmp_session_def ex_bool_eq)
  next
    case (Udp x)
    obtain t where "get_udp_timeout (sess x) n m = Some t" using timeouts_total [OF m] by blast
    then show ?thesis by (simp add: Udp check_udp_session_def Let_def split: prod.split)
  next
    case (Tcp x)
    obtain t where "get_tcp_timeout (sess x) n m = Some t" using timeouts_total [OF m] by blast
    then show ?thesis by (simp add: Tcp check_tcp_session_def Let_def split: prod.split)
  qed
qed

lemma lower_timeout_bounds: "0 < t \<Longrightarrow> 0 < lower_timeout e now t \<and> lower_timeout e now t \<le> t"
  by (simp add: lower_timeout_def Let_def)

lemma check_sessions_total:
  "m \<noteq> 0 \<Longrightarrow> 0 < t \<Longrightarrow> \<exists>t' ss' w'. check_sessions os now n m t ss w = Some (t', ss', w') \<and> 0 < t' \<and> t' \<le> t"
proof (induction ss arbitrary: t w)
  case (Cons s ss)
  obtain del s1 w1 where c: "check_session os n m s w = Some (del, s1, w1)"
    using check_session_total [OF Cons.prems(1)] by (metis prod_cases3)
  obtain e where e: "expiry s1 n m = Some e" using expiry_total [OF Cons.prems(1)] by blast
  define t1 where "t1 = (if counted s1 \<and> \<not> del then lower_timeout e now t else t)"
  have t1: "0 < t1" "t1 \<le> t" using lower_timeout_bounds [OF Cons.prems(2)] Cons.prems(2) by (simp_all add: t1_def)
  obtain t' ss' w' where r: "check_sessions os now n m t1 ss w1 = Some (t', ss', w')" "0 < t'" "t' \<le> t1"
    using Cons.IH [OF Cons.prems(1) t1(1)] by blast
  have "(if counted s1 \<and> \<not> del then map_option (\<lambda>e. lower_timeout e now t) (expiry s1 n m) else Some t) = Some t1"
    by (simp add: t1_def e)
  then have "check_sessions os now n m t (s # ss) w = Some (t', if del then ss' else s1 # ss', w')"
    by (simp only: check_sessions.simps c r(1) bind.bind_lunit prod.case)
  then show ?case using r t1 by auto
qed simp

lemma before_poll_exists:
  assumes "m \<noteq> 0"
  shows "\<exists>n st'. before_poll os m st = Some (n, st') \<and> 0 < el_timeout st' \<and> el_timeout st' \<le> 3600000"
proof -
  obtain n r ss w where c: "count_sessions os (el_sessions st) (el_io st) = (n, r, ss, w)" by (metis prod_cases4)
  obtain ms w1 where ms: "sys_ms os w = (ms, w1)" by force
  obtain now w2 where now: "sys_time os w1 = (now, w2)" by force
  obtain t ss' w' where s: "check_sessions os now n m EPOLL_TIMEOUT ss w2 = Some (t, ss', w')"
    and t: "0 < t" "t \<le> EPOLL_TIMEOUT"
    using check_sessions_total [OF assms, of EPOLL_TIMEOUT os now n ss w2] by (auto simp: EPOLL_TIMEOUT_def)
  show ?thesis
  proof (cases "ms - el_last st > EPOLL_MIN_CHECK")
    case True
    then have "before_poll os m st = Some (n, st\<lparr>el_sessions := ss', el_last := ms,
        el_timeout := (if r then EPOLL_MIN_CHECK else t * 1000), el_io := w'\<rparr>)"
      by (simp add: before_poll_def c ms now s)
    then show ?thesis using t by (simp add: EPOLL_TIMEOUT_def EPOLL_MIN_CHECK_def)
  next
    case False
    then show ?thesis by (simp add: before_poll_def c ms) (simp add: EPOLL_MIN_CHECK_def)
  qed
qed

text \<open>C23: before every poll the counting and checking of the sessions returns, unless the limit on
  sessions is zero, and the timeout given to \<open>epoll_wait\<close> is positive and at most one hour: the thread
  is never told to wait forever.\<close>

theorem before_poll_total:
  assumes "m \<noteq> 0"
  shows "\<exists>n st'. before_poll os m st = Some (n, st') \<and> 0 < el_timeout st' \<and> el_timeout st' \<le> 3600000"
  by (rule before_poll_exists [OF assms])

theorem before_poll_total_witness:
  "\<exists>n st'. before_poll calm_os 409 (events_start calm_os True [Udp example_udp] example_io) = Some (n, st') \<and>
     0 < el_timeout st' \<and> el_timeout st' \<le> 3600000"
  by (rule before_poll_total) simp

text \<open>The number the limit is compared with is the number of sessions that are not stopped,
  finished or closing.\<close>

theorem count_sessions_number:
  "fst (count_sessions os ss w) = int (length (filter counted ss))"
  by (induction ss arbitrary: w) (auto simp: Let_def split: prod.splits, (metis fst_conv)+)

lemma dispatch_pipe:
  "dispatch os args loglevel tun n m es ss w = Some (stop, ss', w') \<Longrightarrow> From_Pipe \<in> fst ` set es \<Longrightarrow> stop"
proof (induction os args loglevel tun n m es ss w rule: dispatch.induct)
  case (3 os args loglevel tun n m events es ss w)
  then obtain e ss1 w1 where t: "tun_loop os args loglevel tun events n m ss w = Some (e, ss1, w1)"
    by (auto simp: bind_Some_iff)
  show ?case using "3.IH" [OF t refl refl] "3.prems" t by (cases e) simp_all
next
  case (4 os args loglevel tun n m i events es ss w)
  then obtain s s1 w1 where s: "session_at i ss = Some s" and c: "check_socket os events s w = Some (s1, w1)"
    by (auto simp: bind_Some_iff)
  show ?case using "4.IH" [OF s c refl] "4.prems" s c by simp
qed simp_all

text \<open>A byte in the signal pipe stops the loop, whatever else is reported with it.\<close>

theorem pipe_stops:
  assumes "events_round os args loglevel tun m (Wait_Ready es) st = Some st'" "From_Pipe \<in> fst ` set es"
  shows "\<not> el_running st' \<and> \<not> events_step os args loglevel tun m st' st''"
proof -
  obtain n st1 where b: "before_poll os m st = Some (n, st1)"
    using assms(1) by (auto simp: events_round_def bind_Some_iff)
  then obtain stop ss w where
    d: "dispatch os args loglevel tun n m es (el_sessions st1) (el_io st1) = Some (stop, ss, w)"
    using assms(1) by (auto simp: events_round_def bind_Some_iff)
  then have "st' = st1\<lparr>el_sessions := ss, el_running := \<not> stop, el_io := w\<rparr>"
    using assms(1) b by (simp add: events_round_def)
  then have "\<not> el_running st'" using dispatch_pipe [OF d assms(2)] by simp
  then show ?thesis by (auto elim!: events_stepE)
qed

lemma example_round:
  obtains st1 where
    "events_round calm_os args 5 3 409 (Wait_Ready [(From_Pipe, 1)]) (events_start calm_os True [Udp example_udp] example_io) = Some st1"
proof -
  obtain n st' where "before_poll calm_os 409 (events_start calm_os True [Udp example_udp] example_io) = Some (n, st')"
    using before_poll_exists [of 409 calm_os "events_start calm_os True [Udp example_udp] example_io"] by auto
  then show thesis using that by (simp add: events_round_def)
qed

theorem pipe_stops_witness:
  "\<exists>st'. events_round calm_os example_args 5 3 409 (Wait_Ready [(From_Pipe, 1)])
      (events_start calm_os True [Udp example_udp] example_io) = Some st' \<and> \<not> el_running st'"
proof -
  obtain st' where r: "events_round calm_os example_args 5 3 409 (Wait_Ready [(From_Pipe, 1)])
      (events_start calm_os True [Udp example_udp] example_io) = Some st'" by (rule example_round)
  then show ?thesis using pipe_stops [OF r] by simp
qed

theorem events_descriptors_witness:
  "\<exists>st. events_steps calm_os example_args 5 3 409 (events_start calm_os True [Udp example_udp, Icmp example_icmp] example_io) st \<and>
    distinct (held socket_of (el_sessions st)) \<and>
    set (held socket_of (el_sessions st)) \<subseteq> set (fds (el_io st)) \<and> clean (el_io st)"
proof -
  let ?s = "events_start calm_os True [Udp example_udp, Icmp example_icmp] example_io"
  have run: "el_running ?s" by (simp add: events_start_def split: prod.split)
  obtain n st1 where b: "before_poll calm_os 409 ?s = Some (n, st1)"
    using before_poll_exists [of 409 calm_os ?s] by auto
  then have "events_round calm_os example_args 5 3 409 (Wait_Fails EINTR) ?s = Some (st1\<lparr>el_running := True\<rparr>)"
    by (simp add: events_round_def)
  then have "events_step calm_os example_args 5 3 409 ?s (st1\<lparr>el_running := True\<rparr>)" by (rule events_step.round [OF run])
  then have "events_steps calm_os example_args 5 3 409 ?s (st1\<lparr>el_running := True\<rparr>)" by simp
  then show ?thesis using events_descriptors [OF example_inv] by blast
qed

text \<open>The limit on sessions is two fifths of the limit on open files, at most 1000, and positive
  for any limit from 3 to \<open>2 ^ 31\<close>; with no limit on open files (\<open>RLIM_INFINITY\<close>) the product
  overflows and the limit on sessions is negative, so that no session is ever allowed.\<close>

theorem max_sessions_range:
  assumes "3 \<le> unat rlim_cur" "unat rlim_cur \<le> 2 ^ 31"
  shows "max_sessions rlim_cur = min 1000 (int (unat rlim_cur * 2 div 5)) \<and> 0 < max_sessions rlim_cur \<and>
    max_sessions (- 1) < 0"
proof -
  have "unat (rlim_cur * of_nat SESSION_LIMIT) = unat rlim_cur * 40"
    using assms(2) by (simp add: SESSION_LIMIT_def unat_word_ariths)
  then have d: "unat (rlim_cur * of_nat SESSION_LIMIT div 100) = unat rlim_cur * 2 div 5"
    by (simp add: unat_div)
  have lt: "unat rlim_cur * 2 div 5 < 2 ^ 31" using assms(2) by simp
  have "uint (ucast (rlim_cur * of_nat SESSION_LIMIT div 100) :: u32) = int (unat rlim_cur * 2 div 5)"
    using d lt by (simp add: uint_nat unsigned_ucast_eq take_bit_nat_eq_self)
  then have "sint (ucast (rlim_cur * of_nat SESSION_LIMIT div 100) :: u32) = int (unat rlim_cur * 2 div 5)"
    using lt by (simp add: sint_uint signed_take_bit_int_eq_self)
  moreover have "0 < unat rlim_cur * 2 div 5" using assms(1) by simp
  moreover have "max_sessions (- 1) < 0" by code_simp
  ultimately show ?thesis by (simp add: max_sessions_def Let_def min_def)
qed

theorem max_sessions_range_witness:
  "max_sessions 1024 = min 1000 (int (unat (1024 :: u64) * 2 div 5)) \<and> 0 < max_sessions 1024 \<and> max_sessions (- 1) < 0"
  by (rule max_sessions_range) simp_all

text \<open>A session that the periodic check reports for deletion holds no descriptor any more: what it
  held before is closed, so unlinking it leaks nothing.\<close>

theorem deleted_session_closed:
  assumes "session_good x w" "check_session os n m x w = Some (True, x', w')"
  shows "socket_of x' = - 1 \<and> (0 \<le> socket_of x \<longrightarrow> socket_of x \<notin> set (fds w'))"
  using upkeep.deleted_released [OF assms] upkeep.deleted_closed [OF assms] by (intro conjI impI)

theorem deleted_session_closed_witness:
  "\<exists>x' w'. check_session calm_os 1 409 (Icmp (example_icmp\<lparr>sess := (sess example_icmp)\<lparr>i_stop := True\<rparr>\<rparr>)) example_io
      = Some (True, x', w') \<and> socket_of x' = - 1 \<and>
    8 \<notin> set (fds w')"
proof -
  let ?s = "example_icmp\<lparr>sess := (sess example_icmp)\<lparr>i_stop := True\<rparr>\<rparr>"
  have g: "session_good (Icmp ?s) example_io" by (simp add: examples icmp_good_def sock_ok_def)
  obtain t where "get_icmp_timeout (sess ?s) 1 409 = Some t" using timeouts_total by fastforce
  then have c: "check_session calm_os 1 409 (Icmp ?s) example_io =
      Some (True, Icmp (?s\<lparr>socket := - 1\<rparr>), sys_close (socket ?s) (step_io [] example_io))"
    by (simp add: check_icmp_session_def sys_time_def)
  show ?thesis using deleted_session_closed [OF g c] c by (auto simp: examples)
qed

lemma scaled_bounds:
  assumes "0 \<le> n" "n \<le> m" "0 < (m :: int)" "0 \<le> (t :: int)"
  shows "0 \<le> (t * (100 - (n * 100) sdiv m)) sdiv 100 \<and> (t * (100 - (n * 100) sdiv m)) sdiv 100 \<le> t"
  using scale_bounds [OF assms(1-3)] scaled_timeout_bounds assms(4) by blast

text \<open>With no more sessions than the limit, every timeout is between zero and its base value, and
  it shrinks as the list fills up: at the limit it is zero.\<close>

theorem timeouts_bounded:
  assumes "0 \<le> n" "n \<le> m" "0 < m"
  shows "\<exists>ti tu tt. get_icmp_timeout i n m = Some ti \<and> get_udp_timeout u n m = Some tu \<and> get_tcp_timeout c n m = Some tt \<and>
    0 \<le> ti \<and> ti \<le> 15 \<and> 0 \<le> tu \<and> tu \<le> 300 \<and> 0 \<le> tt \<and> tt \<le> 3600 \<and>
    (n = m \<longrightarrow> ti = 0 \<and> tu = 0 \<and> tt = 0)"
proof -
  note b = scaled_bounds [OF assms]
  have full: "n = m \<Longrightarrow> n * 100 sdiv m = 100" using assms(3) by (simp add: sdiv_nonneg)
  show ?thesis
    using b [of ICMP_TIMEOUT] b [of UDP_TIMEOUT_53] b [of UDP_TIMEOUT_ANY] b [of TCP_INIT_TIMEOUT]
      b [of TCP_IDLE_TIMEOUT] b [of TCP_CLOSE_TIMEOUT] assms(3) full
    by (cases "n = m") (simp_all add: get_icmp_timeout_def get_udp_timeout_def get_tcp_timeout_def Let_def ICMP_TIMEOUT_def
        UDP_TIMEOUT_53_def UDP_TIMEOUT_ANY_def TCP_INIT_TIMEOUT_def TCP_IDLE_TIMEOUT_def TCP_CLOSE_TIMEOUT_def)
qed

theorem timeouts_bounded_witness:
  "\<exists>ti tu tt. get_icmp_timeout (sess example_icmp) 100 409 = Some ti \<and> get_udp_timeout (sess example_udp) 100 409 = Some tu \<and>
    get_tcp_timeout example_tcp 100 409 = Some tt \<and>
    0 \<le> ti \<and> ti \<le> 15 \<and> 0 \<le> tu \<and> tu \<le> 300 \<and> 0 \<le> tt \<and> tt \<le> 3600 \<and>
    ((100 :: int) = 409 \<longrightarrow> ti = 0 \<and> tu = 0 \<and> tt = 0)"
  by (rule timeouts_bounded) simp_all

end
