(* ===== verification/Jni.thy ===== *)
theory Jni
  imports Events
begin

text \<open>
  The life of the native library (\<^verbatim>\<open>tun2http.c\<close>): \<open>JNI_OnLoad\<close>, \<open>jni_init\<close>, \<open>jni_start\<close>, \<open>jni_stop\<close> and
  \<open>jni_done\<close> of the VPN service, and the thread between a start and a stop as the steps of its
  event loop. The JVM, the pipe and the mutex are reduced to whether their calls succeed. \<open>pthread_kill\<close> with
  signal 0 is taken to fail exactly for a thread that has ended.
\<close>

section \<open>State and operations\<close>

text \<open>\<open>JNI_OnLoad\<close> raises the limit on open files, a pair of the soft and the hard limit, which the thread
  reads when it starts; \<open>env_ok\<close>, \<open>got\<close> and \<open>set_ok\<close> are the results of \<open>GetEnv\<close>, \<open>getrlimit\<close> and
  \<open>setrlimit\<close>.\<close>

definition jni_onload :: "bool \<Rightarrow> bool \<Rightarrow> bool \<Rightarrow> u64 \<times> u64 \<Rightarrow> int \<times> (u64 \<times> u64)" where
  "jni_onload env_ok got set_ok lim =
     (if \<not> env_ok then (- 1, lim)
      else (0x00010006, if got \<and> set_ok then (snd lim, snd lim) else lim))"

lemma jni_onload_raises:
  "fst lim \<le> snd lim \<Longrightarrow> fst lim \<le> fst (snd (jni_onload env_ok got set_ok lim)) \<and>
    fst (snd (jni_onload env_ok got set_ok lim)) \<le> snd lim \<and> snd (snd (jni_onload env_ok got set_ok lim)) = snd lim"
  by (simp add: jni_onload_def)

text \<open>The thread: none (\<open>thread_id\<close> is 0), the event loop of a live one with its arguments, or one that
  ended without resetting \<open>thread_id\<close>. The sessions and the io state belong to the loop while it
  runs.\<close>

datatype thread = No_Thread "session list" io | Live arguments int event_loop | Ended "session list" io

definition jni_init :: "io \<Rightarrow> thread" where
  "jni_init w = No_Thread init w"

text \<open>\<open>strcpy\<close> of the proxy's address into a field of 128 bytes; \<open>created\<close> and \<open>attached\<close> are the
  results of \<open>pthread_create\<close> and \<open>AttachCurrentThread\<close>, \<open>polling\<close> that of the \<open>epoll\<close> calls.\<close>

definition run_thread :: "os \<Rightarrow> arguments \<Rightarrow> u64 \<Rightarrow> bool \<Rightarrow> bool \<Rightarrow> session list \<Rightarrow> io \<Rightarrow> thread" where
  "run_thread os args rlim_cur attached polling ss w =
     (if attached then Live args (max_sessions rlim_cur) (events_start os polling ss w) else Ended ss w)"

definition jni_start :: "os \<Rightarrow> arguments \<Rightarrow> u64 \<Rightarrow> bool \<Rightarrow> bool \<Rightarrow> bool \<Rightarrow> thread \<Rightarrow> thread option" where
  "jni_start os args rlim_cur created attached polling th =
     (case th of
        Live _ _ _ \<Rightarrow> Some th
      | No_Thread ss w \<Rightarrow>
          if length (proxyIp args) > 127 then None
          else Some (if created then run_thread os args rlim_cur attached polling ss w else No_Thread ss w)
      | Ended ss w \<Rightarrow>
          if length (proxyIp args) > 127 then None
          else Some (if created then run_thread os args rlim_cur attached polling ss w else Ended ss w))"

text \<open>The end of \<open>handle_events\<close>: the thread resets \<open>thread_id\<close>; the list of sessions stays.\<close>

definition thread_exit :: "event_loop \<Rightarrow> thread" where
  "thread_exit st = No_Thread (el_sessions st) (el_io st)"

text \<open>The part of \<open>jni_stop\<close> after the join; \<open>st\<close> is the loop as the thread left it. A stop when no
  thread is alive does nothing.\<close>

definition jni_stopped :: "event_loop \<Rightarrow> thread" where
  "jni_stopped st = (let (ss, w) = clear (el_sessions st) (el_io st) in No_Thread ss w)"

text \<open>When the write to the pipe fails, the thread is not waited for, and its sessions are freed all the
  same while it goes on.\<close>

definition jni_stop_unjoined :: "event_loop \<Rightarrow> event_loop" where
  "jni_stop_unjoined st = (let (ss, w) = clear (el_sessions st) (el_io st) in st\<lparr>el_sessions := ss, el_io := w\<rparr>)"

text \<open>A round of the thread in which that happens between the answer of the poll and the dispatch.\<close>

definition raced_round ::
    "os \<Rightarrow> arguments \<Rightarrow> int \<Rightarrow> int \<Rightarrow> int \<Rightarrow> (source \<times> u32) list \<Rightarrow> event_loop \<Rightarrow> event_loop option" where
  "raced_round os args loglevel tun m es st = do {
     (n, st) \<leftarrow> before_poll os m st;
     let st = jni_stop_unjoined st;
     (stop, ss, w) \<leftarrow> dispatch os args loglevel tun n m es (el_sessions st) (el_io st);
     Some (st\<lparr>el_sessions := ss, el_running := \<not> stop, el_io := w\<rparr>)
   }"

text \<open>\<open>jni_done\<close>, which the service calls after it has stopped the thread.\<close>

definition jni_done :: "thread \<Rightarrow> thread option" where
  "jni_done th =
     (case th of
        Live _ _ _ \<Rightarrow> None
      | No_Thread ss w \<Rightarrow> Some (let (ss, w) = clear ss w in No_Thread ss w)
      | Ended ss w \<Rightarrow> Some (let (ss, w) = clear ss w in Ended ss w))"

text \<open>The steps of the process. A stop writes to the pipe, and the join waits while the thread goes
  through any number of rounds until its loop has ended. A stop that fails to write clears the list between two
  rounds; inside of one it is \<open>raced_round\<close>.\<close>

inductive vpn_step :: "os \<Rightarrow> int \<Rightarrow> int \<Rightarrow> thread \<Rightarrow> thread \<Rightarrow> bool" for os loglevel tun where
  start: "jni_start os args rlim_cur created attached polling th = Some th' \<Longrightarrow> vpn_step os loglevel tun th th'"
| run: "events_step os args loglevel tun m st st' \<Longrightarrow> vpn_step os loglevel tun (Live args m st) (Live args m st')"
| leave: "\<not> el_running st \<Longrightarrow> vpn_step os loglevel tun (Live args m st) (thread_exit st)"
| stop: "events_steps os args loglevel tun m st st' \<Longrightarrow> \<not> el_running st' \<Longrightarrow>
    vpn_step os loglevel tun (Live args m st) (jni_stopped st')"
| stop_unjoined: "vpn_step os loglevel tun (Live args m st) (Live args m (jni_stop_unjoined st))"
| done_call: "jni_done th = Some th' \<Longrightarrow> vpn_step os loglevel tun th th'"

inductive_cases vpn_stepE: "vpn_step os loglevel tun th th'"

abbreviation vpn_steps :: "os \<Rightarrow> int \<Rightarrow> int \<Rightarrow> thread \<Rightarrow> thread \<Rightarrow> bool" where
  "vpn_steps os loglevel tun \<equiv> (vpn_step os loglevel tun)\<^sup>*\<^sup>*"

section \<open>The invariant of the process\<close>

fun thread_sessions :: "thread \<Rightarrow> session list" where
  "thread_sessions (No_Thread ss w) = ss"
| "thread_sessions (Live args m st) = el_sessions st"
| "thread_sessions (Ended ss w) = ss"

fun thread_io :: "thread \<Rightarrow> io" where
  "thread_io (No_Thread ss w) = w"
| "thread_io (Live args m st) = el_io st"
| "thread_io (Ended ss w) = w"

text \<open>An invariant of the loop is one of the process, where it has no sessions to begin with.\<close>

context loop_invariant begin

lemma run_thread_kept:
  "I ss w \<Longrightarrow> I (thread_sessions (run_thread os args rlim attached polling ss w))
     (thread_io (run_thread os args rlim attached polling ss w))"
  using events_start_kept by (simp add: run_thread_def)

lemma vpn_step_kept:
  "vpn_step os loglevel tun th th' \<Longrightarrow> I (thread_sessions th) (thread_io th) \<Longrightarrow> I (thread_sessions th') (thread_io th')"
proof (induction rule: vpn_step.induct)
  case (start args rlim_cur created attached polling th th')
  then show ?case using run_thread_kept by (cases th) (auto simp: jni_start_def split: if_splits)
next
  case (run args m st st')
  then show ?case by (auto elim!: events_stepE intro: events_round_kept)
next
  case (leave st args m)
  then show ?case by (simp add: thread_exit_def)
next
  case (stop args m st st')
  then show ?case using events_steps_kept I_clear by (fastforce simp: jni_stopped_def split: prod.split)
next
  case (stop_unjoined args m st)
  then show ?case using I_clear by (fastforce simp: jni_stop_unjoined_def split: prod.split)
next
  case (done_call th th')
  then show ?case using I_clear by (cases th) (fastforce simp: jni_done_def split: prod.splits)+
qed

lemma vpn_steps_kept:
  "vpn_steps os loglevel tun th th' \<Longrightarrow> I (thread_sessions th) (thread_io th) \<Longrightarrow> I (thread_sessions th') (thread_io th')"
  by (induction rule: rtranclp_induct) (auto intro: vpn_step_kept)

end

definition thread_inv :: "thread \<Rightarrow> bool" where
  "thread_inv th \<longleftrightarrow> list_inv (thread_sessions th) (thread_io th)"

lemma vpn_steps_inv: "vpn_steps os loglevel tun th th' \<Longrightarrow> thread_inv th \<Longrightarrow> thread_inv th'"
  unfolding thread_inv_def by (rule descriptors.vpn_steps_kept)

lemma cleared_inv:
  assumes "list_inv ss w" "clear ss w = (ss', w')"
  shows "ss' = [] \<and> list_inv ss' w' \<and> set (fds w') = set (fds w) - set (held socket_of ss)"
  using clear_closes_from [of ss w ss' w'] clear_inv [OF assms(2,1)] assms by (simp add: list_inv_def)

lemma jni_init_inv: "thread_inv (jni_init empty_io)"
  by (simp add: jni_init_def init_def thread_inv_def list_inv_def all_inv_def clean_def empty_io_def)

text \<open>C13: over any sequence of starts, rounds, stops and ends of the library, the sessions that exist
  are good, no two share a descriptor, and no descriptor was closed that was not open.\<close>

theorem vpn_descriptors:
  assumes "vpn_steps os loglevel tun (jni_init empty_io) th"
  shows "(\<forall>s \<in> set (thread_sessions th). session_good s (thread_io th)) \<and>
    distinct (held socket_of (thread_sessions th)) \<and> clean (thread_io th)"
  using vpn_steps_inv [OF assms jni_init_inv] by (simp add: thread_inv_def list_inv_def all_inv_def)

theorem vpn_descriptors_witness:
  "\<exists>th. vpn_steps calm_os 5 3 (jni_init empty_io) th \<and> (\<exists>st. th = Live example_args 409 st) \<and>
    (\<forall>s \<in> set (thread_sessions th). session_good s (thread_io th)) \<and>
    distinct (held socket_of (thread_sessions th)) \<and> clean (thread_io th)"
proof -
  let ?th = "run_thread calm_os example_args 1024 True True init empty_io"
  have "max_sessions 1024 = 409" by code_simp
  then have l: "\<exists>st. ?th = Live example_args 409 st" by (simp add: run_thread_def)
  have "jni_start calm_os example_args 1024 True True True (jni_init empty_io) = Some ?th"
    by (simp add: jni_start_def jni_init_def example_args_def cstr_def)
  then have "vpn_steps calm_os 5 3 (jni_init empty_io) ?th" by (intro r_into_rtranclp vpn_step.start)
  from vpn_descriptors [OF this] this l show ?thesis by blast
qed

text \<open>C24: a stop of a running thread leaves no session, and every descriptor that a session held when
  the loop ended is closed; what is open after it was open before and held by no session.\<close>

theorem stop_releases:
  assumes "thread_inv (Live args m st)" "events_steps os args loglevel tun m st st'" "\<not> el_running st'"
  shows "\<exists>w'. jni_stopped st' = No_Thread [] w' \<and> clean w' \<and>
    set (fds w') = set (fds (el_io st')) - set (held socket_of (el_sessions st'))"
proof -
  have i: "list_inv (el_sessions st') (el_io st')"
    using descriptors.events_steps_kept [OF assms(2)] assms(1) by (simp add: thread_inv_def)
  obtain ss' w' where c: "clear (el_sessions st') (el_io st') = (ss', w')" by force
  show ?thesis using cleared_inv [OF i c] by (simp add: jni_stopped_def c list_inv_def)
qed

theorem stop_releases_witness:
  "\<exists>w'. jni_stopped \<lparr>el_sessions = [Udp example_udp, Icmp example_icmp], el_last = 0, el_running = False,
      el_timeout = 100, el_io = example_io\<rparr> = No_Thread [] w' \<and> clean w' \<and>
    set (fds w') = set (fds example_io) - set (held socket_of [Udp example_udp, Icmp example_icmp])"
  using stop_releases [of example_args 409 "\<lparr>el_sessions = [Udp example_udp, Icmp example_icmp], el_last = 0,
      el_running = False, el_timeout = 100, el_io = example_io\<rparr>" calm_os 5 3
    "\<lparr>el_sessions = [Udp example_udp, Icmp example_icmp], el_last = 0, el_running = False,
      el_timeout = 100, el_io = example_io\<rparr>"] example_inv
  by (simp add: thread_inv_def)

text \<open>C29: a stop that cannot write to the pipe frees the sessions under the thread that uses them: when it comes
  between the answer of the poll and the dispatch, the first event of a session, which without it is handed
  to that session, is a use of freed memory.\<close>

theorem failed_stop_race:
  assumes "before_poll os m st = Some (n, st1)" "session_at i (el_sessions st1) = Some s"
  shows "raced_round os args loglevel tun m ((From_Session i, events) # es) st = None \<and>
    events_round os args loglevel tun m (Wait_Ready [(From_Session i, events)]) st =
      map_option (\<lambda>(s', w'). st1\<lparr>el_sessions := replace_first (\<lambda>x. sid_of x = i) s' (el_sessions st1),
        el_running := True, el_io := w'\<rparr>) (check_socket os events s (el_io st1))"
proof -
  obtain w where "clear (el_sessions st1) (el_io st1) = ([], w)"
  proof -
    have "fst (clear ss v) = []" for ss v by (induction ss arbitrary: v) simp_all
    then show thesis using that by (metis prod.collapse)
  qed
  then have "raced_round os args loglevel tun m ((From_Session i, events) # es) st = None"
    using assms(1) by (simp add: raced_round_def jni_stop_unjoined_def session_at_def)
  then show ?thesis
    using assms by (cases "check_socket os events s (el_io st1)") (auto simp: events_round_def)
qed

theorem failed_stop_race_witness:
  "\<exists>st st1. before_poll calm_os 409 st = Some (1, st1) \<and> session_at 1 (el_sessions st1) = Some (Udp example_udp) \<and>
    raced_round calm_os example_args 5 3 409 [(From_Session 1, EPOLLIN)] st = None"
proof -
  let ?st = "\<lparr>el_sessions = [Udp example_udp], el_last = 1000000, el_running = True, el_timeout = 0, el_io = example_io\<rparr>"
  obtain st1 where b: "before_poll calm_os 409 ?st = Some (1, st1)" and s: "session_at 1 (el_sessions st1) = Some (Udp example_udp)"
    by (simp add: before_poll_def sys_ms_def calm_os_def EPOLL_MIN_CHECK_def session_at_def example_udp_def)
  show ?thesis using failed_stop_race [OF b s] b s by blast
qed

section \<open>The rest of the interface\<close>

text \<open>\<open>jni_get_mtu\<close>; \<open>JNI_OnUnload\<close> only logs whether \<open>GetEnv\<close> succeeds.\<close>

definition jni_get_mtu :: int where
  "jni_get_mtu = uint get_mtu"

end
