(* ===== verification/Tcp_Relay.thy ===== *)
theory Tcp_Relay
  imports Tcp_Machine
begin

text \<open>
  A TCP session as a relay between the app and the server. \<open>tcp_relay\<close> is a run of the session with
  the history of its own effects; \<open>relay_history\<close> is what a property of history and session has to
  satisfy at the few places where the stream is touched, and gives that every run keeps it.
\<close>

section \<open>What the app reads\<close>

text \<open>The sequence number and the data of a packet as its receiver takes them apart.\<close>

definition seg_read :: "byte list \<Rightarrow> (u32 \<times> byte list) option" where
  "seg_read b = do {
     let seg = drop (if drop_bit 4 (b ! 0) = 4 then 20 else 40) b;
     h \<leftarrow> read_tcphdr seg 0;
     Some (th_seq h, drop (4 * unat (th_doff h)) seg)
   }"

text \<open>The data that an effect of the session hands to the app; a packet that is not written in full does not
  reach it.\<close>

fun app_gets :: "effect \<Rightarrow> (u32 \<times> byte list) list" where
  "app_gets (Tun_Write b r) =
     (if r \<noteq> int (length b) then []
      else case seg_read b of Some (q, d) \<Rightarrow> if d = [] then [] else [(q, d)] | None \<Rightarrow> [])"
| "app_gets _ = []"

lemma ip_version_byte:
  "drop_bit 4 ((ip4_header n p src dst @ rest) ! 0) = (4 :: byte)"
  "drop_bit 4 ((ip6_header n p src dst @ rest) ! 0) = (6 :: byte)"
  by (simp_all add: ip4_header_def ip4_header_with_def ip6_header_def Let_def drop_bit_eq_div)

lemma seg_read_packet:
  assumes "tcp_addrs t"
  shows "seg_read (tcp_packet t data syn ack fin rst) = Some (local_seq t, data)"
proof -
  let ?b = "tcp_packet t data syn ack fin rst"
  have v: "drop (if drop_bit 4 (?b ! 0) = 4 then 20 else 40) ?b = tcp_segment t data syn ack fin rst \<and>
    (\<exists>ck. tcp_segment t data syn ack fin rst = tcp_header ck t syn ack fin rst @ (if syn then tcp_options t else []) @ data)"
  proof (cases "t_version t = 4")
    case True
    obtain ck where p: "?b =
        ip4_header (20 + (20 + (if syn then 8 else 0) + length data)) IPPROTO_TCP (t_daddr t) (t_saddr t) @
        tcp_header ck t syn ack fin rst @ (if syn then tcp_options t else []) @ data"
      using tcp_packet_v4 [OF assms True] by blast
    show ?thesis using assms True unfolding tcp_segment_def p by (auto simp: ip_version_byte tcp_addrs_def wire)
  next
    case False
    obtain ck where p: "?b =
        ip6_header (20 + (if syn then 8 else 0) + length data) IPPROTO_TCP (t_daddr t) (t_saddr t) @
        tcp_header ck t syn ack fin rst @ (if syn then tcp_options t else []) @ data"
      using tcp_packet_v6 [OF assms False] by blast
    show ?thesis using assms False unfolding tcp_segment_def p by (auto simp: ip_version_byte tcp_addrs_def wire)
  qed
  then obtain ck where s: "tcp_segment t data syn ack fin rst =
      tcp_header ck t syn ack fin rst @ (if syn then tcp_options t else []) @ data" by blast
  have "drop (4 * unat (th_doff (header_of t syn ack fin rst))) (tcp_segment t data syn ack fin rst) = data"
    unfolding s by (simp add: header_of_def wire)
  then show ?thesis
    using v read_tcp_header [OF s] by (simp add: seg_read_def header_of_def Let_def)
qed

section \<open>Operations that do not touch the stream\<close>

text \<open>An effect by which no data of the stream moves.\<close>

fun quiet_effect :: "effect \<Rightarrow> bool" where
  "quiet_effect (Sock_Send fd b m r) = False"
| "quiet_effect (Sock_Recv fd (Rx_Data bs)) = (bs = [])"
| "quiet_effect (Tun_Write b r) = (app_gets (Tun_Write b r) = [])"
| "quiet_effect _ = True"

definition hushed :: "io \<Rightarrow> io \<Rightarrow> bool" where
  "hushed w w' \<longleftrightarrow> (\<exists>es. trace w' = trace w @ es \<and> list_all quiet_effect es)"

text \<open>The changes of the state that end nothing but the session, and the end of the handshake.\<close>

definition state_kept :: "tcp_state \<Rightarrow> tcp_state \<Rightarrow> bool" where
  "state_kept st st' \<longleftrightarrow>
     (st' = st \<or> closing_state st' \<or> st = TCP_SYN_RECV \<and> st' = TCP_ESTABLISHED) \<and> (closing_state st \<longrightarrow> closing_state st')"

definition same_stream :: "tcp_session \<Rightarrow> tcp_session \<Rightarrow> bool" where
  "same_stream t t' \<longleftrightarrow> forward t' = forward t \<and> remote_seq t' = remote_seq t \<and> local_seq t' = local_seq t \<and>
     tcp_addrs t' = tcp_addrs t \<and> t_dest t' = t_dest t \<and> state_kept (t_state t) (t_state t')"

definition mute :: "tcp_session \<Rightarrow> io \<Rightarrow> tcp_session \<Rightarrow> io \<Rightarrow> bool" where
  "mute t w t' w' \<longleftrightarrow> (tcp_addrs t \<longrightarrow> t_state t \<noteq> TCP_LISTEN \<longrightarrow> same_stream t t' \<and> hushed w w')"

lemma hushed_refl [simp]: "hushed w w"
  by (simp add: hushed_def)

lemma hushed_trans: "hushed w v \<Longrightarrow> hushed v u \<Longrightarrow> hushed w u"
  by (fastforce simp: hushed_def)

lemma state_kept_refl [simp]: "state_kept st st"
  by (simp add: state_kept_def)

lemma state_kept_closing [simp]: "state_kept st TCP_CLOSING" "state_kept st TCP_CLOSE"
  by (simp_all add: state_kept_def closing_state_def)

lemma state_kept_trans: "state_kept a b \<Longrightarrow> state_kept b c \<Longrightarrow> state_kept a c"
  by (auto simp: state_kept_def closing_state_def)

lemma state_kept_listen: "state_kept st st' \<Longrightarrow> st \<noteq> TCP_LISTEN \<Longrightarrow> st' \<noteq> TCP_LISTEN"
  by (auto simp: state_kept_def closing_state_def)

lemma same_stream_refl [simp]: "same_stream t t"
  by (simp add: same_stream_def)

lemma same_stream_trans: "same_stream t u \<Longrightarrow> same_stream u v \<Longrightarrow> same_stream t v"
  using state_kept_trans by (auto simp: same_stream_def)

lemma mute_refl [simp]: "mute t w t w"
  by (simp add: mute_def)

lemma mute_trans [trans]: "mute t w u v \<Longrightarrow> mute u v t' w' \<Longrightarrow> mute t w t' w'"
  using same_stream_trans hushed_trans state_kept_listen unfolding mute_def
  by (metis same_stream_def)

lemma mute_io: "hushed w w' \<Longrightarrow> mute t w t w'"
  by (simp add: mute_def)

lemma mute_same: "same_stream t t' \<Longrightarrow> mute t w t' w"
  by (simp add: mute_def)

named_theorems muting

lemma hushed_sys:
  "sys_time os w = (n, w') \<Longrightarrow> hushed w w'" "sys_ms os w = (n, w') \<Longrightarrow> hushed w w'"
  "sys_sndbuf os fd w = (v, w') \<Longrightarrow> hushed w w'" "sys_outq os fd w = (v, w') \<Longrightarrow> hushed w w'"
  "sys_epoll_mod os fd ev w = (ok, w') \<Longrightarrow> hushed w w'"
  by (auto simp: hushed_def sys_defs)

lemma hushed_direct [simp]: "hushed w (sys_close fd w)" "hushed w (sys_setsockopt fd opt w)"
  by (auto simp: hushed_def sys_close_def sys_setsockopt_def)

lemma hushed_buffers: "get_receive_buffer os s w = (b, w') \<Longrightarrow> hushed w w'" "get_receive_window os s w = (v, w') \<Longrightarrow> hushed w w'"
  by (auto simp: get_receive_buffer_def get_receive_window_def Let_def split: if_splits prod.splits
      dest!: hushed_sys intro: hushed_trans)

lemma write_tcp_hushed:
  "write_tcp os t [] syn ack fin rst w = (r, w') \<Longrightarrow> tcp_addrs t \<Longrightarrow> hushed w w'"
  using seg_read_packet [of t "[]" syn ack fin rst]
  by (auto simp: hushed_def write_tcp_def sys_tun_write_def Let_def split: if_splits)

lemma writers_mute [muting]:
  "write_ack os t w = (r, t', w') \<Longrightarrow> mute t w t' w'"
  "write_fin_ack os t w = (r, t', w') \<Longrightarrow> mute t w t' w'"
  "write_rst os t w = (t', w') \<Longrightarrow> mute t w t' w'"
  by (auto simp: write_ack_def write_fin_ack_def write_rst_def mute_def same_stream_def tcp_addrs_def Let_def
      split: prod.splits if_splits dest!: write_tcp_hushed)

lemma same_stream_upd [simp]:
  "same_stream t (t\<lparr>t_time := n\<rparr>)" "same_stream t (t\<lparr>send_window := x\<rparr>)" "same_stream t (t\<lparr>recv_window := x\<rparr>)"
  "same_stream t (t\<lparr>acked := x\<rparr>)" "same_stream t (t\<lparr>t_hostname := name\<rparr>)" "same_stream t (t\<lparr>t_received := c\<rparr>)"
  "same_stream t (t\<lparr>t_state := TCP_CLOSING\<rparr>)" "same_stream t (t\<lparr>t_time := n, send_window := x\<rparr>)"
  "same_stream t (tcp_reset_counts t)"
  by (simp_all add: same_stream_def tcp_addrs_def tcp_reset_counts_def)

lemma check_tcp_session_blocks:
  assumes "check_tcp_session os s n m w = Some (del, s', w')"
  obtains now w1 timeout s1 w2 s2 where "sys_time os w = (now, w1)" "tcp_expire os now timeout s w1 = (s1, w2)"
    "tcp_close_socket os s1 w2 = (s2, w')" "s' = s2\<lparr>sess := tcp_reset_counts (sess s2)\<rparr>"
proof -
  obtain now w1 where t: "sys_time os w = (now, w1)" by force
  obtain timeout where o: "get_tcp_timeout (sess s) n m = Some timeout"
    using assms t by (auto simp: check_tcp_session_def bind_eq_Some_conv)
  obtain s1 w2 where e: "tcp_expire os now timeout s w1 = (s1, w2)" by force
  obtain s2 w3 where c: "tcp_close_socket os s1 w2 = (s2, w3)" by force
  have "s' = s2\<lparr>sess := tcp_reset_counts (sess s2)\<rparr>" "w' = w3"
    using assms t o e c by (auto simp: check_tcp_session_def)
  then show ?thesis using that t e c by metis
qed

lemma check_tcp_session_mute [muting]:
  assumes "check_tcp_session os s n m w = Some (del, s', w')"
  shows "mute (sess s) w (sess s') w' \<and> (socket s' = socket s \<or> socket s' = - 1)"
proof -
  obtain now w1 timeout s1 w2 s2 where t: "sys_time os w = (now, w1)" and e: "tcp_expire os now timeout s w1 = (s1, w2)"
    and c: "tcp_close_socket os s1 w2 = (s2, w')" and r: "s' = s2\<lparr>sess := tcp_reset_counts (sess s2)\<rparr>"
    by (rule check_tcp_session_blocks [OF assms])
  have "mute (sess s) w (sess s) w1" by (rule mute_io) (rule hushed_sys(1) [OF t])
  also have "mute (sess s) w1 (sess s1) w2"
    using e by (auto simp: tcp_expire_def mute_same split: if_splits prod.splits dest!: muting)
  also have "mute (sess s1) w2 (sess s2) w'"
    using c by (auto simp: tcp_close_socket_def mute_def same_stream_def tcp_addrs_def split: if_splits prod.splits
        dest!: hushed_sys intro: hushed_trans [OF hushed_direct(1)])
  also have "mute (sess s2) w' (sess s') w'" by (simp add: r mute_same)
  finally have "mute (sess s) w (sess s') w'" .
  moreover have "socket s1 = socket s" using e by (auto simp: tcp_expire_def split: if_splits prod.splits)
  moreover have "socket s2 = socket s1 \<or> socket s2 = - 1"
    using c by (auto simp: tcp_close_socket_def split: if_splits prod.splits)
  ultimately show ?thesis using r by auto
qed

lemma tcp_keep_alive_mute [muting]:
  assumes "tcp_keep_alive os t w = (t', w')"
  shows "mute t w t' w'"
proof -
  obtain ms v where ms: "sys_ms os w = (ms, v)" by force
  let ?t = "t\<lparr>last_keep_alive := ms, remote_seq := remote_seq t - 1\<rparr>"
  obtain r u x where a: "write_ack os ?t v = (r, u, x)" by (metis prod_cases3)
  show ?thesis
  proof (cases "ms - last_keep_alive t > EPOLL_MIN_CHECK")
    case True
    then have "t' = u\<lparr>remote_seq := remote_seq u + 1\<rparr>" "w' = x"
      using assms ms a by (auto simp: tcp_keep_alive_def Let_def)
    then show ?thesis
      using writers_mute(1) [OF a] hushed_sys(2) [OF ms] hushed_trans
      by (auto simp: mute_def same_stream_def tcp_addrs_def)
  next
    case False
    then show ?thesis using assms ms hushed_sys(2) [OF ms] by (auto simp: tcp_keep_alive_def mute_io)
  qed
qed

lemma monitor_tcp_session_mute [muting]:
  assumes "monitor_tcp_session os s w = (recheck, s', w')"
  shows "mute (sess s) w (sess s') w' \<and> socket s' = socket s"
proof -
  obtain rc ev s1 w1 where m: "monitor_events os s w = (rc, ev, s1, w1)" by (metis prod_cases4)
  have "mute (sess s) w (sess s1) w1 \<and> socket s1 = socket s"
    using m by (auto simp: monitor_events_def Let_def split: if_splits prod.splits
        dest!: muting hushed_buffers(1) intro: mute_io mute_trans [OF _ mute_io])
  moreover have "mute (sess s1) w1 (sess s') w' \<and> socket s' = socket s1"
    using assms m by (auto simp: monitor_tcp_session_def Let_def mute_def split: if_splits prod.splits dest!: hushed_sys)
  ultimately show ?thesis using mute_trans by metis
qed

lemma tcp_other_ack_mute [muting]:
  "tcp_other_ack os ack s w = (s', w') \<Longrightarrow> mute (sess s) w (sess s') w' \<and> socket s' = socket s"
  by (auto simp: tcp_other_ack_def Let_def mute_same mute_io split: if_splits prod.splits dest!: muting)

lemma tcp_acknowledge_mute: "mute t w (tcp_acknowledge ack t) w"
  by (auto simp: tcp_acknowledge_def mute_def same_stream_def state_kept_def closing_state_def tcp_addrs_def Let_def)

section \<open>Runs with their history\<close>

text \<open>One thing that the event loop does with the session. \<open>P\<close> is what is asked of the data of a packet of the app
  at its sequence number.\<close>

inductive tcp_act :: "os \<Rightarrow> (u32 \<Rightarrow> byte list \<Rightarrow> bool) \<Rightarrow> tcp_session ng_session \<times> io \<Rightarrow> tcp_session ng_session \<times> io \<Rightarrow> bool"
  for os P where
  packet: "tcp_packet_in os hostname pkt off datalen h s w = Some (s', w') \<Longrightarrow>
    P (th_seq h) (take (unat datalen) (drop off pkt)) \<Longrightarrow> tcp_act os P (s, w) (s', w')"
| event: "0 \<le> socket s \<Longrightarrow> check_tcp_socket os events s w = Some (s', w') \<Longrightarrow> tcp_act os P (s, w) (s', w')"
| monitored: "0 \<le> socket s \<Longrightarrow> monitor_tcp_session os s w = (recheck, s', w') \<Longrightarrow> tcp_act os P (s, w) (s', w')"
| checked: "check_tcp_session os s n m w = Some (del, s', w') \<Longrightarrow> tcp_act os P (s, w) (s', w')"

text \<open>Any number of them, with the effects of the session alone; in between the calls for other sessions change
  the io state.\<close>

inductive tcp_relay ::
    "os \<Rightarrow> (u32 \<Rightarrow> byte list \<Rightarrow> bool) \<Rightarrow> tcp_session ng_session \<times> io \<Rightarrow> effect list \<Rightarrow> tcp_session ng_session \<times> io \<Rightarrow> bool"
  for os P x where
  start: "tcp_relay os P x [] x"
| act: "tcp_relay os P x es (s, w) \<Longrightarrow> tcp_act os P (s, w) (s', w') \<Longrightarrow> trace w' = trace w @ es' \<Longrightarrow>
    tcp_relay os P x (es @ es') (s', w')"
| others: "tcp_relay os P x es (s, w) \<Longrightarrow> sock_ok (socket s) w' \<Longrightarrow> tcp_relay os P x es (s, w')"

lemma tcp_act_life: "tcp_act os P x y \<Longrightarrow> tcp_life os x y"
  by (induction rule: tcp_act.induct) (rule tcp_life.intros; assumption)+

text \<open>The sessions whose stream is relayed as it is: past the handshake, not on port 80, and with the proxy's answer
  if there is one.\<close>

definition relaying :: "tcp_session ng_session \<Rightarrow> io \<Rightarrow> bool" where
  "relaying s w \<longleftrightarrow> tcp_good s w \<and> t_state (sess s) \<noteq> TCP_LISTEN \<and> t_dest (sess s) \<noteq> 80 \<and>
     talking (proxied_port (t_dest (sess s))) (connect_sent (sess s))"

lemma talking_steps:
  "tcp_steps proxied x y \<Longrightarrow> fst x \<noteq> TCP_LISTEN \<Longrightarrow> talking proxied (snd x) \<Longrightarrow> fst y \<noteq> TCP_LISTEN \<and> talking proxied (snd y)"
proof (induction rule: rtranclp_induct)
  case (step y z)
  then have "fst y \<noteq> TCP_LISTEN" "talking proxied (snd y)" by simp_all
  with step.hyps(2) show ?case by (induction rule: tcp_next.induct) (auto simp: talking_def)
qed simp

lemma relaying_life: "tcp_life os (s, w) (s', w') \<Longrightarrow> relaying s w \<Longrightarrow> relaying s' w'"
  using tcp_life_step [of os "(s, w)" "(s', w')"] talking_steps [of _ "tcp_conf (sess s)" "tcp_conf (sess s')"]
  by (auto simp: relaying_def tcp_moves_def tcp_conf_def)

text \<open>After forwarding: an acknowledgement, and the number of the app's FIN once its queue is empty.\<close>

lemma tcp_ack_forwarded_mute:
  assumes "tcp_ack_forwarded os fwd s w = (s', w')"
  shows "socket s' = socket s \<and> (\<exists>u. mute u w (sess s') w' \<and>
    (u = sess s \<or> fwd \<and> forward (sess s) = [] \<and> t_state (sess s) = TCP_CLOSE_WAIT \<and>
      u = (sess s)\<lparr>remote_seq := remote_seq (sess s) + 1\<rparr>))"
proof -
  obtain win v where win: "get_receive_window os s w = (win, v)" by force
  define fin where "fin = (fwd \<and> forward (sess s) = [] \<and> t_state (sess s) = TCP_CLOSE_WAIT)"
  let ?u = "if fin then (sess s)\<lparr>remote_seq := remote_seq (sess s) + 1\<rparr> else sess s"
  let ?t = "if fin then (sess s)\<lparr>recv_window := win, remote_seq := remote_seq (sess s) + 1\<rparr>
    else (sess s)\<lparr>recv_window := win\<rparr>"
  obtain r t x where a: "write_ack os ?t v = (r, t, x)" by (metis prod_cases3)
  obtain now y where y: "sys_time os x = (now, y)" by force
  have 1: "mute u w (u\<lparr>recv_window := win\<rparr>) v" for u
    using mute_trans [OF mute_io [OF hushed_buffers(2) [OF win]] mute_same] by simp
  have tu: "?t = ?u\<lparr>recv_window := win\<rparr>" by simp
  show ?thesis
  proof (cases "fwd \<or> recv_window (sess s) = 0 \<and> win > 0")
    case False
    then have "s' = s\<lparr>sess := (sess s)\<lparr>recv_window := win\<rparr>\<rparr>" "w' = v"
      using assms win by (auto simp: tcp_ack_forwarded_def Let_def)
    then show ?thesis using 1 by auto
  next
    case True
    have 2: "mute ?u w t x" by (rule mute_trans [OF 1 [of ?u, folded tu] writers_mute(1) [OF a]])
    have "mute ?u w (t\<lparr>t_time := now\<rparr>) y"
      using mute_trans [OF 2 mute_trans [OF mute_io [OF hushed_sys(1) [OF y]] mute_same]] by simp
    moreover have "socket s' = socket s \<and> (sess s' = t\<lparr>t_time := now\<rparr> \<and> w' = y \<or> sess s' = t \<and> w' = x)"
      using assms win True a y by (auto simp: tcp_ack_forwarded_def Let_def fin_def split: if_splits)
    ultimately have "socket s' = socket s \<and> mute ?u w (sess s') w'" using 2 by auto
    then show ?thesis by (cases fin) (auto simp: fin_def)
  qed
qed

text \<open>For such a session a packet only sets the name of the host before it is handled.\<close>

lemma tcp_packet_in_found:
  assumes "talking (proxied_port (t_dest (sess s))) (connect_sent (sess s))"
  shows "\<exists>name. tcp_packet_in os hostname pkt off datalen h s w =
    tcp_found os pkt off datalen h (s\<lparr>sess := (sess s)\<lparr>t_hostname := name\<rparr>\<rparr>) w"
proof (cases "proxied_port (t_dest (sess s))")
  case False
  then show ?thesis by (intro exI [of _ "t_hostname (sess s)"]) (simp add: tcp_packet_in_def)
next
  case True
  then have "connect_sent (sess s) = TCP_CONNECT_ESTABLISHED" using assms by (simp add: talking_def)
  then show ?thesis using True
    by (intro exI [of _ "if hostname = [] then lookup_hostname (t_daddr (sess s)) else hostname"])
       (simp add: tcp_packet_in_def send_connect_def Let_def)
qed

section \<open>What a history has to satisfy\<close>

text \<open>The history grows by the effects of an operation.\<close>

definition grows :: "(effect list \<Rightarrow> tcp_session \<Rightarrow> bool) \<Rightarrow> effect list \<Rightarrow> io \<Rightarrow> tcp_session \<Rightarrow> io \<Rightarrow> bool" where
  "grows J es w t w' \<longleftrightarrow> (\<exists>es'. trace w' = trace w @ es' \<and> J (es @ es') t)"

lemma growsI: "trace w' = trace w @ es' \<Longrightarrow> J (es @ es') t \<Longrightarrow> grows J es w t w'"
  by (auto simp: grows_def)

lemma grows_refl: "J es t \<Longrightarrow> grows J es w t w"
  by (auto simp: grows_def)

lemma grows_then:
  assumes "grows J es w t v" "\<And>es. J es t \<Longrightarrow> grows J es v t' w'"
  shows "grows J es w t' w'"
proof -
  obtain es1 where 1: "trace v = trace w @ es1" "J (es @ es1) t" using assms(1) by (auto simp: grows_def)
  obtain es2 where "trace w' = trace v @ es2" "J ((es @ es1) @ es2) t'"
    using assms(2) [OF 1(2)] by (auto simp: grows_def)
  then show ?thesis using 1 by (intro growsI [of _ _ "es1 @ es2"]) simp_all
qed

locale relay_history =
  fixes J :: "effect list \<Rightarrow> tcp_session \<Rightarrow> bool" and P :: "u32 \<Rightarrow> byte list \<Rightarrow> bool" and fd :: int
  assumes quiet: "J es t \<Longrightarrow> same_stream t t' \<Longrightarrow> list_all quiet_effect es' \<Longrightarrow> J (es @ es') t'"
    and queued: "J es t \<Longrightarrow> P seq d \<Longrightarrow> length d < 65536 \<Longrightarrow> t_state t \<in> {TCP_SYN_RECV, TCP_ESTABLISHED} \<Longrightarrow>
      J es (queue_tcp seq psh t d)"
    and forwarded: "J es t \<Longrightarrow> t_dest t \<noteq> 80 \<Longrightarrow> forward_data os fd (forward t) t room False w = Some (fwd, t', w') \<Longrightarrow>
      grows J es w t' w' \<and> (fwd \<longrightarrow> forward t' = [] \<longrightarrow> t_state t' = TCP_CLOSE_WAIT \<longrightarrow>
        grows J es w (t'\<lparr>remote_seq := remote_seq t' + 1\<rparr>) w')"
    and half_closed: "J es t \<Longrightarrow> t_state t = TCP_ESTABLISHED \<Longrightarrow> forward t \<noteq> [] \<Longrightarrow> J es (t\<lparr>t_state := TCP_CLOSE_WAIT\<rparr>)"
    and fin: "J es t \<Longrightarrow> t_state t = TCP_ESTABLISHED \<and> forward t = [] \<and> st \<in> {TCP_CLOSE_WAIT, TCP_CLOSING} \<or>
      t_state t = TCP_FIN_WAIT1 \<and> st \<in> {TCP_CLOSE, TCP_CLOSING} \<Longrightarrow>
      J es (t\<lparr>remote_seq := remote_seq t + 1, t_state := st\<rparr>)"
    and eof: "J es t \<Longrightarrow> forward t = [] \<Longrightarrow>
      (t_state t, st) \<in> {(TCP_ESTABLISHED, TCP_FIN_WAIT1), (TCP_CLOSE_WAIT, TCP_LAST_ACK)} \<Longrightarrow>
      J es (t\<lparr>local_seq := local_seq t + 1, t_state := st\<rparr>)"
    and received: "J es t \<Longrightarrow> tcp_addrs t \<Longrightarrow> t_state t \<in> {TCP_ESTABLISHED, TCP_CLOSE_WAIT} \<Longrightarrow> bytes \<noteq> [] \<Longrightarrow>
      b = tcp_packet t bytes False True False False \<Longrightarrow>
      J (es @ [Sock_Recv fd (Rx_Data bytes), Tun_Write b n])
        (if n = int (length b) then t\<lparr>local_seq := local_seq t + of_nat (length bytes)\<rparr> else t\<lparr>t_state := TCP_CLOSING\<rparr>)"
begin

lemma mute_grows: "J es t \<Longrightarrow> mute t w t' w' \<Longrightarrow> tcp_addrs t \<Longrightarrow> t_state t \<noteq> TCP_LISTEN \<Longrightarrow> grows J es w t' w'"
  using quiet by (auto simp: mute_def hushed_def grows_def)

lemma same_kept: "J es t \<Longrightarrow> same_stream t t' \<Longrightarrow> J es t'"
  using quiet [of es t t' "[]"] by simp

lemma hushed_grows: "J es t \<Longrightarrow> hushed w w' \<Longrightarrow> grows J es w t w'"
  using quiet [OF _ same_stream_refl] by (auto simp: hushed_def grows_def)

lemma grows_mute: "grows J es w t v \<Longrightarrow> mute t v t' w' \<Longrightarrow> tcp_addrs t \<Longrightarrow> t_state t \<noteq> TCP_LISTEN \<Longrightarrow> grows J es w t' w'"
  by (rule grows_then) (auto intro: mute_grows)

lemma tcp_fin_grows:
  assumes "tcp_fin os t w = (t', w')" "J es t" "tcp_addrs t"
  shows "grows J es w t' w'"
proof -
  let ?t = "t\<lparr>remote_seq := remote_seq t + 1\<rparr>"
  obtain r u v where a: "write_ack os ?t w = (r, u, v)" by (metis prod_cases3)
  have u: "r = 0 \<and> u = ?t \<or> r = - 1 \<and> u = ?t\<lparr>t_state := TCP_CLOSING\<rparr>" using writer_wrote(2) [OF a] by (simp add: wrote_def)
  have h: "hushed w v" if "t_state t \<noteq> TCP_LISTEN"
    using writers_mute(1) [OF a] assms(3) that by (simp add: mute_def tcp_addrs_def)
  consider (empty) "t_state t = TCP_ESTABLISHED" "forward t = []" | (queue) "t_state t = TCP_ESTABLISHED" "forward t \<noteq> []"
    | (last) "t_state t = TCP_FIN_WAIT1" | (other) "t_state t \<noteq> TCP_ESTABLISHED" "t_state t \<noteq> TCP_FIN_WAIT1" by blast
  then show ?thesis
  proof cases
    case empty
    then have "t' = t\<lparr>remote_seq := remote_seq t + 1, t_state := if r \<ge> 0 then TCP_CLOSE_WAIT else TCP_CLOSING\<rparr>" "w' = v"
      using assms(1) a u by (auto simp: tcp_fin_def)
    then show ?thesis using hushed_grows [OF fin h] assms(2) empty by simp
  next
    case queue
    then show ?thesis using assms half_closed by (auto simp: tcp_fin_def intro: grows_refl)
  next
    case last
    then have "t' = t\<lparr>remote_seq := remote_seq t + 1, t_state := if r \<ge> 0 then TCP_CLOSE else TCP_CLOSING\<rparr>" "w' = v"
      using assms(1) a u by (auto simp: tcp_fin_def)
    then show ?thesis using hushed_grows [OF fin h] assms(2) last by simp
  next
    case other
    then show ?thesis using assms(1,2) by (auto simp: tcp_fin_def intro: grows_refl split: if_splits)
  qed
qed

lemma tcp_flags_in_grows:
  assumes "tcp_flags_in os h s w = (s', w')" "J es (sess s)" "tcp_addrs (sess s)" "t_state (sess s) \<noteq> TCP_LISTEN"
  shows "grows J es w (sess s') w' \<and> socket s' = socket s"
  using assms tcp_fin_grows [OF _ assms(2,3)] mute_grows [OF assms(2) _ assms(3,4)] tcp_other_ack_mute tcp_acknowledge_mute
  by (auto simp: tcp_flags_in_def grows_refl mute_same split: if_splits prod.splits)

lemma queue_packet_kept:
  assumes "queue_packet pkt off datalen h t = Some t'" "J es t" "t_state t \<in> {TCP_SYN_RECV, TCP_ESTABLISHED}"
    "P (th_seq h) (take (unat datalen) (drop off pkt))"
  shows "J es t'"
proof (cases "off + unat datalen > length pkt")
  case True
  then have "t' = t" using assms(1) by (auto simp: queue_packet_def queue_tcp_def Let_def split: if_splits)
  then show ?thesis using assms(2) by simp
next
  case False
  then have "t' = queue_tcp (th_seq h) (th_psh h) t (take (unat datalen) (drop off pkt))"
    using assms(1) by (auto simp: queue_packet_def Let_def)
  moreover have "length (take (unat datalen) (drop off pkt)) < 65536"
    using unat_u16_less [of datalen] by (simp add: min_less_iff_disj)
  ultimately show ?thesis using queued [OF assms(2,4)] assms(3) by simp
qed

lemma tcp_found_grows:
  assumes "tcp_found os pkt off datalen h s w = Some (s', w')" "J es (sess s)" "relaying s w"
    "P (th_seq h) (take (unat datalen) (drop off pkt))"
  shows "grows J es w (sess s') w' \<and> socket s' = socket s"
proof -
  have g: "tcp_addrs (sess s)" "t_state (sess s) \<noteq> TCP_LISTEN" "socket_state (t_state (sess s)) (socket s)"
    using assms(3) by (simp_all add: relaying_def tcp_good_def tcp_wf_def)
  show ?thesis
  proof (cases "closing_state (t_state (sess s))")
    case True
    then show ?thesis
      using assms(1) mute_grows [OF assms(2) _ g(1,2)] by (auto simp: tcp_found_def split: prod.splits dest!: muting)
  next
    case False
    obtain now v where n: "sys_time os w = (now, v)" by force
    let ?t = "(sess s)\<lparr>t_time := now,
      send_window := push_bit (unat (send_scale (sess s))) (ucast (th_window h))\<rparr>"
    have t: "J es ?t" "tcp_addrs ?t" "t_state ?t \<noteq> TCP_LISTEN" using same_kept [OF assms(2)] g by (simp_all add: tcp_addrs_def)
    have v: "J es t \<Longrightarrow> grows J es w t v" for t using hushed_grows hushed_sys(1) [OF n] by blast
    show ?thesis
    proof (cases "datalen \<noteq> 0 \<and> (socket s < 0 \<or> t_state (sess s) = TCP_CLOSE_WAIT)")
      case True
      then obtain u x where "write_rst os ?t v = (u, x)" "s' = s\<lparr>sess := u\<rparr>" "w' = x"
        using assms(1) False n by (auto simp: tcp_found_def Let_def split: if_splits prod.splits)
      then show ?thesis using grows_mute [OF v [OF t(1)] _ t(2,3)] muting by auto
    next
      case acc: False
      obtain u where u: "(if datalen \<noteq> 0 then queue_packet pkt off datalen h ?t else Some ?t) = Some u"
        and f: "tcp_flags_in os h (s\<lparr>sess := u\<rparr>) v = (s', w')"
        using assms(1) False n acc by (auto simp: tcp_found_def Let_def bind_eq_Some_conv split: if_splits)
      have "t_state ?t \<in> {TCP_SYN_RECV, TCP_ESTABLISHED}" if "datalen \<noteq> 0"
        using that acc g False by (cases "t_state (sess s)") (auto simp: socket_state_def closing_state_def)
      then have j: "J es u" using u queue_packet_kept [OF _ t(1) _ assms(4)] t(1) by (auto split: if_splits)
      have a: "tcp_addrs u" "t_state u \<noteq> TCP_LISTEN"
        using u t(2,3) by (auto simp: queue_packet_def queue_tcp_def tcp_addrs_def Let_def split: if_splits)
      show ?thesis
        using grows_then [OF v [OF j]] tcp_flags_in_grows [OF f] a j by fastforce
    qed
  qed
qed

lemma tcp_packet_in_grows:
  assumes "tcp_packet_in os hostname pkt off datalen h s w = Some (s', w')" "J es (sess s)" "relaying s w"
    "P (th_seq h) (take (unat datalen) (drop off pkt))"
  shows "grows J es w (sess s') w' \<and> socket s' = socket s"
proof -
  obtain name where f: "tcp_found os pkt off datalen h (s\<lparr>sess := (sess s)\<lparr>t_hostname := name\<rparr>\<rparr>) w = Some (s', w')"
    using assms(1,3) tcp_packet_in_found by (metis relaying_def)
  have "J es ((sess s)\<lparr>t_hostname := name\<rparr>)" using same_kept [OF assms(2)] by simp
  moreover have "relaying (s\<lparr>sess := (sess s)\<lparr>t_hostname := name\<rparr>\<rparr>) w" using assms(3) by (simp add: relaying_def tcp_good_def)
  ultimately show ?thesis using tcp_found_grows [OF f _ _ assms(4)] by simp
qed

lemma tcp_forward_grows:
  assumes "tcp_forward os events s w = Some (fwd, s', w')" "J es (sess s)" "socket s = fd" "t_dest (sess s) \<noteq> 80"
  shows "socket s' = socket s \<and> grows J es w (sess s') w' \<and> tcp_quiet (sess s) w (sess s') w' \<and>
    (fwd \<longrightarrow> forward (sess s') = [] \<longrightarrow> t_state (sess s') = TCP_CLOSE_WAIT \<longrightarrow>
      grows J es w ((sess s')\<lparr>remote_seq := remote_seq (sess s') + 1\<rparr>) w')"
proof (cases "events AND EPOLLOUT \<noteq> 0")
  case False
  then show ?thesis using assms by (simp add: tcp_forward_def grows_refl tcp_quiet_def)
next
  case True
  obtain b v where b: "get_receive_buffer os s w = (b, v)" by force
  obtain t where f: "forward_data os fd (forward (sess s)) (sess s) (word_of_int b) False v = Some (fwd, t, w')"
    and s': "s' = s\<lparr>sess := t\<rparr>"
    using assms(1,3) True b by (auto simp: tcp_forward_def bind_Some_iff)
  have "tcp_quiet (sess s) w t w'"
    using forward_data_quiet [OF f] get_receive_buffer_frame [OF b] by (simp add: tcp_quiet_def)
  moreover have h: "grows J es w (sess s) v" by (rule hushed_grows [OF assms(2) hushed_buffers(1) [OF b]])
  ultimately show ?thesis
    using forwarded [OF _ assms(4) f] grows_then [OF h] s' by auto
qed

lemma tcp_eof_grows:
  assumes "tcp_eof os s w = (s', w')" "J es (sess s)" "tcp_addrs (sess s)"
    "t_state (sess s) \<in> {TCP_ESTABLISHED, TCP_CLOSE_WAIT}"
  shows "grows J es w (sess s') w' \<and> socket s' = - 1"
proof (cases "forward (sess s) = []")
  case False
  then obtain t v where "write_rst os (sess s) w = (t, v)" "s' = s\<lparr>sess := t, socket := - 1\<rparr>" "w' = sys_close (socket s) v"
    using assms(1) by (auto simp: tcp_eof_def split: prod.splits)
  then have "mute (sess s) w (sess s') w'"
    using mute_trans [OF writers_mute(3) mute_io] by simp
  then show ?thesis using mute_grows [OF assms(2) _ assms(3)] assms(4) \<open>s' = _\<close> by auto
next
  case True
  obtain r t v where a: "write_fin_ack os (sess s) w = (r, t, v)" by (metis prod_cases3)
  have t: "r = 0 \<and> t = sess s \<or> r = - 1 \<and> t = (sess s)\<lparr>t_state := TCP_CLOSING\<rparr>"
    using writer_wrote(4) [OF a] by (simp add: wrote_def)
  have h: "hushed w (sys_close (socket s) v)"
    using writers_mute(2) [OF a] assms(3,4) hushed_trans by (fastforce simp: mute_def)
  let ?st = "if t_state (sess s) = TCP_ESTABLISHED then TCP_FIN_WAIT1 else TCP_LAST_ACK"
  have "sess s' = (if r = 0 then (sess s)\<lparr>local_seq := local_seq (sess s) + 1, t_state := ?st\<rparr>
      else (sess s)\<lparr>t_state := TCP_CLOSING\<rparr>)" "w' = sys_close (socket s) v" "socket s' = - 1"
    using assms(1,4) True a t by (auto simp: tcp_eof_def Let_def)
  moreover have "J es (if r = 0 then (sess s)\<lparr>local_seq := local_seq (sess s) + 1, t_state := ?st\<rparr>
      else (sess s)\<lparr>t_state := TCP_CLOSING\<rparr>)"
    using eof [OF assms(2) True, of ?st] assms(2,4) same_kept by auto
  ultimately show ?thesis using hushed_grows [OF _ h] by simp
qed

lemma tcp_received_grows:
  assumes "tcp_received os s (Rx_Data bytes) w = (s', w')" "bytes \<noteq> []" "J es (sess s)" "tcp_addrs (sess s)"
    "t_state (sess s) \<in> {TCP_ESTABLISHED, TCP_CLOSE_WAIT}" "trace w = tr @ [Sock_Recv fd (Rx_Data bytes)]" "trace v = tr"
  shows "grows J es v (sess s') w' \<and> socket s' = socket s"
proof -
  let ?t = "(sess s)\<lparr>t_received := t_received (sess s) + of_nat (length bytes)\<rparr>"
  let ?b = "tcp_packet ?t bytes False True False False"
  define n where "n = fst (transfer (os_tun_write os (tick w)) (length ?b))"
  have w': "w' = step_io [Tun_Write ?b n] w" and s': "sess s' = (if n = int (length ?b) then
      ?t\<lparr>local_seq := local_seq ?t + of_nat (length bytes)\<rparr> else ?t\<lparr>t_state := TCP_CLOSING\<rparr>)" "socket s' = socket s"
    using assms(1,2) by (auto simp: tcp_received_def write_data_def write_tcp_def sys_tun_write_def n_def Let_def split: if_splits)
  have "J es ?t" using same_kept [OF assms(3)] by simp
  then have "J (es @ [Sock_Recv fd (Rx_Data bytes), Tun_Write ?b n]) (sess s')"
    unfolding s' by (rule received [OF _ _ _ assms(2) refl]) (use assms(4,5) in \<open>simp_all add: tcp_addrs_def\<close>)
  then show ?thesis using assms(6,7) s'(2) by (intro conjI growsI) (simp_all add: w')
qed

lemma tcp_read_grows:
  assumes "tcp_read os events s w = (s', w')" "J es (sess s)" "tcp_addrs (sess s)" "socket s = fd"
  shows "grows J es w (sess s') w' \<and> (socket s' = socket s \<or> socket s' = - 1)"
proof (cases "(t_state (sess s) = TCP_ESTABLISHED \<or> t_state (sess s) = TCP_CLOSE_WAIT) \<and>
    events AND EPOLLIN \<noteq> 0 \<and> get_send_window (sess s) > 0")
  case False
  then have "s' = s" "w' = w" using assms(1) by (auto simp: tcp_read_def Let_def)
  then show ?thesis using assms(2) by (simp add: grows_refl)
next
  case True
  obtain now v where n: "sys_time os w = (now, v)" by force
  let ?s = "s\<lparr>sess := (sess s)\<lparr>t_time := now\<rparr>\<rparr>"
  obtain r x where r: "sys_recv_stream fd (read_size (get_send_window (sess s)) (t_mss (sess s))) v = (r, x)" by force
  have c: "tcp_received os ?s r x = (s', w')" using assms(1,4) True n r by (simp add: tcp_read_def Let_def)
  have j: "J es (sess ?s)" "tcp_addrs (sess ?s)" "t_state (sess ?s) \<in> {TCP_ESTABLISHED, TCP_CLOSE_WAIT}"
    using same_kept [OF assms(2)] assms(3) True by (auto simp: tcp_addrs_def)
  have tr: "trace v = trace w" "trace x = trace w @ [Sock_Recv fd r]"
    using n r by (auto simp: sys_time_def sys_recv_stream_def Let_def split: prod.splits)
  show ?thesis
  proof (cases r)
    case (Rx_Err e)
    have "mute (sess ?s) x (sess s') w' \<and> socket s' = socket s"
      using c by (auto simp: Rx_Err tcp_received_def split: if_splits prod.splits dest!: muting)
    moreover have "hushed w x" using tr Rx_Err by (auto simp: hushed_def)
    ultimately show ?thesis using grows_mute [OF hushed_grows [OF j(1)]] j by auto
  next
    case (Rx_Data bytes)
    show ?thesis
    proof (cases "bytes = []")
      case True
      have "hushed w x" using tr Rx_Data True by (auto simp: hushed_def)
      moreover have "tcp_eof os ?s x = (s', w')" using c Rx_Data True by (simp add: tcp_received_def)
      ultimately show ?thesis using grows_then [OF hushed_grows [OF j(1)]] tcp_eof_grows j by metis
    next
      case False
      have "grows J es w (sess s') w' \<and> socket s' = socket ?s"
        by (rule tcp_received_grows [OF c [unfolded Rx_Data] False j]) (use tr Rx_Data in simp_all)
      then show ?thesis by simp
    qed
  qed
qed

lemma check_tcp_socket_grows:
  assumes "check_tcp_socket os events s w = Some (s', w')" "J es (sess s)" "relaying s w" "socket s = fd"
  shows "grows J es w (sess s') w' \<and> (socket s' = socket s \<or> socket s' = - 1)"
proof -
  have g: "tcp_addrs (sess s)" "t_state (sess s) \<noteq> TCP_LISTEN" "tcp_wf (sess s)" "t_dest (sess s) \<noteq> 80"
    using assms(3) by (simp_all add: relaying_def tcp_good_def tcp_wf_def)
  show ?thesis
  proof (cases "events AND EPOLLERR \<noteq> 0")
    case True
    obtain now v where n: "sys_time os w = (now, v)" by force
    obtain t x where t: "write_rst os ((sess s)\<lparr>t_time := now\<rparr>) v = (t, x)" by force
    have "mute (sess s) w t x"
      by (rule mute_trans [OF mute_io [OF hushed_sys(1) [OF n]] mute_trans [OF mute_same writers_mute(3) [OF t]]]) simp
    moreover have "s' = s\<lparr>sess := t\<rparr>" "w' = x" using assms(1) True n t by (simp_all add: check_tcp_socket_def)
    ultimately show ?thesis using mute_grows [OF assms(2) _ g(1,2)] by simp
  next
    case False
    obtain fwd s1 w1 where f: "tcp_forward os events s w = Some (fwd, s1, w1)"
      using assms(1) False g(2) by (auto simp: check_tcp_socket_def bind_eq_Some_conv)
    obtain s2 w2 where a: "tcp_ack_forwarded os fwd s1 w1 = (s2, w2)" by force
    have r: "tcp_read os events s2 w2 = (s', w')"
      using assms(1) False g(2) f a by (simp add: check_tcp_socket_def)
    note F = tcp_forward_grows [OF f assms(2,4) g(4)]
    then have k: "tcp_wf (sess s1)" "t_state (sess s1) \<noteq> TCP_LISTEN" using g by (auto simp: tcp_quiet_def)
    obtain u where u: "mute u w1 (sess s2) w2" "socket s2 = socket s1"
      "u = sess s1 \<or> fwd \<and> forward (sess s1) = [] \<and> t_state (sess s1) = TCP_CLOSE_WAIT \<and>
        u = (sess s1)\<lparr>remote_seq := remote_seq (sess s1) + 1\<rparr>"
      using tcp_ack_forwarded_mute [OF a] by blast
    have ua: "tcp_addrs u" "t_state u \<noteq> TCP_LISTEN" using u(3) k by (auto simp: tcp_wf_def tcp_addrs_def)
    have "grows J es w u w1" using u(3) F by auto
    from grows_mute [OF this u(1) ua] have 2: "grows J es w (sess s2) w2" .
    have "tcp_addrs (sess s2)" using u(1) ua by (simp add: mute_def same_stream_def)
    moreover have "socket s2 = fd" using F u(2) assms(4) by simp
    moreover obtain es2 where "J es2 (sess s2)" using 2 by (auto simp: grows_def)
    ultimately show ?thesis
      using grows_then [OF 2] tcp_read_grows [OF r] assms(4) by metis
  qed
qed

lemma tcp_act_grows:
  assumes "tcp_act os P (s, w) (s', w')" "J es (sess s)" "relaying s w" "socket s = fd \<or> socket s = - 1"
  shows "grows J es w (sess s') w' \<and> (socket s' = fd \<or> socket s' = - 1)"
proof -
  have g: "tcp_addrs (sess s)" "t_state (sess s) \<noteq> TCP_LISTEN"
    using assms(3) by (simp_all add: relaying_def tcp_good_def tcp_wf_def)
  from assms(1) show ?thesis
  proof cases
    case (packet hostname pkt off datalen h)
    then show ?thesis using tcp_packet_in_grows [OF packet(1) assms(2,3)] assms(4) by simp
  next
    case (event events)
    then show ?thesis using check_tcp_socket_grows [OF event(2) assms(2,3)] assms(4) by auto
  next
    case (monitored recheck)
    then show ?thesis using mute_grows [OF assms(2) _ g] monitor_tcp_session_mute [OF monitored(2)] assms(4) by simp
  next
    case (checked n m del)
    then show ?thesis using mute_grows [OF assms(2) _ g] check_tcp_session_mute [OF checked] assms(4) by auto
  qed
qed

lemma tcp_relay_kept:
  assumes "tcp_relay os P (s, w) es (s', w')" "J [] (sess s)" "relaying s w" "socket s = fd \<or> socket s = - 1"
  shows "J es (sess s') \<and> relaying s' w' \<and> (socket s' = fd \<or> socket s' = - 1)"
proof -
  have "J es (sess (fst y)) \<and> relaying (fst y) (snd y) \<and> (socket (fst y) = fd \<or> socket (fst y) = - 1)"
    if "tcp_relay os P x es y" "x = (s, w)" for x y
    using that
  proof (induction rule: tcp_relay.induct)
    case start
    then show ?case using assms(2-4) by simp
  next
    case (act es s1 w1 s2 w2 es')
    then have "J es (sess s1)" "relaying s1 w1" "socket s1 = fd \<or> socket s1 = - 1" by auto
    from tcp_act_grows [OF act.hyps(2) this] show ?case
      using relaying_life [OF tcp_act_life [OF act.hyps(2)]] \<open>relaying s1 w1\<close> act.hyps(3) by (auto simp: grows_def)
  next
    case (others es s1 w1 w2)
    then show ?case by (simp add: relaying_def tcp_good_def)
  qed
  then show ?thesis using assms(1) by fastforce
qed

end

end
