(* ===== verification/Tcp_Stream.thy ===== *)
theory Tcp_Stream
  imports Tcp_Relay
begin

text \<open>
  The stream of the app and the stream of the server, as three properties of the history of a session:
  the socket gets a prefix of what the app sends, the app gets in order what the socket receives, and a segment
  that overlaps what has been forwarded stops the session.
\<close>

section \<open>Stretches of a stream\<close>

text \<open>A stream gives the byte at each sequence number; so it is shorter than 4 GiB.\<close>

definition stretch :: "(u32 \<Rightarrow> byte) \<Rightarrow> u32 \<Rightarrow> nat \<Rightarrow> byte list" where
  "stretch B a n = map (\<lambda>i. B (a + of_nat i)) [0..<n]"

definition carries :: "(u32 \<Rightarrow> byte) \<Rightarrow> u32 \<Rightarrow> byte list \<Rightarrow> bool" where
  "carries B seq d \<longleftrightarrow> d = stretch B seq (length d)"

lemma length_stretch [simp]: "length (stretch B a n) = n"
  by (simp add: stretch_def)

lemma stretch_0 [simp]: "stretch B a 0 = []"
  by (simp add: stretch_def)

lemma stretch_add: "stretch B a (m + n) = stretch B a m @ stretch B (a + of_nat m) n"
  by (rule nth_equalityI) (auto simp: stretch_def nth_append algebra_simps of_nat_diff simp flip: of_nat_add)

lemma drop_stretch: "k \<le> n \<Longrightarrow> drop k (stretch B a n) = stretch B (a + of_nat k) (n - k)"
  using stretch_add [of B a k "n - k"] by simp

lemma take_stretch: "k \<le> n \<Longrightarrow> take k (stretch B a n) = stretch B a k"
  using stretch_add [of B a k "n - k"] by simp

text \<open>A part of a segment is the part of the stream that its numbers name.\<close>

lemma carries_part:
  assumes "carries B seq d" "k + n \<le> length d"
  shows "take n (drop k d) = stretch B (seq + of_nat k) n"
proof -
  have "take n (drop k d) = take n (drop k (stretch B seq (length d)))" using assms(1) by (simp add: carries_def)
  then show ?thesis using assms(2) by (simp add: drop_stretch take_stretch)
qed

section \<open>The queue\<close>

definition queue_holds :: "(u32 \<Rightarrow> byte list \<Rightarrow> bool) \<Rightarrow> segment list \<Rightarrow> bool" where
  "queue_holds P ss \<longleftrightarrow> (\<forall>q \<in> set ss. segment_wf q \<and> P (seg_seq q) (seg_data q))"

lemma queue_holds_simps [simp]:
  "queue_holds P []" "queue_holds P (q # qs) \<longleftrightarrow> segment_wf q \<and> P (seg_seq q) (seg_data q) \<and> queue_holds P qs"
  by (simp_all add: queue_holds_def)

lemma queue_insert_holds:
  assumes "P seq d" "length d < 65536"
  shows "queue_holds P ss \<Longrightarrow> queue_holds P (queue_insert seq d psh ss)"
proof (induction ss)
  case Nil
  then show ?case using assms by (simp add: segment_wf_def of_nat_u16)
next
  case (Cons s ss)
  have "unat (of_nat (length d) :: u16) = length d" using assms(2) by (simp add: of_nat_u16)
  with Cons assms show ?case by (auto simp: segment_wf_def)
qed

lemma queue_tcp_holds:
  "P seq d \<Longrightarrow> length d < 65536 \<Longrightarrow> queue_holds P (forward t) \<Longrightarrow> queue_holds P (forward (queue_tcp seq psh t d))"
  by (simp add: queue_tcp_def queue_insert_holds)

text \<open>Forwarding in terms of history and session: nothing but sends, and what was sent is the next part of every
  stream that the segments carry.\<close>

fun only_sends :: "effect \<Rightarrow> bool" where
  "only_sends (Sock_Send fd b m r) = True"
| "only_sends _ = False"

lemma forward_data_history:
  assumes "forward_data os fd ss t room fwd w = Some (fwd', t', w')" "queue_holds P ss" "t_dest t \<noteq> 80"
  shows "\<exists>es. trace w' = trace w @ es \<and> list_all only_sends es \<and> queue_holds P (forward t') \<and>
    local_seq t' = local_seq t \<and> t_state t' = t_state t \<and> (fwd' \<longrightarrow> fwd \<or> ss \<noteq> []) \<and>
    (\<forall>B. list_all send_ok es \<longrightarrow> (\<forall>s d. P s d \<longrightarrow> carries B s d) \<longrightarrow>
      sent_on fd es = stretch B (remote_seq t) (length (sent_on fd es)) \<and>
      remote_seq t' = remote_seq t + of_nat (length (sent_on fd es)))"
  using assms
proof (induction ss arbitrary: t room fwd w)
  case Nil
  then show ?case by auto
next
  case (Cons q qs)
  show ?case
  proof (cases "head_ready (t\<lparr>forward := q # qs\<rparr>) room")
    case False
    then have "fwd' = fwd" "t' = t\<lparr>forward := q # qs\<rparr>" "w' = w" using Cons.prems(1) by auto
    then show ?thesis using Cons.prems(2) by auto
  next
    case True
    let ?d = "drop (unat (seg_sent q)) (seg_data q)"
    have wf: "segment_wf q" using Cons.prems(2) by simp
    obtain r v n where
      v: "trace v = trace w @ [Sock_Send fd ?d (\<not> seg_psh q) r]" and
      n: "n \<le> unat (seg_len q) - unat (seg_sent q)" "0 \<le> r \<longrightarrow> n = nat r" and
      f: "forward_data os fd (q # qs) t room fwd w =
       (let q' = q\<lparr>seg_sent := seg_sent q + of_nat n\<rparr>;
            t' = t\<lparr>t_sent := t_sent t + of_nat n, remote_seq := seg_seq q + ucast (seg_sent q')\<rparr>
        in if n = unat (seg_len q) - unat (seg_sent q)
           then forward_data os fd qs t' (room - of_nat n) True v
           else Some (True, t'\<lparr>forward := q' # qs\<rparr>, v))"
      by (rule forward_data_turn [OF wf Cons.prems(3) True, where os = os and fd = fd and fwd = fwd and w = w])
    let ?q = "q\<lparr>seg_sent := seg_sent q + of_nat n\<rparr>" and ?e = "Sock_Send fd ?d (\<not> seg_psh q) r"
    let ?t = "t\<lparr>t_sent := t_sent t + of_nat n, remote_seq := seg_seq q + ucast (seg_sent ?q)\<rparr>"
    note adv = segment_advance [OF wf n(1)]
    have rs: "remote_seq t = seg_seq q + ucast (seg_sent q)" using True by (simp add: head_ready_def)
    then have rt: "remote_seq ?t = remote_seq t + of_nat n" using adv(3) by simp
    have len: "unat (seg_sent q) + n \<le> length (seg_data q)"
      using wf n(1) unfolding segment_wf_def word_le_nat_alt by linarith
    have tk: "taken fd ?e = stretch B (remote_seq t) n" if "send_ok ?e" "carries B (seg_seq q) (seg_data q)" for B
      using carries_part [OF that(2) len] n(2) that(1) rs by (simp add: unsigned_ucast_eq)
    show ?thesis
    proof (cases "n = unat (seg_len q) - unat (seg_sent q)")
      case False
      then have "fwd' = True" "t' = ?t\<lparr>forward := ?q # qs\<rparr>" "w' = v" using Cons.prems(1) f by (auto simp: Let_def)
      moreover have "sent_on fd [?e] = stretch B (remote_seq t) (length (sent_on fd [?e])) \<and>
          remote_seq ?t = remote_seq t + of_nat (length (sent_on fd [?e]))"
        if "list_all send_ok [?e]" "\<forall>s d. P s d \<longrightarrow> carries B s d" for B
      proof -
        have t: "taken fd ?e = stretch B (remote_seq t) n" using tk [of B] that Cons.prems(2) by simp
        show ?thesis unfolding sent_on_simps t rt by simp
      qed
      moreover have "queue_holds P (?q # qs)" using adv(2) Cons.prems(2) by simp
      ultimately show ?thesis using v by (intro exI [of _ "[?e]"]) (simp del: sent_on_simps)
    next
      case True
      then have g: "forward_data os fd qs ?t (room - of_nat n) True v = Some (fwd', t', w')"
        using Cons.prems(1) f by (simp add: Let_def)
      obtain es where es: "trace w' = trace v @ es" "list_all only_sends es" "queue_holds P (forward t')"
        "local_seq t' = local_seq t" "t_state t' = t_state t"
        "\<And>B. list_all send_ok es \<Longrightarrow> (\<forall>s d. P s d \<longrightarrow> carries B s d) \<Longrightarrow>
          sent_on fd es = stretch B (remote_seq ?t) (length (sent_on fd es)) \<and>
          remote_seq t' = remote_seq ?t + of_nat (length (sent_on fd es))"
        using Cons.IH [OF g] Cons.prems(2,3) by auto
      have "sent_on fd (?e # es) = stretch B (remote_seq t) (length (sent_on fd (?e # es))) \<and>
          remote_seq t' = remote_seq t + of_nat (length (sent_on fd (?e # es)))"
        if "list_all send_ok (?e # es)" "\<forall>s d. P s d \<longrightarrow> carries B s d" for B
      proof -
        have t: "taken fd ?e = stretch B (remote_seq t) n" using tk [of B] that Cons.prems(2) by simp
        show ?thesis
          using es(6) [of B] that unfolding sent_on_simps t rt
          by (simp add: stretch_add algebra_simps)
      qed
      then show ?thesis using v es by (intro exI [of _ "?e # es"]) auto
    qed
  qed
qed

section \<open>From the app to the socket\<close>

text \<open>The app's FIN has taken a number of its own, which happens when nothing is queued any more.\<close>

definition fin_counted :: "tcp_session \<Rightarrow> bool" where
  "fin_counted t \<longleftrightarrow> forward t = [] \<and> t_state t \<in> {TCP_CLOSE_WAIT, TCP_LAST_ACK, TCP_CLOSING, TCP_CLOSE}"

definition upload :: "(u32 \<Rightarrow> byte) \<Rightarrow> u32 \<Rightarrow> int \<Rightarrow> effect list \<Rightarrow> tcp_session \<Rightarrow> bool" where
  "upload B a fd es t \<longleftrightarrow> queue_holds (carries B) (forward t) \<and> (t_state t = TCP_FIN_WAIT1 \<longrightarrow> forward t = []) \<and>
     (list_all send_ok es \<longrightarrow>
        sent_on fd es = stretch B a (length (sent_on fd es)) \<and>
        (remote_seq t = a + of_nat (length (sent_on fd es)) \<or>
         fin_counted t \<and> remote_seq t = a + of_nat (length (sent_on fd es)) + 1))"

lemma sent_on_append [simp]: "sent_on fd (es @ es') = sent_on fd es @ sent_on fd es'"
  by (simp add: sent_on_def)

lemma quiet_no_send: "list_all quiet_effect es \<Longrightarrow> list_all send_ok es \<and> sent_on fd es = []"
proof (induction es)
  case (Cons e es)
  then show ?case by (cases e) simp_all
qed simp

lemma fin_counted_kept: "same_stream t t' \<Longrightarrow> fin_counted t \<Longrightarrow> fin_counted t'"
  by (auto simp: same_stream_def fin_counted_def state_kept_def closing_state_def)

lemma upload_kept: "upload B a fd es t \<Longrightarrow> same_stream t t' \<Longrightarrow> list_all quiet_effect es' \<Longrightarrow> upload B a fd (es @ es') t'"
  using quiet_no_send [of es' fd] fin_counted_kept [of t t']
  by (auto simp: upload_def same_stream_def state_kept_def closing_state_def)

lemma upload_forwarded:
  assumes "upload B a fd es t" "t_dest t \<noteq> 80" "forward_data os fd (forward t) t room False w = Some (fwd, t', w')"
  shows "grows (upload B a fd) es w t' w' \<and> (fwd \<longrightarrow> forward t' = [] \<longrightarrow> t_state t' = TCP_CLOSE_WAIT \<longrightarrow>
    grows (upload B a fd) es w (t'\<lparr>remote_seq := remote_seq t' + 1\<rparr>) w')"
proof -
  have h: "queue_holds (carries B) (forward t)" using assms(1) by (simp add: upload_def)
  obtain es' where e: "trace w' = trace w @ es'" "queue_holds (carries B) (forward t')" "t_state t' = t_state t"
    "fwd \<longrightarrow> forward t \<noteq> []"
    "list_all send_ok es' \<Longrightarrow> sent_on fd es' = stretch B (remote_seq t) (length (sent_on fd es')) \<and>
      remote_seq t' = remote_seq t + of_nat (length (sent_on fd es'))"
    using forward_data_history [OF assms(3) h assms(2)] by auto
  have n: "forward t = [] \<Longrightarrow> t' = t \<and> w' = w" using assms(3) by auto
  show ?thesis
  proof (cases "forward t = []")
    case True
    then show ?thesis using n e(4) assms(1) by (simp add: grows_refl)
  next
    case False
    let ?k = "length (sent_on fd es)"
    have r: "sent_on fd (es @ es') = stretch B a (length (sent_on fd (es @ es'))) \<and>
        remote_seq t' = a + of_nat (length (sent_on fd (es @ es')))" if "list_all send_ok (es @ es')"
    proof -
      have 1: "sent_on fd es = stretch B a ?k" "remote_seq t = a + of_nat ?k"
        using assms(1) that False by (auto simp: upload_def fin_counted_def)
      have 2: "sent_on fd es' = stretch B (a + of_nat ?k) (length (sent_on fd es'))"
        "remote_seq t' = a + of_nat ?k + of_nat (length (sent_on fd es'))"
        using e(5) that 1(2) by simp_all
      show ?thesis using 1(1) 2 by (simp add: stretch_add algebra_simps)
    qed
    have f: "t_state t' = TCP_FIN_WAIT1 \<longrightarrow> forward t' = []" using assms(1) False e(3) by (simp add: upload_def)
    have "upload B a fd (es @ es') t'" using r e(2) f by (auto simp: upload_def)
    moreover have "upload B a fd (es @ es') (t'\<lparr>remote_seq := remote_seq t' + 1\<rparr>)"
      if "forward t' = []" "t_state t' = TCP_CLOSE_WAIT"
      using r that by (auto simp: upload_def fin_counted_def)
    ultimately show ?thesis using growsI [of w' w es' _ es] e(1) by blast
  qed
qed

interpretation uploads: relay_history "upload B a fd" "carries B" fd for B a fd
proof
  fix es t t' es'
  show "upload B a fd es t \<Longrightarrow> same_stream t t' \<Longrightarrow> list_all quiet_effect es' \<Longrightarrow> upload B a fd (es @ es') t'"
    by (rule upload_kept)
next
  fix es t seq d psh assume "upload B a fd es t" "carries B seq d" "length d < 65536" "t_state t \<in> {TCP_SYN_RECV, TCP_ESTABLISHED}"
  then show "upload B a fd es (queue_tcp seq psh t d)"
    using queue_tcp_holds [of "carries B" seq d t psh] by (auto simp: upload_def fin_counted_def queue_tcp_def split: if_splits)
next
  fix es t os room w fwd t' w' assume "upload B a fd es t" "t_dest t \<noteq> 80"
    "forward_data os fd (forward t) t room False w = Some (fwd, t', w')"
  then show "grows (upload B a fd) es w t' w' \<and> (fwd \<longrightarrow> forward t' = [] \<longrightarrow> t_state t' = TCP_CLOSE_WAIT \<longrightarrow>
      grows (upload B a fd) es w (t'\<lparr>remote_seq := remote_seq t' + 1\<rparr>) w')"
    by (rule upload_forwarded)
next
  fix es t bytes b n assume "upload B a fd es t" "t_state t \<in> {TCP_ESTABLISHED, TCP_CLOSE_WAIT}"
  then show "upload B a fd (es @ [Sock_Recv fd (Rx_Data bytes), Tun_Write b n])
      (if n = int (length b) then t\<lparr>local_seq := local_seq t + of_nat (length bytes)\<rparr> else t\<lparr>t_state := TCP_CLOSING\<rparr>)"
    by (auto simp: upload_def fin_counted_def)
qed (auto simp: upload_def fin_counted_def)

section \<open>From the server to the app\<close>

definition received_on :: "int \<Rightarrow> effect list \<Rightarrow> byte list" where
  "received_on fd es = concat (map (\<lambda>e. case e of Sock_Recv f (Rx_Data bs) \<Rightarrow> if f = fd then bs else [] | _ \<Rightarrow> []) es)"

definition app_data :: "effect list \<Rightarrow> (u32 \<times> byte list) list" where
  "app_data es = concat (map app_gets es)"

definition data_of :: "(u32 \<times> byte list) list \<Rightarrow> byte list" where
  "data_of g = concat (map snd g)"

text \<open>Each piece starts at the number where the one before it ends.\<close>

fun in_order :: "u32 \<Rightarrow> (u32 \<times> byte list) list \<Rightarrow> bool" where
  "in_order a [] = True"
| "in_order a ((q, d) # g) = (q = a \<and> in_order (a + of_nat (length d)) g)"

lemma download_simps [simp]:
  "received_on fd [] = []" "received_on fd (es @ es') = received_on fd es @ received_on fd es'"
  "received_on fd (Sock_Recv f (Rx_Data bs) # es) = (if f = fd then bs else []) @ received_on fd es"
  "received_on fd (Tun_Write b n # es) = received_on fd es"
  "app_data [] = []" "app_data (es @ es') = app_data es @ app_data es'" "app_data (e # es) = app_gets e @ app_data es"
  "data_of [] = []" "data_of (g @ h) = data_of g @ data_of h" "data_of ((q, d) # g) = d @ data_of g"
  by (simp_all add: received_on_def app_data_def data_of_def)

lemma in_order_append: "in_order a (g @ h) \<longleftrightarrow> in_order a g \<and> in_order (a + of_nat (length (data_of g))) h"
  by (induction a g rule: in_order.induct) (auto simp: algebra_simps)

lemma received_on_Cons: "received_on fd (e # es) = received_on fd [e] @ received_on fd es"
  using download_simps(2) [of fd "[e]" es] by simp

lemma quiet_no_data: "list_all quiet_effect es \<Longrightarrow> received_on fd es = [] \<and> app_data es = []"
proof (induction es)
  case (Cons e es)
  then have "quiet_effect e" by simp
  then have "received_on fd [e] = [] \<and> app_gets e = []"
    by (cases e rule: quiet_effect.cases) (auto simp: received_on_def split: if_splits)
  then show ?case using Cons received_on_Cons [of fd e es] by simp
qed simp

lemma sends_no_data: "list_all only_sends es \<Longrightarrow> received_on fd es = [] \<and> app_data es = []"
proof (induction es)
  case (Cons e es)
  then have "received_on fd [e] = [] \<and> app_gets e = []" by (cases e) (auto simp: received_on_def)
  then show ?case using Cons received_on_Cons [of fd e es] by simp
qed simp

text \<open>What the app has got is in order and is what the socket has received, but for a piece that could not be
  written, after which the session is closing. The FIN to the app takes one number.\<close>

definition download :: "u32 \<Rightarrow> int \<Rightarrow> effect list \<Rightarrow> tcp_session \<Rightarrow> bool" where
  "download a fd es t \<longleftrightarrow> queue_holds (\<lambda>_ _. True) (forward t) \<and> in_order a (app_data es) \<and>
     (\<exists>lost. received_on fd es = data_of (app_data es) @ lost \<and> (lost = [] \<or> closing_state (t_state t))) \<and>
     (local_seq t = a + of_nat (length (data_of (app_data es))) \<or>
      t_state t \<in> {TCP_FIN_WAIT1, TCP_LAST_ACK, TCP_CLOSING, TCP_CLOSE} \<and>
        local_seq t = a + of_nat (length (data_of (app_data es))) + 1)"

lemma download_kept:
  assumes "download a fd es t" "same_stream t t'" "list_all quiet_effect es'"
  shows "download a fd (es @ es') t'"
proof -
  have e: "received_on fd (es @ es') = received_on fd es" "app_data (es @ es') = app_data es"
    using quiet_no_data [OF assms(3), of fd] by simp_all
  have s: "forward t' = forward t" "local_seq t' = local_seq t" "closing_state (t_state t) \<longrightarrow> closing_state (t_state t')"
    "t_state t \<in> {TCP_FIN_WAIT1, TCP_LAST_ACK, TCP_CLOSING, TCP_CLOSE} \<longrightarrow>
     t_state t' \<in> {TCP_FIN_WAIT1, TCP_LAST_ACK, TCP_CLOSING, TCP_CLOSE}"
    using assms(2) by (auto simp: same_stream_def state_kept_def closing_state_def)
  show ?thesis using assms(1) s(3,4) unfolding download_def e s(1,2) by blast
qed

lemma download_received:
  assumes "download a fd es t" "tcp_addrs t" "t_state t \<in> {TCP_ESTABLISHED, TCP_CLOSE_WAIT}" "bytes \<noteq> []"
    "b = tcp_packet t bytes False True False False"
  shows "download a fd (es @ [Sock_Recv fd (Rx_Data bytes), Tun_Write b n])
    (if n = int (length b) then t\<lparr>local_seq := local_seq t + of_nat (length bytes)\<rparr> else t\<lparr>t_state := TCP_CLOSING\<rparr>)"
proof -
  let ?e = "[Sock_Recv fd (Rx_Data bytes), Tun_Write b n]" and ?g = "app_data es"
  obtain lost where l: "received_on fd es = data_of ?g @ lost" "lost = [] \<or> closing_state (t_state t)"
    using assms(1) by (auto simp: download_def)
  have s: "in_order a ?g" "local_seq t = a + of_nat (length (data_of ?g))" "lost = []"
    "queue_holds (\<lambda>_ _. True) (forward t)"
    using assms(1,3) l(2) by (auto simp: download_def closing_state_def)
  have g: "app_gets (Tun_Write b n) = (if n = int (length b) then [(local_seq t, bytes)] else [])"
    using seg_read_packet [OF assms(2)] assms(4) by (simp add: assms(5))
  have r: "received_on fd (es @ ?e) = data_of ?g @ bytes" using l(1) s(3) by simp
  show ?thesis
  proof (cases "n = int (length b)")
    case True
    have "app_data (es @ ?e) = ?g @ [(local_seq t, bytes)]" using g True by (simp del: app_gets.simps(1))
    then show ?thesis using s r True by (simp add: download_def in_order_append algebra_simps)
  next
    case False
    have "app_data (es @ ?e) = ?g" using g False by (simp del: app_gets.simps(1))
    then show ?thesis using s r False by (simp add: download_def closing_state_def)
  qed
qed

interpretation downloads: relay_history "download a fd" "\<lambda>_ _. True" fd for a fd
proof
  fix es t t' es' assume "download a fd es t" "same_stream t t'" "list_all quiet_effect es'"
  then show "download a fd (es @ es') t'" by (rule download_kept)
next
  fix es t seq d psh assume "download a fd es t" "length (d :: byte list) < 65536"
  then show "download a fd es (queue_tcp seq psh t d)"
    using queue_tcp_holds [of "\<lambda>_ _. True" seq d t psh] by (simp add: download_def queue_tcp_def)
next
  fix es t os room w fwd t' w'
  assume d: "download a fd es t" "t_dest t \<noteq> 80" "forward_data os fd (forward t) t room False w = Some (fwd, t', w')"
  then have "queue_holds (\<lambda>_ _. True) (forward t)" by (simp add: download_def)
  from forward_data_history [OF d(3) this d(2)] obtain es' where e: "trace w' = trace w @ es'"
    "list_all only_sends es'" "queue_holds (\<lambda>_ _. True) (forward t')" "local_seq t' = local_seq t" "t_state t' = t_state t"
    by auto
  have "download a fd (es @ es') t'" "download a fd (es @ es') (t'\<lparr>remote_seq := remote_seq t' + 1\<rparr>)"
    using d(1) e sends_no_data [OF e(2), of fd] by (auto simp: download_def)
  then show "grows (download a fd) es w t' w' \<and> (fwd \<longrightarrow> forward t' = [] \<longrightarrow> t_state t' = TCP_CLOSE_WAIT \<longrightarrow>
      grows (download a fd) es w (t'\<lparr>remote_seq := remote_seq t' + 1\<rparr>) w')"
    using growsI e(1) by metis
next
  fix es t bytes b n assume "download a fd es t" "tcp_addrs t" "t_state t \<in> {TCP_ESTABLISHED, TCP_CLOSE_WAIT}" "bytes \<noteq> []"
    "b = tcp_packet t bytes False True False False"
  then show "download a fd (es @ [Sock_Recv fd (Rx_Data bytes), Tun_Write b n])
      (if n = int (length b) then t\<lparr>local_seq := local_seq t + of_nat (length bytes)\<rparr> else t\<lparr>t_state := TCP_CLOSING\<rparr>)"
    by (rule download_received)
qed (auto simp: download_def closing_state_def)

section \<open>A segment that overlaps\<close>

text \<open>The head of the queue starts before the next byte to forward, as signed numbers, and does not go on with it.\<close>

definition stuck :: "segment \<Rightarrow> u32 \<Rightarrow> tcp_session \<Rightarrow> bool" where
  "stuck q r t \<longleftrightarrow> (\<exists>qs. forward t = q # qs) \<and> remote_seq t = r \<and> seg_seq q + ucast (seg_sent q) \<noteq> r \<and>
     sint (seg_seq q) < sint r \<and> t_state t \<noteq> TCP_FIN_WAIT1"

text \<open>The packets of the app that the comparison does not misplace.\<close>

definition ordered_with :: "segment \<Rightarrow> u32 \<Rightarrow> u32 \<Rightarrow> byte list \<Rightarrow> bool" where
  "ordered_with q r seq d \<longleftrightarrow> not_opposite seq r \<and> not_opposite (seg_seq q) seq"

interpretation stalls: relay_history "\<lambda>es t. stuck q r t \<and> sent_on fd es = []" "ordered_with q r" fd
  for q r fd
proof
  fix es t t' es' assume "stuck q r t \<and> sent_on fd es = []" "same_stream t t'" "list_all quiet_effect es'"
  then show "stuck q r t' \<and> sent_on fd (es @ es') = []"
    using quiet_no_send [of es' fd] by (auto simp: stuck_def same_stream_def state_kept_def closing_state_def)
next
  fix es t seq d psh assume s: "stuck q r t \<and> sent_on fd es = []" and w: "ordered_with q r seq d"
  then obtain qs where qs: "forward t = q # qs" and k: "sint (seg_seq q) < sint r" "remote_seq t = r"
    by (auto simp: stuck_def)
  have "compare_u32 (seg_seq q) seq < 0" if "\<not> compare_u32 seq r < 0"
    using that w k(1) by (simp add: ordered_with_def not_opposite_compare)
  then show "stuck q r (queue_tcp seq psh t d) \<and> sent_on fd es = []"
    using s qs k(2) by (auto simp: stuck_def queue_tcp_def)
next
  fix es t os room w fwd t' w'
  assume s: "stuck q r t \<and> sent_on fd es = []" and f: "forward_data os fd (forward t) t room False w = Some (fwd, t', w')"
  then obtain qs where qs: "forward t = q # qs" by (auto simp: stuck_def)
  have t: "t\<lparr>forward := q # qs\<rparr> = t" unfolding qs [symmetric] by simp
  have "\<not> head_ready (t\<lparr>forward := q # qs\<rparr>) room" using s qs by (auto simp: stuck_def head_ready_def)
  then have "\<not> fwd \<and> t' = t \<and> w' = w" using f unfolding qs by (simp add: t)
  then show "grows (\<lambda>es t. stuck q r t \<and> sent_on fd es = []) es w t' w' \<and>
      (fwd \<longrightarrow> forward t' = [] \<longrightarrow> t_state t' = TCP_CLOSE_WAIT \<longrightarrow>
        grows (\<lambda>es t. stuck q r t \<and> sent_on fd es = []) es w (t'\<lparr>remote_seq := remote_seq t' + 1\<rparr>) w')"
    using s by (simp add: grows_refl)
qed (auto simp: stuck_def)

section \<open>An example\<close>

text \<open>An established session whose server has sent two bytes; the app sends two bytes, they are forwarded, and the
  server's are handed to the app.\<close>

definition relay_example :: "tcp_session ng_session" where
  "relay_example = \<lparr>sid = 1, socket = 7, ev_events = 9, sess = example_tcp\<rparr>"

definition relay_io :: io where
  "relay_io = empty_io\<lparr>fds := [7], rxq := (\<lambda>_. [])(7 := [Rx_Data [111, 107]])\<rparr>"

definition app_header :: "u32 \<Rightarrow> bool \<Rightarrow> tcphdr" where
  "app_header seq f = \<lparr>th_source = 40000, th_dest = 8443, th_seq = seq, th_ack_seq = 7001, th_doff = 5, th_fin = f,
     th_syn = False, th_rst = False, th_psh = True, th_ack = True, th_urg = False, th_window = 1000\<rparr>"

lemma relay_example_relaying: "relaying relay_example relay_io"
  by (simp add: relaying_def relay_example_def relay_io_def example_tcp_def tcp_good_def sock_ok_def socket_state_def
      tcp_wf_def tcp_addrs_def drop_bit_eq_div talking_def proxied_port_def)

lemma relay_packet:
  "tcp_packet_in calm_os [] [72, 105] 0 2 (app_header 1001 False) relay_example relay_io =
     Some (relay_example\<lparr>sess := example_tcp\<lparr>t_time := 1000, send_window := 4000, acked := 7001,
       forward := [\<lparr>seg_seq = 1001, seg_len = 2, seg_sent = 0, seg_psh = True, seg_data = [72, 105]\<rparr>]\<rparr>\<rparr>, step_io [] relay_io)"
  by (simp add: tcp_packet_in_def tcp_found_def relay_example_def example_tcp_def app_header_def relay_io_def calm_os_def
      sys_time_def queue_packet_def queue_tcp_def tcp_flags_in_def tcp_acknowledge_def closing_state_def proxied_port_def
      push_bit_eq_mult Let_def compare_u32_def)


lemma relay_forward:
  fixes q defines "q \<equiv> \<lparr>seg_seq = 1001, seg_len = 2, seg_sent = 0, seg_psh = True, seg_data = [72, 105]\<rparr>"
  defines "t \<equiv> example_tcp\<lparr>t_time := 1000, send_window := 4000, acked := 7001, forward := [q]\<rparr>"
  shows "tcp_forward calm_os 5 (relay_example\<lparr>sess := t\<rparr>) (step_io [] relay_io) =
    Some (True, relay_example\<lparr>sess := t\<lparr>t_sent := 2, remote_seq := 1003, forward := []\<rparr>\<rparr>,
      step_io [Sock_Send 7 [72, 105] False 2] (step_io [] (step_io [] (step_io [] relay_io))))"
  by (simp add: tcp_forward_def get_receive_buffer_def relay_example_def relay_io_def example_tcp_def q_def t_def empty_io_def
      calm_os_def sys_sndbuf_def sys_outq_def EPOLLOUT_def head_ready_def outgoing_def rd_block_def
      sys_send_def transfer_def clamp_sent_def Let_def signed_divide_int_def)


lemma calm_ack:
  assumes "tcp_ack_forwarded calm_os True s w = (s', w')" "t_state (sess s) = TCP_ESTABLISHED" "tcp_addrs (sess s)"
  shows "\<exists>win b n. s' = s\<lparr>sess := (sess s)\<lparr>recv_window := win, t_time := 1000\<rparr>\<rparr> \<and>
    trace w' = trace w @ [Tun_Write b n] \<and> fds w' = fds w \<and> rxq w' = rxq w"
proof -
  obtain win v where win: "get_receive_window calm_os s w = (win, v)" by force
  have v: "trace v = trace w" "fds v = fds w" "rxq v = rxq w"
    using win by (auto simp: get_receive_window_def get_receive_buffer_def sys_sndbuf_def sys_outq_def Let_def
        split: if_splits)
  let ?b = "tcp_packet ((sess s)\<lparr>recv_window := win\<rparr>) [] False True False False"
  have l: "length ?b \<le> 100000" using assms(3) by (simp add: length_tcp_packet tcp_addrs_def)
  then have "write_ack calm_os ((sess s)\<lparr>recv_window := win\<rparr>) v = (0, (sess s)\<lparr>recv_window := win\<rparr>, step_io [Tun_Write ?b (int (length ?b))] v)"
    by (simp add: write_ack_def write_tcp_def sys_tun_write_def calm_os_def transfer_def Let_def)
  then have "s' = s\<lparr>sess := (sess s)\<lparr>recv_window := win, t_time := 1000\<rparr>\<rparr>"
    "w' = step_io [] (step_io [Tun_Write ?b (int (length ?b))] v)"
    using assms(1,2) win by (auto simp: tcp_ack_forwarded_def Let_def sys_time_def calm_os_def)
  then show ?thesis using v by auto
qed

lemma calm_read:
  assumes "tcp_read calm_os 5 s w = (s', w')" "t_state (sess s) = TCP_ESTABLISHED" "tcp_addrs (sess s)"
    "get_send_window (sess s) = 4000" "t_mss (sess s) = 1460" "socket s = 7" "7 \<in> set (fds w)" "rxq w 7 = [Rx_Data [111, 107]]"
  shows "\<exists>b n. trace w' = trace w @ [Sock_Recv 7 (Rx_Data [111, 107]), Tun_Write b n] \<and>
    t_state (sess s') = TCP_ESTABLISHED \<and> local_seq (sess s') = local_seq (sess s) + 2"
proof -
  let ?t = "(sess s)\<lparr>t_time := 1000, t_received := t_received (sess s) + 2\<rparr>"
  let ?b = "tcp_packet ?t [111, 107] False True False False"
  have l: "length ?b \<le> 100000" using assms(3) by (simp add: length_tcp_packet tcp_addrs_def)
  have "read_size 4000 1460 = 1460" by (simp add: read_size_def)
  then have "tcp_received calm_os (s\<lparr>sess := (sess s)\<lparr>t_time := 1000\<rparr>\<rparr>) (Rx_Data [111, 107])
      (step_io [Sock_Recv 7 (Rx_Data [111, 107])] ((step_io [] w)\<lparr>rxq := (rxq w)(7 := [])\<rparr>)) = (s', w')"
    using assms by (simp add: tcp_read_def EPOLLIN_def sys_time_def sys_recv_stream_def calm_os_def Let_def)
  then have "w' = step_io [Tun_Write ?b (int (length ?b))] (step_io [Sock_Recv 7 (Rx_Data [111, 107])] ((step_io [] w)\<lparr>rxq := (rxq w)(7 := [])\<rparr>))"
    "sess s' = ?t\<lparr>local_seq := local_seq (sess s) + 2\<rparr>"
    using l by (auto simp: tcp_received_def write_data_def write_tcp_def sys_tun_write_def calm_os_def transfer_def Let_def)
  then show ?thesis using assms(2) by auto
qed


lemma relay_example_run:
  assumes "P 1001 [72, 105]"
  obtains s' w' b m d n where "tcp_relay calm_os P (relay_example, relay_io)
      [Sock_Send 7 [72, 105] False 2, Tun_Write b m, Sock_Recv 7 (Rx_Data [111, 107]), Tun_Write d n] (s', w')"
    "t_state (sess s') = TCP_ESTABLISHED"
proof -
  let ?q = "\<lparr>seg_seq = 1001, seg_len = 2, seg_sent = 0, seg_psh = True, seg_data = [72, 105]\<rparr> :: segment"
  let ?t = "example_tcp\<lparr>t_time := 1000, send_window := 4000, acked := 7001, forward := [?q]\<rparr>"
  let ?s = "relay_example\<lparr>sess := ?t\<rparr>" and ?w = "step_io [] relay_io"
  let ?s1 = "relay_example\<lparr>sess := ?t\<lparr>t_sent := 2, remote_seq := 1003, forward := []\<rparr>\<rparr>"
  let ?w1 = "step_io [Sock_Send 7 [72, 105] False 2] (step_io [] (step_io [] ?w))"
  have tr: "trace relay_io = []" "fds relay_io = [7]" "rxq relay_io 7 = [Rx_Data [111, 107]]"
    by (simp_all add: relay_io_def empty_io_def)
  obtain s2 w2 where a: "tcp_ack_forwarded calm_os True ?s1 ?w1 = (s2, w2)" by force
  have g: "t_state (sess ?s1) = TCP_ESTABLISHED" "tcp_addrs (sess ?s1)"
    by (simp_all add: example_tcp_def tcp_addrs_def)
  obtain win b m where s2: "s2 = ?s1\<lparr>sess := (sess ?s1)\<lparr>recv_window := win, t_time := 1000\<rparr>\<rparr>"
    and w2: "trace w2 = trace ?w1 @ [Tun_Write b m]" "fds w2 = fds ?w1" "rxq w2 = rxq ?w1"
    using calm_ack [OF a g] by blast
  obtain s' w' where r: "tcp_read calm_os 5 s2 w2 = (s', w')" by force
  obtain d n where e: "trace w' = trace w2 @ [Sock_Recv 7 (Rx_Data [111, 107]), Tun_Write d n]"
    "t_state (sess s') = TCP_ESTABLISHED"
    using calm_read [OF r] tr w2 unfolding s2
    by (auto simp: example_tcp_def relay_example_def tcp_addrs_def get_send_window_def compare_u32_def)
  have "check_tcp_socket calm_os 5 ?s ?w = Some (s', w')"
    using a r relay_forward by (simp add: check_tcp_socket_def EPOLLERR_def example_tcp_def relay_example_def)
  then have act: "tcp_act calm_os P (?s, ?w) (s', w')"
    by (intro tcp_act.event) (simp_all add: relay_example_def)
  have tw: "trace w' = trace ?w @ [Sock_Send 7 [72, 105] False 2, Tun_Write b m, Sock_Recv 7 (Rx_Data [111, 107]), Tun_Write d n]"
    using e(1) w2(1) tr by simp
  have "tcp_act calm_os P (relay_example, relay_io) (?s, ?w)"
    by (rule tcp_act.packet [where P = P, OF relay_packet]) (use assms in \<open>simp add: app_header_def\<close>)
  from tcp_relay.act [OF tcp_relay.start this, of "[]"] have "tcp_relay calm_os P (relay_example, relay_io) [] (?s, ?w)"
    by simp
  from tcp_relay.act [OF this act tw] show ?thesis using that e(2) by simp
qed

section \<open>The session as a relay\<close>

text \<open>C3: the app's stream reaches the server: over any run of a session of a direct connection or, once the proxy
  has answered, of port 443, that starts with nothing queued, whatever order the app's packets come in and however often they are repeated, what
  the socket has taken is the stream from the session's sequence number on, without a gap or a
  repetition, as long as no \<open>send\<close> fails; the number that is acknowledged to the app is the number of the next byte
  to forward, one more after the app's FIN.\<close>

theorem app_stream_forwarded:
  assumes "relaying s w" "t_state (sess s) \<in> {TCP_SYN_RECV, TCP_ESTABLISHED}" "forward (sess s) = []"
    and "tcp_relay os (carries B) (s, w) es (s', w')" "list_all send_ok es"
  shows "sent_on (socket s) es = stretch B (remote_seq (sess s)) (length (sent_on (socket s) es)) \<and>
    remote_seq (sess s') - (remote_seq (sess s) + of_nat (length (sent_on (socket s) es))) \<in> {0, 1} \<and>
    (t_state (sess s') \<in> {TCP_SYN_RECV, TCP_ESTABLISHED} \<longrightarrow>
      remote_seq (sess s') = remote_seq (sess s) + of_nat (length (sent_on (socket s) es)))"
proof -
  have "upload B (remote_seq (sess s)) (socket s) [] (sess s)" using assms(2,3) by (auto simp: upload_def)
  from uploads.tcp_relay_kept [OF assms(4) this assms(1)] assms(5)
  show ?thesis by (auto simp: upload_def fin_counted_def)
qed

theorem app_stream_forwarded_witness:
  "\<exists>es s' w'. tcp_relay calm_os (carries (\<lambda>q. if q = 1001 then 72 else 105)) (relay_example, relay_io) es (s', w') \<and>
    sent_on 7 es = [72, 105] \<and> remote_seq (sess s') = 1003"
proof -
  let ?B = "\<lambda>q :: u32. if q = 1001 then 72 else 105 :: byte"
  have c: "carries ?B 1001 [72, 105]" by (simp add: carries_def stretch_def)
  obtain s' w' b m d n where run: "tcp_relay calm_os (carries ?B) (relay_example, relay_io)
      [Sock_Send 7 [72, 105] False 2, Tun_Write b m, Sock_Recv 7 (Rx_Data [111, 107]), Tun_Write d n] (s', w')"
    and e: "t_state (sess s') = TCP_ESTABLISHED" by (rule relay_example_run [of "carries ?B", OF c])
  have s: "t_state (sess relay_example) = TCP_ESTABLISHED" "forward (sess relay_example) = []" "socket relay_example = 7"
    "remote_seq (sess relay_example) = 1001"
    by (simp_all add: relay_example_def example_tcp_def)
  from app_stream_forwarded [OF relay_example_relaying _ s(2) run] s e have "remote_seq (sess s') = 1003" by simp
  then show ?thesis using run
    by (intro exI [of _ "[Sock_Send 7 [72, 105] False 2, Tun_Write b m, Sock_Recv 7 (Rx_Data [111, 107]), Tun_Write d n]"])
       auto
qed

text \<open>C4: the server's stream reaches the app: over any run of a session of a direct connection or, once the proxy has
  answered, of port 443, the data of the packets that were written to the tun
  device, in the order written, is what the socket has received, and each packet carries the sequence number
  of its first byte; nothing is missing but what could not be written, and then the session is
  closing.\<close>

theorem server_stream_delivered:
  assumes "relaying s w" "t_state (sess s) \<in> {TCP_SYN_RECV, TCP_ESTABLISHED, TCP_CLOSE_WAIT}"
    and "\<forall>q \<in> set (forward (sess s)). segment_wf q" "tcp_relay os (\<lambda>_ _. True) (s, w) es (s', w')"
  shows "in_order (local_seq (sess s)) (app_data es) \<and>
    (\<exists>lost. received_on (socket s) es = data_of (app_data es) @ lost \<and> (lost = [] \<or> closing_state (t_state (sess s')))) \<and>
    (t_state (sess s') \<in> {TCP_SYN_RECV, TCP_ESTABLISHED, TCP_CLOSE_WAIT} \<longrightarrow>
      local_seq (sess s') = local_seq (sess s) + of_nat (length (received_on (socket s) es)))"
proof -
  have "download (local_seq (sess s)) (socket s) [] (sess s)"
    using assms(2,3) by (auto simp: download_def queue_holds_def)
  from downloads.tcp_relay_kept [OF assms(4) this assms(1)]
  have d: "download (local_seq (sess s)) (socket s) es (sess s')" by simp
  then have "data_of (app_data es) = received_on (socket s) es \<and>
      local_seq (sess s') = local_seq (sess s) + of_nat (length (data_of (app_data es)))"
    if "t_state (sess s') \<in> {TCP_SYN_RECV, TCP_ESTABLISHED, TCP_CLOSE_WAIT}"
    using that by (auto simp: download_def closing_state_def)
  then show ?thesis using d by (auto simp: download_def)
qed

theorem server_stream_delivered_witness:
  "\<exists>es s' w'. tcp_relay calm_os (\<lambda>_ _. True) (relay_example, relay_io) es (s', w') \<and>
    in_order 7001 (app_data es) \<and> data_of (app_data es) = [111, 107]"
proof -
  have p: "(\<lambda>(_ :: u32) (_ :: byte list). True) 1001 [72, 105]" by simp
  obtain s' w' b m d n where run: "tcp_relay calm_os (\<lambda>_ _. True) (relay_example, relay_io)
      [Sock_Send 7 [72, 105] False 2, Tun_Write b m, Sock_Recv 7 (Rx_Data [111, 107]), Tun_Write d n] (s', w')"
    and e: "t_state (sess s') = TCP_ESTABLISHED" by (rule relay_example_run [of "\<lambda>_ _. True", OF p])
  let ?es = "[Sock_Send 7 [72, 105] False 2, Tun_Write b m, Sock_Recv 7 (Rx_Data [111, 107]), Tun_Write d n]"
  have s: "t_state (sess relay_example) = TCP_ESTABLISHED" "forward (sess relay_example) = []" "socket relay_example = 7"
    "local_seq (sess relay_example) = 7001"
    by (simp_all add: relay_example_def example_tcp_def)
  have "received_on 7 ?es = [111, 107]" by (simp add: received_on_def)
  then have "in_order 7001 (app_data ?es) \<and> data_of (app_data ?es) = [111, 107]"
    using server_stream_delivered [OF relay_example_relaying _ _ run] s e by (auto simp: closing_state_def)
  then show ?thesis using run by blast
qed

text \<open>C10: a segment that overlaps what has been forwarded, as a retransmission cut differently may, stops the
  session: as the head of the queue it is never sent, dropped or cut, so no byte of the app reaches the
  server any more, and the number acknowledged to it does not move. This holds over any run in which no packet of
  the app is numbered exactly \<open>2 ^ 31 - 1\<close> away from the segment or from the next byte to forward, if as signed
  numbers the segment starts before that byte (so the sign boundary does not lie between the two).\<close>

theorem overlap_stalls:
  assumes "relaying s w" "stuck q r (sess s)" "tcp_relay os (ordered_with q r) (s, w) es (s', w')"
  shows "sent_on (socket s) es = [] \<and> remote_seq (sess s') = remote_seq (sess s) \<and> (\<exists>qs. forward (sess s') = q # qs)"
  using stalls.tcp_relay_kept [OF assms(3) _ assms(1)] assms(2) by (auto simp: stuck_def)

theorem overlap_stalls_witness:
  "\<exists>q s s' w'. stuck q 1003 (sess s) \<and>
    tcp_relay calm_os (ordered_with q 1003) (s, relay_io) [] (s', w') \<and> length (forward (sess s')) = 2 \<and>
    remote_seq (sess s') = 1003"
proof -
  let ?q = "\<lparr>seg_seq = 1002, seg_len = 3, seg_sent = 0, seg_psh = True, seg_data = [105, 33, 33]\<rparr> :: segment"
  let ?s = "relay_example\<lparr>sess := example_tcp\<lparr>remote_seq := 1003, forward := [?q]\<rparr>\<rparr>"
  obtain s' where p: "tcp_packet_in calm_os [] [33, 33] 0 2 (app_header 1003 False) ?s relay_io = Some (s', step_io [] relay_io)"
    and l: "length (forward (sess s')) = 2"
    by (simp add: tcp_packet_in_def tcp_found_def relay_example_def example_tcp_def app_header_def relay_io_def calm_os_def
      sys_time_def queue_packet_def queue_tcp_def tcp_flags_in_def tcp_acknowledge_def closing_state_def proxied_port_def
      push_bit_eq_mult Let_def compare_u32_def)
  have rel: "relaying ?s relay_io"
    using relay_example_relaying by (simp add: relaying_def tcp_good_def relay_example_def)
  have st: "stuck ?q 1003 (sess ?s)" by (simp add: stuck_def example_tcp_def)
  have run: "tcp_relay calm_os (ordered_with ?q 1003) (?s, relay_io) [] (s', step_io [] relay_io)"
    using tcp_relay.act [OF tcp_relay.start tcp_act.packet [OF p], of "ordered_with ?q 1003" "[]"]
    by (simp add: app_header_def ordered_with_def not_opposite_def)
  from overlap_stalls [OF rel st run] st run l show ?thesis
    by (intro exI [of _ ?q] exI [of _ ?s] exI [of _ s']) auto
qed

lemma tcp_fin_empty:
  assumes "tcp_fin os t w = (t', w')" "t_state t = TCP_ESTABLISHED" "forward t = []"
  shows "\<exists>st \<in> {TCP_CLOSE_WAIT, TCP_CLOSING}. t' = t\<lparr>remote_seq := remote_seq t + 1, t_state := st\<rparr>"
proof -
  obtain r u v where a: "write_ack os (t\<lparr>remote_seq := remote_seq t + 1\<rparr>) w = (r, u, v)" by (metis prod_cases3)
  have "t' = (if r \<ge> 0 then u\<lparr>t_state := TCP_CLOSE_WAIT\<rparr> else u)" using assms a by (auto simp: tcp_fin_def)
  then show ?thesis using writer_wrote(2) [OF a] by (auto simp: wrote_def)
qed

lemma tcp_found_fin:
  assumes "tcp_found os pkt off 0 h s w = Some (s', w')" "t_state (sess s) = TCP_ESTABLISHED" "forward (sess s) = []"
    "th_fin h" "\<not> th_rst h" "\<not> th_syn h" "th_ack_seq h = local_seq (sess s)"
  shows "remote_seq (sess s') = remote_seq (sess s) + 1 \<and> t_state (sess s') \<in> {TCP_CLOSE_WAIT, TCP_CLOSING} \<and>
    forward (sess s') = [] \<and> t_dest (sess s') = t_dest (sess s) \<and> connect_sent (sess s') = connect_sent (sess s)"
proof -
  obtain now v where n: "sys_time os w = (now, v)" by force
  let ?t = "(sess s)\<lparr>t_time := now, send_window := push_bit (unat (send_scale (sess s))) (ucast (th_window h))\<rparr>"
  have f: "tcp_flags_in os h (s\<lparr>sess := ?t\<rparr>) v = (s', w')"
    using assms(1,2) n by (auto simp: tcp_found_def closing_state_def Let_def split: if_splits)
  obtain t' where t': "tcp_fin os ?t v = (t', w')" "s' = s\<lparr>sess := t'\<rparr>"
    using f assms(4-7) by (auto simp: tcp_flags_in_def split: prod.splits)
  then show ?thesis using tcp_fin_empty [OF t'(1)] assms(2,3) by auto
qed

lemma tcp_found_refuses:
  assumes "tcp_found os pkt off datalen h s w = Some (s', w')" "t_state (sess s) \<in> {TCP_CLOSE_WAIT, TCP_CLOSING}" "datalen \<noteq> 0"
  shows "remote_seq (sess s') = remote_seq (sess s) \<and> forward (sess s') = forward (sess s) \<and> t_state (sess s') = TCP_CLOSING"
  using assms by (auto simp: tcp_found_def closing_state_def Let_def split: if_splits prod.splits dest!: write_rst_eq)

text \<open>C16: a FIN that overtakes data of the app loses that data: the sequence number of a FIN is not looked at, so it is
  acknowledged with the number of a byte that never came, and when that byte is sent again it is refused
  and the session reset.\<close>

theorem fin_overtakes_data:
  assumes "relaying s w" "t_state (sess s) = TCP_ESTABLISHED" "forward (sess s) = []"
    and "th_fin h" "\<not> th_rst h" "\<not> th_syn h" "th_ack_seq h = local_seq (sess s)"
    and "tcp_packet_in os hostname pkt off 0 h s w = Some (s1, w1)"
    and "datalen \<noteq> 0" "tcp_packet_in os hostname pkt' off' datalen h' s1 w2 = Some (s2, w3)"
  shows "remote_seq (sess s1) = remote_seq (sess s) + 1 \<and> t_state (sess s1) \<in> {TCP_CLOSE_WAIT, TCP_CLOSING} \<and>
    remote_seq (sess s2) = remote_seq (sess s1) \<and> forward (sess s2) = [] \<and> t_state (sess s2) = TCP_CLOSING"
proof -
  have k: "talking (proxied_port (t_dest (sess s))) (connect_sent (sess s))" using assms(1) by (simp add: relaying_def)
  obtain name where 1: "tcp_found os pkt off 0 h (s\<lparr>sess := (sess s)\<lparr>t_hostname := name\<rparr>\<rparr>) w = Some (s1, w1)"
    using tcp_packet_in_found [OF k] assms(8) by metis
  have f: "remote_seq (sess s1) = remote_seq (sess s) + 1 \<and> t_state (sess s1) \<in> {TCP_CLOSE_WAIT, TCP_CLOSING} \<and>
    forward (sess s1) = [] \<and> t_dest (sess s1) = t_dest (sess s) \<and> connect_sent (sess s1) = connect_sent (sess s)"
    using tcp_found_fin [OF 1] assms(2-7) by simp
  then have "talking (proxied_port (t_dest (sess s1))) (connect_sent (sess s1))" using k by simp
  then obtain name' where 2: "tcp_found os pkt' off' datalen h' (s1\<lparr>sess := (sess s1)\<lparr>t_hostname := name'\<rparr>\<rparr>) w2 = Some (s2, w3)"
    using tcp_packet_in_found assms(10) by metis
  show ?thesis using tcp_found_refuses [OF 2 _ assms(9)] f by simp
qed

theorem fin_overtakes_data_witness:
  "\<exists>s1 w1 s2 w2. tcp_packet_in calm_os [] [] 0 0 (app_header 1101 True) relay_example relay_io = Some (s1, w1) \<and>
    tcp_packet_in calm_os [] [72, 105] 0 2 (app_header 1001 False) s1 w1 = Some (s2, w2) \<and>
    remote_seq (sess s1) = 1002 \<and> forward (sess s2) = [] \<and> t_state (sess s2) = TCP_CLOSING"
proof -
  let ?t = "example_tcp\<lparr>t_time := 1000, send_window := 4000\<rparr>"
  obtain t1 w1 where f: "tcp_fin calm_os ?t (step_io [] relay_io) = (t1, w1)" by force
  obtain st where t1: "st \<in> {TCP_CLOSE_WAIT, TCP_CLOSING}" "t1 = ?t\<lparr>remote_seq := 1002, t_state := st\<rparr>"
    using tcp_fin_empty [OF f] by (auto simp: example_tcp_def)
  have 1: "tcp_packet_in calm_os [] [] 0 0 (app_header 1101 True) relay_example relay_io = Some (relay_example\<lparr>sess := t1\<rparr>, w1)"
    using f by (simp add: tcp_packet_in_def tcp_found_def relay_example_def example_tcp_def app_header_def calm_os_def
      sys_time_def tcp_flags_in_def closing_state_def proxied_port_def push_bit_eq_mult Let_def)
  have "\<exists>s2 w2. tcp_packet_in calm_os [] [72, 105] 0 2 (app_header 1001 False) (relay_example\<lparr>sess := t1\<rparr>) w1 = Some (s2, w2)"
    using t1 by (auto simp: tcp_packet_in_def tcp_found_def relay_example_def example_tcp_def proxied_port_def
      closing_state_def Let_def split: prod.splits)
  then obtain s2 w2 where 2: "tcp_packet_in calm_os [] [72, 105] 0 2 (app_header 1001 False) (relay_example\<lparr>sess := t1\<rparr>) w1 = Some (s2, w2)"
    by blast
  have "forward (sess s2) = [] \<and> t_state (sess s2) = TCP_CLOSING"
    using fin_overtakes_data [OF relay_example_relaying _ _ _ _ _ _ 1 _ 2]
    by (simp add: relay_example_def example_tcp_def app_header_def)
  then show ?thesis using 1 2 t1 by (intro exI [of _ "relay_example\<lparr>sess := t1\<rparr>"] exI [of _ w1] exI [of _ s2] exI [of _ w2]) simp
qed

end
