(* ===== verification/Receiver.thy ===== *)
theory Receiver
  imports Tcp_Write Udp Icmp
begin

text \<open>
  The stack of the device on the other side of the tun device: what it checks of a packet before it
  hands it on, from the bytes of the packet alone. The lemmas show that every packet the writers of
  \<^verbatim>\<open>tcp.c\<close>, \<^verbatim>\<open>udp.c\<close> and \<^verbatim>\<open>icmp.c\<close> build for a session passes, as long as its length fits into
  the 16 bits of the header. The message of ICMPv6 is not checked: its checksum is computed wrongly.
\<close>

section \<open>The checks\<close>

text \<open>A transport segment, from the addresses of its packet.\<close>

definition segment_ok :: "bool \<Rightarrow> byte \<Rightarrow> byte list \<Rightarrow> byte list \<Rightarrow> byte list \<Rightarrow> bool" where
  "segment_ok v4 protocol src dst seg \<longleftrightarrow>
     (protocol = IPPROTO_TCP \<or> protocol = IPPROTO_UDP \<longrightarrow>
        calc_checksum 0 ((if v4 then ip4_pseudo else ip6_pseudo_std) src dst protocol (length seg) @ seg) = 0xFFFF) \<and>
     (protocol = IPPROTO_ICMP \<longrightarrow> 8 \<le> length seg \<longrightarrow> calc_checksum 0 seg = 0xFFFF)"

text \<open>A packet: the version, the length field, the checksum of an IPv4 header, the segment.\<close>

definition packet_ok :: "byte list \<Rightarrow> bool" where
  "packet_ok b \<longleftrightarrow>
     (if drop_bit 4 (b ! 0) = 4 then
        20 \<le> length b \<and> rd_be16 b 2 = Some (of_nat (length b)) \<and> calc_checksum 0 (take 20 b) = 0xFFFF \<and>
        segment_ok True (b ! 9) (take 4 (drop 12 b)) (take 4 (drop 16 b)) (drop 20 b)
      else
        drop_bit 4 (b ! 0) = 6 \<and> 40 \<le> length b \<and> rd_be16 b 4 = Some (of_nat (length b - 40)) \<and>
        segment_ok False (b ! 6) (take 16 (drop 8 b)) (take 16 (drop 24 b)) (drop 40 b))"

lemma ip4_packet_ok:
  assumes "length src = 4" "length dst = 4" "segment_ok True protocol src dst seg"
  shows "packet_ok (ip4_header (20 + length seg) protocol src dst @ seg)"
proof -
  let ?h = "ip4_header (20 + length seg) protocol src dst"
  have c: "calc_checksum 0 ?h = 0xFFFF" using assms by (intro ip4_header_verifies)
  obtain ck where h: "?h = [0x45, 0] @ be16 (of_nat (20 + length seg)) @ [0, 0, 0, 0, IPDEFTTL, protocol] @ le16 ck @ src @ dst"
    unfolding ip4_header_def ip4_header_with_def by blast
  have "length ?h = 20" using assms by (simp add: wire)
  moreover have "rd_be16 (?h @ seg) 2 = Some (of_nat (20 + length seg))"
    unfolding h using rd_be16_at [of "[0x45, 0]"] by (simp add: numeral_2_eq_2)
  moreover have "(?h @ seg) ! 0 = 0x45" "(?h @ seg) ! 9 = protocol"
    "take 4 (drop 12 (?h @ seg)) = src" "take 4 (drop 16 (?h @ seg)) = dst"
    unfolding h using assms(1,2) by (simp_all add: nth_append nth_Cons')
  moreover have "drop_bit 4 (0x45 :: byte) = 4" by code_simp
  ultimately show ?thesis unfolding packet_ok_def using assms c by simp
qed

lemma ip6_packet_ok:
  assumes "length src = 16" "length dst = 16" "segment_ok False protocol src dst seg"
  shows "packet_ok (ip6_header (length seg) protocol src dst @ seg)"
proof -
  let ?h = "ip6_header (length seg) protocol src dst"
  have h: "?h = [0x60, 0, 0, 0] @ be16 (of_nat (length seg)) @ [protocol, IPDEFTTL] @ src @ dst"
    by (simp add: ip6_header_def)
  have "length ?h = 40" using assms by (simp add: wire)
  moreover have "rd_be16 (?h @ seg) 4 = Some (of_nat (length seg))"
    unfolding h using rd_be16_at [of "[0x60, 0, 0, 0]"] by (simp add: numeral_eq_Suc)
  moreover have "(?h @ seg) ! 0 = 0x60" "(?h @ seg) ! 6 = protocol"
    "take 16 (drop 8 (?h @ seg)) = src" "take 16 (drop 24 (?h @ seg)) = dst"
    unfolding h using assms(1,2) by (simp_all add: nth_append nth_Cons')
  moreover have "drop_bit 4 (0x60 :: byte) = 6" by code_simp
  ultimately show ?thesis unfolding packet_ok_def using assms by simp
qed

section \<open>The packets of the writers pass\<close>

text \<open>What a session's key needs: addresses of at least the length of their version, of which the
  writers take no more.\<close>

definition addr_size :: "int \<Rightarrow> nat" where
  "addr_size version = (if version = 4 then 4 else 16)"

lemma tcp_packet_take:
  "tcp_packet (t\<lparr>t_saddr := take (addr_size (t_version t)) (t_saddr t), t_daddr := take (addr_size (t_version t)) (t_daddr t)\<rparr>)
     data syn ack fin rst = tcp_packet t data syn ack fin rst"
  by (simp add: tcp_packet_def tcp_header_def tcp_header_front_def tcp_flags_def tcp_options_def addr_size_def Let_def)

lemma tcp_packet_ok_addrs:
  assumes "tcp_addrs t" "length (tcp_packet t data syn ack fin rst) \<le> 65535"
  shows "packet_ok (tcp_packet t data syn ack fin rst)"
proof (cases "t_version t = 4")
  case True
  have a: "length (t_daddr t) = 4" "length (t_saddr t) = 4" using assms(1) True by (simp_all add: tcp_addrs_def)
  have "length data \<le> 65535" using assms by (simp add: wire)
  then have v: "calc_checksum 0 (ip4_pseudo (t_daddr t) (t_saddr t) IPPROTO_TCP
       (length (tcp_segment t data syn ack fin rst)) @ tcp_segment t data syn ack fin rst) = 0xFFFF"
    by (rule tcp_packet_verifies_v4 [OF assms(1) True])
  obtain ck where p: "tcp_packet t data syn ack fin rst =
       ip4_header (20 + (20 + (if syn then 8 else 0) + length data)) IPPROTO_TCP (t_daddr t) (t_saddr t) @
       tcp_header ck t syn ack fin rst @ (if syn then tcp_options t else []) @ data"
    using tcp_packet_v4 [OF assms(1) True] by blast
  then have s: "tcp_segment t data syn ack fin rst = tcp_header ck t syn ack fin rst @ (if syn then tcp_options t else []) @ data"
    using a True by (simp add: tcp_segment_def wire)
  then have "length (tcp_segment t data syn ack fin rst) = 20 + (if syn then 8 else 0) + length data"
    by (simp add: wire)
  then have "tcp_packet t data syn ack fin rst =
      ip4_header (20 + length (tcp_segment t data syn ack fin rst)) IPPROTO_TCP (t_daddr t) (t_saddr t) @ tcp_segment t data syn ack fin rst"
    unfolding p s [symmetric] by (simp only:)
  moreover have "segment_ok True IPPROTO_TCP (t_daddr t) (t_saddr t) (tcp_segment t data syn ack fin rst)"
    using v by (simp add: segment_ok_def IPPROTO_TCP_def IPPROTO_ICMP_def)
  ultimately show ?thesis using ip4_packet_ok [OF a] by metis
next
  case False
  have a: "length (t_daddr t) = 16" "length (t_saddr t) = 16" using assms(1) False by (simp_all add: tcp_addrs_def)
  have "length data \<le> 65475" using assms False by (simp add: wire)
  then have v: "calc_checksum 0 (ip6_pseudo_std (t_daddr t) (t_saddr t) IPPROTO_TCP
       (length (tcp_segment t data syn ack fin rst)) @ tcp_segment t data syn ack fin rst) = 0xFFFF"
    by (rule tcp_packet_verifies_v6 [OF assms(1) False])
  obtain ck where p: "tcp_packet t data syn ack fin rst =
       ip6_header (20 + (if syn then 8 else 0) + length data) IPPROTO_TCP (t_daddr t) (t_saddr t) @
       tcp_header ck t syn ack fin rst @ (if syn then tcp_options t else []) @ data"
    using tcp_packet_v6 [OF assms(1) False] by blast
  then have s: "tcp_segment t data syn ack fin rst = tcp_header ck t syn ack fin rst @ (if syn then tcp_options t else []) @ data"
    using a False by (simp add: tcp_segment_def wire)
  then have "length (tcp_segment t data syn ack fin rst) = 20 + (if syn then 8 else 0) + length data"
    by (simp add: wire)
  then have "tcp_packet t data syn ack fin rst =
      ip6_header (length (tcp_segment t data syn ack fin rst)) IPPROTO_TCP (t_daddr t) (t_saddr t) @ tcp_segment t data syn ack fin rst"
    unfolding p s [symmetric] by (simp only:)
  moreover have "segment_ok False IPPROTO_TCP (t_daddr t) (t_saddr t) (tcp_segment t data syn ack fin rst)"
    using v by (simp add: segment_ok_def IPPROTO_TCP_def IPPROTO_ICMP_def)
  ultimately show ?thesis using ip6_packet_ok [OF a] by metis
qed

lemma tcp_packet_ok:
  assumes "addr_size (t_version t) \<le> length (t_saddr t)" "addr_size (t_version t) \<le> length (t_daddr t)"
    "length (tcp_packet t data syn ack fin rst) \<le> 65535"
  shows "packet_ok (tcp_packet t data syn ack fin rst)"
proof -
  let ?u = "t\<lparr>t_saddr := take (addr_size (t_version t)) (t_saddr t), t_daddr := take (addr_size (t_version t)) (t_daddr t)\<rparr>"
  have "tcp_addrs ?u" using assms(1,2) by (simp add: tcp_addrs_def addr_size_def)
  from tcp_packet_ok_addrs [OF this] show ?thesis using assms(3) unfolding tcp_packet_take by blast
qed

lemma udp_packet_ok:
  assumes "udp_wf u" "length (udp_packet u data) \<le> 65535"
  shows "packet_ok (udp_packet u data)"
proof (cases "u_version u = 4")
  case True
  have a: "length (u_daddr u) = 4" "length (u_saddr u) = 4" using assms(1) True by (simp_all add: udp_wf_def)
  obtain ck where p: "udp_packet u data = ip4_header (20 + (8 + length data)) IPPROTO_UDP (u_daddr u) (u_saddr u) @
      udp_header_front u (length data) @ le16 ck @ data"
    using True a by (simp add: udp_packet_def Let_def)
  have s: "udp_segment u data = udp_header_front u (length data) @ le16 ck @ data"
    using True a by (simp add: udp_segment_def p wire)
  have l: "length data \<le> 65507" using assms(2) a by (simp add: p wire)
  have "segment_ok True IPPROTO_UDP (u_daddr u) (u_saddr u) (udp_segment u data)"
    using udp_packet_v4_verifies(2) [OF assms(1) True l] by (simp add: segment_ok_def IPPROTO_UDP_def IPPROTO_ICMP_def)
  moreover have "udp_packet u data = ip4_header (20 + length (udp_segment u data)) IPPROTO_UDP (u_daddr u) (u_saddr u) @ udp_segment u data"
    unfolding s by (simp add: p wire)
  ultimately show ?thesis using ip4_packet_ok [OF a] by metis
next
  case False
  have a: "length (u_daddr u) = 16" "length (u_saddr u) = 16" using assms(1) False by (simp_all add: udp_wf_def)
  obtain ck where p: "udp_packet u data = ip6_header (8 + length data) IPPROTO_UDP (u_daddr u) (u_saddr u) @
      udp_header_front u (length data) @ le16 ck @ data"
    using False a by (simp add: udp_packet_def Let_def)
  have s: "udp_segment u data = udp_header_front u (length data) @ le16 ck @ data"
    using False a by (simp add: udp_segment_def p wire)
  have l: "length data \<le> 65487" using assms(2) a by (simp add: p wire)
  have "segment_ok False IPPROTO_UDP (u_daddr u) (u_saddr u) (udp_segment u data)"
    using udp_packet_v6_verifies [OF assms(1) False l] by (simp add: segment_ok_def IPPROTO_UDP_def IPPROTO_ICMP_def)
  moreover have "udp_packet u data = ip6_header (length (udp_segment u data)) IPPROTO_UDP (u_daddr u) (u_saddr u) @ udp_segment u data"
    unfolding s by (simp add: p wire)
  ultimately show ?thesis using ip6_packet_ok [OF a] by metis
qed

lemma icmp_answer_packet_ok:
  assumes "length (i_saddr u) = addr_size (i_version u)" "length (i_daddr u) = addr_size (i_version u)"
    "length bytes \<le> (if i_version u = 4 then ICMP4_MAXMSG else ICMP6_MAXMSG)"
  shows "packet_ok (icmp_packet u (icmp_answer os u bytes))"
proof (cases "i_version u = 4")
  case True
  have a: "length (i_daddr u) = 4" "length (i_saddr u) = 4" using assms(1,2) True by (simp_all add: addr_size_def)
  have l: "length bytes \<le> ICMP4_MAXMSG" using assms(3) True by simp
  have n: "length (icmp_answer os u bytes) = length bytes"
    using l True by (simp add: icmp_answer_def icmp_message_def buffer_of_def ICMP4_MAXMSG_def Let_def)
  have "segment_ok True IPPROTO_ICMP (i_daddr u) (i_saddr u) (icmp_answer os u bytes)"
    using icmp_answer_v4 [OF True _ l] n by (simp add: segment_ok_def IPPROTO_TCP_def IPPROTO_UDP_def IPPROTO_ICMP_def)
  from ip4_packet_ok [OF a this] show ?thesis using a True by (simp add: icmp_packet_def)
next
  case False
  have a: "length (i_daddr u) = 16" "length (i_saddr u) = 16" using assms(1,2) False by (simp_all add: addr_size_def)
  have "segment_ok False IPPROTO_ICMPV6 (i_daddr u) (i_saddr u) (icmp_answer os u bytes)"
    by (simp add: segment_ok_def IPPROTO_TCP_def IPPROTO_UDP_def IPPROTO_ICMP_def IPPROTO_ICMPV6_def)
  from ip6_packet_ok [OF a this] show ?thesis using a False by (simp add: icmp_packet_def)
qed

end
