(* ===== verification/Framing.thy ===== *)
theory Framing
  imports Receiver Events
begin

text \<open>
  What every operation on one session leaves alone, from the smallest writer up to the handlers: the
  session's place in memory and its flow (IP version, addresses and ports), by which packets find it.
  The call counter and the trace only grow, and what is written to the tun device on the way passes the
  checks of \<open>Receiver\<close>. The relation \<open>framed\<close> is a preorder, so the facts of a caller follow from
  those of what it calls; the facts are collected in \<open>framing\<close>.
\<close>

named_theorems framing "what an operation leaves of the flow, the call counter and the written packets"

section \<open>What is written to the tun device\<close>

text \<open>Every packet whose length fits into 16 bits passes the receiver's checks.\<close>

fun effect_ok :: "effect \<Rightarrow> bool" where
  "effect_ok (Tun_Write b r) = (length b \<le> 65535 \<longrightarrow> packet_ok b)"
| "effect_ok _ = True"

definition tun_ok :: "io \<Rightarrow> bool" where
  "tun_ok w \<longleftrightarrow> list_all effect_ok (trace w)"

lemma tun_ok_step [simp]: "tun_ok (step_io es w) \<longleftrightarrow> tun_ok w \<and> list_all effect_ok es"
  by (simp add: tun_ok_def)

lemma tun_ok_upd [simp]: "tun_ok (w\<lparr>rxq := q\<rparr>) = tun_ok w" "tun_ok (w\<lparr>fds := f\<rparr>) = tun_ok w"
  by (simp_all add: tun_ok_def)

section \<open>Flows\<close>

type_synonym flow = "int \<times> byte list \<times> u16 \<times> byte list \<times> u16"

definition tcp_flow :: "tcp_session \<Rightarrow> flow" where
  "tcp_flow t = (t_version t, t_saddr t, t_source t, t_daddr t, t_dest t)"

definition udp_flow :: "udp_session \<Rightarrow> flow" where
  "udp_flow u = (u_version u, u_saddr u, u_source u, u_daddr u, u_dest u)"

definition icmp_flow :: "icmp_session \<Rightarrow> flow" where
  "icmp_flow i = (i_version i, i_saddr i, 0, i_daddr i, 0)"

fun addrs_ok :: "flow \<Rightarrow> bool" where
  "addrs_ok (version, saddr, sport, daddr, dport) \<longleftrightarrow>
     length saddr = addr_size version \<and> length daddr = addr_size version"

lemma addrs_ok_flows:
  "addrs_ok (tcp_flow t) = tcp_addrs t" "addrs_ok (udp_flow u) = udp_wf u"
  by (simp_all add: tcp_flow_def tcp_addrs_def udp_flow_def udp_wf_def addr_size_def)

lemma flow_upd [simp]:
  "tcp_flow (t\<lparr>t_state := st\<rparr>) = tcp_flow t" "tcp_flow (t\<lparr>t_time := n\<rparr>) = tcp_flow t"
  "tcp_flow (t\<lparr>remote_seq := q\<rparr>) = tcp_flow t" "tcp_flow (t\<lparr>local_seq := q\<rparr>) = tcp_flow t"
  "tcp_flow (t\<lparr>acked := q\<rparr>) = tcp_flow t" "tcp_flow (t\<lparr>send_window := q\<rparr>) = tcp_flow t"
  "tcp_flow (t\<lparr>recv_window := q\<rparr>) = tcp_flow t" "tcp_flow (t\<lparr>last_keep_alive := n\<rparr>) = tcp_flow t"
  "tcp_flow (t\<lparr>t_sent := c\<rparr>) = tcp_flow t" "tcp_flow (t\<lparr>t_received := c\<rparr>) = tcp_flow t"
  "tcp_flow (t\<lparr>forward := fs\<rparr>) = tcp_flow t" "tcp_flow (t\<lparr>t_hostname := h\<rparr>) = tcp_flow t"
  "tcp_flow (t\<lparr>connect_sent := cs\<rparr>) = tcp_flow t"
  "udp_flow (u\<lparr>u_state := us\<rparr>) = udp_flow u" "udp_flow (u\<lparr>u_time := n\<rparr>) = udp_flow u"
  "udp_flow (u\<lparr>u_sent := c\<rparr>) = udp_flow u" "udp_flow (u\<lparr>u_received := c\<rparr>) = udp_flow u"
  "icmp_flow (i\<lparr>i_time := n\<rparr>) = icmp_flow i" "icmp_flow (i\<lparr>i_stop := b\<rparr>) = icmp_flow i"
  by (simp_all add: tcp_flow_def udp_flow_def icmp_flow_def)

definition framed :: "flow \<Rightarrow> io \<Rightarrow> flow \<Rightarrow> io \<Rightarrow> bool" where
  "framed k w k' w' \<longleftrightarrow> k' = k \<and> tick w \<le> tick w' \<and> (\<exists>es. trace w' = trace w @ es) \<and>
     (addrs_ok k \<longrightarrow> tun_ok w \<longrightarrow> tun_ok w')"

lemma framed_refl [simp]: "framed k w k w"
  by (simp add: framed_def)

lemma framed_trans: "framed a w b v \<Longrightarrow> framed b v c u \<Longrightarrow> framed a w c u"
  by (auto simp: framed_def)

section \<open>The calls\<close>

text \<open>A call that writes nothing to the tun device.\<close>

definition silent :: "io \<Rightarrow> io \<Rightarrow> bool" where
  "silent w w' \<longleftrightarrow> tick w \<le> tick w' \<and> (\<exists>es. trace w' = trace w @ es) \<and> tun_ok w' = tun_ok w"

lemma silent_framed: "silent w w' \<Longrightarrow> framed k w k w'"
  by (simp add: silent_def framed_def)

lemma silent_sys [framing]:
  "sys_time os w = (n, w') \<Longrightarrow> silent w w'" "sys_ms os w = (n, w') \<Longrightarrow> silent w w'"
  "sys_rand os w = (x, w') \<Longrightarrow> silent w w'" "sys_send os fd b m w = (r, w') \<Longrightarrow> silent w w'"
  "sys_sendto os fd b ep w = (r, w') \<Longrightarrow> silent w w'" "sys_protect os fd w = (ok, w') \<Longrightarrow> silent w w'"
  "sys_fcntl os fd w = (ok, w') \<Longrightarrow> silent w w'" "sys_connect os fd ep w = (r, w') \<Longrightarrow> silent w w'"
  "sys_sndbuf os fd w = (v, w') \<Longrightarrow> silent w w'" "sys_outq os fd w = (v, w') \<Longrightarrow> silent w w'"
  "sys_epoll_add os fd ev w = (ok, w') \<Longrightarrow> silent w w'" "sys_epoll_mod os fd ev w = (ok, w') \<Longrightarrow> silent w w'"
  "is_readable os fd w = (ok, w') \<Longrightarrow> silent w w'" "sys_recv fd k w = (x', w') \<Longrightarrow> silent w w'"
  "sys_recv_stream fd k w = (x', w') \<Longrightarrow> silent w w'" "sys_socket os w = (n, w') \<Longrightarrow> silent w w'"
  "sys_tun_read os k w = (x', w') \<Longrightarrow> silent w w'"
  by (auto simp: silent_def sys_defs sys_recv_def sys_recv_stream_def sys_socket_def sys_tun_read_def new_sid_def
      split: prod.splits answer.splits if_splits)

lemma silent_direct [simp]: "silent w (sys_close fd w)" "silent w (sys_setsockopt fd opt w)" "silent w w"
  by (simp_all add: silent_def sys_close_def sys_setsockopt_def)

lemma silent_trans: "silent w v \<Longrightarrow> silent v u \<Longrightarrow> silent w u"
  by (auto simp: silent_def)

lemma silent_drain: "silent w (drain fd w)"
proof (induction fd w rule: drain.induct)
  case (1 fd w)
  obtain r v where r: "sys_recv_stream fd 512 w = (r, v)" by force
  have s: "silent w v" by (rule silent_sys(15) [OF r])
  show ?case
    using 1 [OF r [symmetric]] s silent_trans [OF s]
    by (subst drain.simps) (auto simp: r split: rx.split)
qed

section \<open>TCP\<close>

lemma write_tcp_kept:
  assumes "write_tcp os t data syn ack fin rst w = (r, w')"
    "addr_size (t_version t) \<le> length (t_saddr t)" "addr_size (t_version t) \<le> length (t_daddr t)"
  shows "tick w \<le> tick w' \<and> (\<exists>es. trace w' = trace w @ es) \<and> (tun_ok w \<longrightarrow> tun_ok w')"
  using assms(1) tcp_packet_ok [OF assms(2,3), of data syn ack fin rst]
  by (auto simp: write_tcp_def sys_tun_write_def Let_def split: if_splits)

lemma write_tcp_framed [framing]:
  assumes "write_tcp os t data syn ack fin rst w = (r, w')"
  shows "framed (tcp_flow t) w (tcp_flow t) w'"
proof -
  have "tick w \<le> tick w' \<and> (\<exists>es. trace w' = trace w @ es)"
    using assms by (auto simp: write_tcp_def sys_tun_write_def Let_def split: if_splits)
  then show ?thesis
    using write_tcp_kept [OF assms] by (simp add: framed_def tcp_flow_def)
qed

lemma writers_framed [framing]:
  "write_syn_ack os t w = (r, t', w') \<Longrightarrow> framed (tcp_flow t) w (tcp_flow t') w'"
  "write_ack os t w = (r, t', w') \<Longrightarrow> framed (tcp_flow t) w (tcp_flow t') w'"
  "write_data os t d w = (r, t', w') \<Longrightarrow> framed (tcp_flow t) w (tcp_flow t') w'"
  "write_fin_ack os t w = (r, t', w') \<Longrightarrow> framed (tcp_flow t) w (tcp_flow t') w'"
  by (auto simp: write_syn_ack_def write_ack_def write_data_def write_fin_ack_def
      split: prod.splits if_splits dest!: write_tcp_framed)

lemma write_rst_framed [framing]:
  "write_rst os t w = (t', w') \<Longrightarrow> framed (tcp_flow t) w (tcp_flow t') w'"
  by (auto simp: write_rst_def Let_def split: prod.splits if_splits dest!: write_tcp_framed)

lemmas frame_defs = framed_def silent_def

lemma tcp_expire_framed [framing]:
  "tcp_expire os now timeout s w = (s', w') \<Longrightarrow> sid s' = sid s \<and> framed (tcp_flow (sess s)) w (tcp_flow (sess s')) w'"
  by (auto simp: tcp_expire_def split: prod.splits if_splits dest!: framing)

lemma tcp_close_socket_framed [framing]:
  "tcp_close_socket os s w = (s', w') \<Longrightarrow> sid s' = sid s \<and> framed (tcp_flow (sess s)) w (tcp_flow (sess s')) w'"
  using silent_direct(1) [of w "socket s"]
  by (auto simp: tcp_close_socket_def frame_defs split: prod.splits if_splits dest!: framing)

lemma tcp_reset_counts_flow [simp]: "tcp_flow (tcp_reset_counts t) = tcp_flow t"
  by (simp add: tcp_reset_counts_def)

lemma check_tcp_session_framed [framing]:
  "check_tcp_session os s n m w = Some (del, s', w') \<Longrightarrow>
     sid s' = sid s \<and> framed (tcp_flow (sess s)) w (tcp_flow (sess s')) w'"
  by (auto simp: check_tcp_session_def frame_defs split: prod.splits Option.bind_splits dest!: framing)

lemma buffers_silent [framing]:
  "get_receive_buffer os s w = (b, w') \<Longrightarrow> silent w w'"
  "get_receive_window os x w = (win, w') \<Longrightarrow> silent w w'"
  by (auto simp: get_receive_buffer_def get_receive_window_def frame_defs Let_def split: prod.splits if_splits dest!: framing)

lemma tcp_keep_alive_framed [framing]:
  "tcp_keep_alive os t w = (t', w') \<Longrightarrow> framed (tcp_flow t) w (tcp_flow t') w'"
  by (auto simp: tcp_keep_alive_def frame_defs Let_def split: prod.splits if_splits dest!: framing)

lemma monitor_events_framed [framing]:
  "monitor_events os s w = (r, ev, s', w') \<Longrightarrow> sid s' = sid s \<and> framed (tcp_flow (sess s)) w (tcp_flow (sess s')) w'"
  by (auto simp: monitor_events_def frame_defs split: prod.splits if_splits dest!: framing)

lemma monitor_tcp_session_framed [framing]:
  "monitor_tcp_session os s w = (r, s', w') \<Longrightarrow> sid s' = sid s \<and> framed (tcp_flow (sess s)) w (tcp_flow (sess s')) w'"
  by (auto simp: monitor_tcp_session_def frame_defs Let_def split: prod.splits if_splits dest!: framing)

lemma tcp_connect_reply_framed [framing]:
  assumes "tcp_connect_reply os s w = (s', w')"
  shows "sid s' = sid s \<and> framed (tcp_flow (sess s)) w (tcp_flow (sess s')) w'"
proof -
  obtain r v where r: "sys_recv_stream (socket s) 12 w = (r, v)" by force
  have v: "silent w v" "silent w (drain (socket s) v)"
    using silent_sys(15) [OF r] silent_trans [OF _ silent_drain] by blast+
  show ?thesis
    using assms v
    by (auto simp: tcp_connect_reply_def r silent_framed frame_defs split: prod.splits if_splits rx.splits dest!: framing)
qed

lemma tcp_connected_framed [framing]:
  "tcp_connected os s w = (s', w') \<Longrightarrow> sid s' = sid s \<and> framed (tcp_flow (sess s)) w (tcp_flow (sess s')) w'"
  by (auto simp: tcp_connected_def frame_defs Let_def split: prod.splits if_splits dest!: framing)

lemma forward_data_framed [framing]:
  "forward_data os fd ss t b fwd w = Some (fwd', t', w') \<Longrightarrow> framed (tcp_flow t) w (tcp_flow t') w'"
proof (induction ss arbitrary: t b fwd w)
  case (Cons q qs)
  from Cons.prems show ?case
    by (auto simp: frame_defs Let_def split: prod.splits if_splits Option.bind_splits dest!: framing Cons.IH)
qed auto

lemma tcp_forward_framed [framing]:
  "tcp_forward os events s w = Some (fwd, s', w') \<Longrightarrow> sid s' = sid s \<and> framed (tcp_flow (sess s)) w (tcp_flow (sess s')) w'"
  by (auto simp: tcp_forward_def frame_defs split: prod.splits if_splits Option.bind_splits dest!: framing)

lemma tcp_ack_forwarded_framed [framing]:
  "tcp_ack_forwarded os fwd s w = (s', w') \<Longrightarrow> sid s' = sid s \<and> framed (tcp_flow (sess s)) w (tcp_flow (sess s')) w'"
  by (auto simp: tcp_ack_forwarded_def frame_defs Let_def split: prod.splits if_splits dest!: framing)

lemma tcp_eof_framed [framing]:
  "tcp_eof os s w = (s', w') \<Longrightarrow> sid s' = sid s \<and> framed (tcp_flow (sess s)) w (tcp_flow (sess s')) w'"
  by (auto simp: tcp_eof_def frame_defs Let_def sys_close_def split: prod.splits if_splits dest!: framing)

lemma tcp_received_framed [framing]:
  "tcp_received os s r w = (s', w') \<Longrightarrow> sid s' = sid s \<and> framed (tcp_flow (sess s)) w (tcp_flow (sess s')) w'"
  by (auto simp: tcp_received_def frame_defs Let_def split: prod.splits if_splits rx.splits dest!: framing)

lemma tcp_read_framed [framing]:
  "tcp_read os events s w = (s', w') \<Longrightarrow> sid s' = sid s \<and> framed (tcp_flow (sess s)) w (tcp_flow (sess s')) w'"
  by (auto simp: tcp_read_def frame_defs Let_def split: prod.splits if_splits dest!: framing)

lemma check_tcp_socket_framed [framing]:
  "check_tcp_socket os events s w = Some (s', w') \<Longrightarrow> sid s' = sid s \<and> framed (tcp_flow (sess s)) w (tcp_flow (sess s')) w'"
  by (auto simp: check_tcp_socket_def frame_defs split: prod.splits if_splits Option.bind_splits dest!: framing)

lemma queue_packet_flow [framing]: "queue_packet pkt off datalen h t = Some t' \<Longrightarrow> tcp_flow t' = tcp_flow t"
  by (auto dest: queue_packet_forward)

lemma send_connect_framed [framing]:
  "send_connect os hostname s w = Some (s', w') \<Longrightarrow> sid s' = sid s \<and> framed (tcp_flow (sess s)) w (tcp_flow (sess s')) w'"
  by (auto simp: send_connect_def frame_defs Let_def split: prod.splits if_splits dest!: framing)

lemma tcp_fin_framed [framing]:
  "tcp_fin os t w = (t', w') \<Longrightarrow> framed (tcp_flow t) w (tcp_flow t') w'"
  by (auto simp: tcp_fin_def frame_defs split: prod.splits if_splits dest!: framing)

lemma tcp_acknowledge_flow [simp]: "tcp_flow (tcp_acknowledge ack t) = tcp_flow t"
  by (simp add: tcp_acknowledge_def Let_def)

lemma tcp_other_ack_framed [framing]:
  "tcp_other_ack os ack s w = (s', w') \<Longrightarrow> sid s' = sid s \<and> framed (tcp_flow (sess s)) w (tcp_flow (sess s')) w'"
  by (auto simp: tcp_other_ack_def frame_defs Let_def sys_setsockopt_def split: prod.splits if_splits dest!: framing)

lemma tcp_flags_in_framed [framing]:
  "tcp_flags_in os h s w = (s', w') \<Longrightarrow> sid s' = sid s \<and> framed (tcp_flow (sess s)) w (tcp_flow (sess s')) w'"
  by (auto simp: tcp_flags_in_def split: prod.splits if_splits dest!: framing)

lemma tcp_found_framed [framing]:
  "tcp_found os pkt off datalen h s w = Some (s', w') \<Longrightarrow> sid s' = sid s \<and> framed (tcp_flow (sess s)) w (tcp_flow (sess s')) w'"
  by (auto simp: tcp_found_def frame_defs Let_def split: prod.splits if_splits Option.bind_splits dest!: framing)

lemma tcp_packet_in_framed [framing]:
  "tcp_packet_in os hostname pkt off datalen h s w = Some (s', w') \<Longrightarrow>
     sid s' = sid s \<and> framed (tcp_flow (sess s)) w (tcp_flow (sess s')) w'"
  by (auto simp: tcp_packet_in_def frame_defs split: prod.splits if_splits Option.bind_splits dest!: framing)

lemma open_tcp_socket_silent [framing]: "open_tcp_socket os t al w = (sock, w') \<Longrightarrow> silent w w'"
  by (auto simp: open_tcp_socket_def silent_def Let_def split: prod.splits if_splits dest!: framing)

section \<open>UDP\<close>

lemma write_udp_framed [framing]:
  assumes "write_udp os u data w = (r, w')"
  shows "framed (udp_flow u) w (udp_flow u) w'"
  using assms udp_packet_ok [of u data]
  by (auto simp: write_udp_def sys_tun_write_def framed_def addrs_ok_flows Let_def split: if_splits)

lemma check_udp_session_framed [framing]:
  "check_udp_session os s n m w = Some (del, s', w') \<Longrightarrow>
     sid s' = sid s \<and> framed (udp_flow (sess s)) w (udp_flow (sess s')) w'"
  by (auto simp: check_udp_session_def udp_expire_def udp_close_socket_def udp_reset_counts_def frame_defs sys_close_def
      Let_def split: prod.splits if_splits Option.bind_splits dest!: framing)

lemma udp_received_framed [framing]:
  "udp_received os r u w = Some (u', w') \<Longrightarrow> framed (udp_flow u) w (udp_flow u') w'"
  by (auto simp: udp_received_def Let_def split: prod.splits if_splits Option.bind_splits rx.splits dest!: framing)

lemma check_udp_socket_framed [framing]:
  "check_udp_socket os events s w = Some (s', w') \<Longrightarrow> sid s' = sid s \<and> framed (udp_flow (sess s)) w (udp_flow (sess s')) w'"
  by (auto simp: check_udp_socket_def frame_defs split: prod.splits if_splits Option.bind_splits dest!: framing)

lemma udp_forward_framed [framing]:
  "udp_forward os data s w = (s', w') \<Longrightarrow> sid s' = sid s \<and> framed (udp_flow (sess s)) w (udp_flow (sess s')) w'"
  by (auto simp: udp_forward_def frame_defs Let_def split: prod.splits if_splits dest!: framing)

lemma udp_packet_in_framed [framing]:
  "udp_packet_in os pkt off datalen h s w = Some (s', w') \<Longrightarrow>
     sid s' = sid s \<and> framed (udp_flow (sess s)) w (udp_flow (sess s')) w'"
  by (auto simp: udp_packet_in_def Let_def split: prod.splits if_splits Option.bind_splits dest!: framing check_dhcp_kept)

lemma udp_found_framed [framing]:
  "udp_found os pkt len off h s w = Some (s', w') \<Longrightarrow> sid s' = sid s \<and> framed (udp_flow (sess s)) w (udp_flow (sess s')) w'"
  by (auto simp: udp_found_def split: if_splits dest!: framing)

lemma open_udp_socket_silent [framing]: "open_udp_socket os u w = (sock, w') \<Longrightarrow> silent w w'"
  by (auto simp: open_udp_socket_def silent_def sys_setsockopt_def Let_def split: prod.splits if_splits dest!: framing)

section \<open>ICMP\<close>

lemma write_icmp_framed:
  assumes "write_icmp os u (icmp_answer os u bytes) w = (r, w')"
    "length bytes \<le> (if i_version u = 4 then ICMP4_MAXMSG else ICMP6_MAXMSG)"
  shows "framed (icmp_flow u) w (icmp_flow u) w'"
  using assms(1) icmp_answer_packet_ok [OF _ _ assms(2), of os]
  by (auto simp: write_icmp_def sys_tun_write_def framed_def icmp_flow_def Let_def split: if_splits)

text \<open>A session that is stopped stays so.\<close>

lemma check_icmp_session_framed [framing]:
  "check_icmp_session os s n m w = Some (del, s', w') \<Longrightarrow>
     sid s' = sid s \<and> framed (icmp_flow (sess s)) w (icmp_flow (sess s')) w' \<and> (i_stop (sess s) \<longrightarrow> i_stop (sess s'))"
  by (auto simp: check_icmp_session_def frame_defs sys_close_def split: prod.splits if_splits Option.bind_splits dest!: framing)

lemma check_icmp_socket_framed [framing]:
  assumes "check_icmp_socket os events s w = Some (s', w')"
  shows "sid s' = sid s \<and> framed (icmp_flow (sess s)) w (icmp_flow (sess s')) w' \<and> (i_stop (sess s) \<longrightarrow> i_stop (sess s'))"
proof -
  obtain n v where n: "sys_time os w = (n, v)" by force
  let ?u = "(sess s)\<lparr>i_time := n\<rparr>" and ?max = "if i_version (sess s) = 4 then ICMP4_MAXMSG else ICMP6_MAXMSG"
  obtain r u where r: "sys_recv (socket s) ?max v = (r, u)" by force
  have io: "silent w v" "silent v u" using n r by (auto dest!: framing)
  obtain res x where x: "write_icmp os ?u (icmp_answer os ?u (case r of Rx_Data bytes \<Rightarrow> bytes | _ \<Rightarrow> [])) u = (res, x)"
    by force
  have "framed (icmp_flow ?u) u (icmp_flow ?u) x"
    by (rule write_icmp_framed [OF x]) (use sys_recv_length [of _ _ v] r in \<open>auto split: rx.split\<close>)
  then show ?thesis
    using assms io n r x
    by (auto simp: check_icmp_socket_def frame_defs Let_def split: if_splits rx.splits)
qed

lemma icmp_packet_in_framed [framing]:
  "icmp_packet_in os version daddr msg s w = (s', w') \<Longrightarrow>
     sid s' = sid s \<and> framed (icmp_flow (sess s)) w (icmp_flow (sess s')) w' \<and> (i_stop (sess s) \<longrightarrow> i_stop (sess s'))"
  by (auto simp: icmp_packet_in_def frame_defs Let_def split: prod.splits if_splits dest!: framing)

lemma open_icmp_socket_silent [framing]: "open_icmp_socket os u w = (sock, w') \<Longrightarrow> silent w w'"
  by (auto simp: open_icmp_socket_def silent_def Let_def split: prod.splits if_splits dest!: framing)

end
