(* ===== verification/Tcp_Proxy.thy ===== *)
theory Tcp_Proxy
  imports Tcp_Stream Framing
begin

text \<open>
  What the trace says of the CONNECT request of a session: a session that has the request sent has sent
  it on its own socket, and one that has it answered has had something from that socket since. \<open>met\<close> states
  this of a session and a history of effects; every operation of \<^verbatim>\<open>tcp.c\<close> keeps it when the history grows by
  the operation's effects (\<open>meets\<close>). Most operations do not touch the request at all and hand no data to the
  app (\<open>plain\<close>, collected in \<open>plain\<close>).
\<close>

section \<open>The request and its answer in a history\<close>

definition requested :: "u16 \<Rightarrow> int \<Rightarrow> effect list \<Rightarrow> bool" where
  "requested port fd es \<longleftrightarrow>
     (\<exists>xs name n ys. es = xs @ Sock_Send fd (connect_request name port) False n # ys \<and> 0 \<le> n)"

text \<open>After the request a \<open>recv\<close> of the same socket has returned without an error.\<close>

definition answered :: "u16 \<Rightarrow> int \<Rightarrow> effect list \<Rightarrow> bool" where
  "answered port fd es \<longleftrightarrow> (\<exists>xs d ys. es = xs @ Sock_Recv fd (Rx_Data d) # ys \<and> requested port fd xs)"

fun handshake :: "u16 \<Rightarrow> int \<Rightarrow> connect_state \<Rightarrow> effect list \<Rightarrow> bool" where
  "handshake port fd TCP_CONNECT_NOT_SENT es = True"
| "handshake port fd TCP_CONNECT_SENT es = requested port fd es"
| "handshake port fd TCP_CONNECT_ESTABLISHED es = answered port fd es"

text \<open>The socket is the one that the session holds, if it still holds one.\<close>

definition met :: "tcp_session ng_session \<Rightarrow> effect list \<Rightarrow> bool" where
  "met s es \<longleftrightarrow> (\<exists>fd. (socket s = fd \<or> socket s = - 1) \<and> handshake (t_dest (sess s)) fd (connect_sent (sess s)) es)"

lemma requested_append: "requested port fd es \<Longrightarrow> requested port fd (es @ es')"
  by (fastforce simp: requested_def)

lemma answered_append: "answered port fd es \<Longrightarrow> answered port fd (es @ es')"
  by (fastforce simp: answered_def)

lemma handshake_append: "handshake port fd c es \<Longrightarrow> handshake port fd c (es @ es')"
  by (cases c) (simp_all add: requested_append answered_append)

section \<open>Operations that leave the request alone\<close>

definition unheard :: "io \<Rightarrow> io \<Rightarrow> bool" where
  "unheard w w' \<longleftrightarrow> (\<exists>es. trace w' = trace w @ es \<and> app_data es = [])"

definition plain :: "tcp_session \<Rightarrow> io \<Rightarrow> tcp_session \<Rightarrow> io \<Rightarrow> bool" where
  "plain t w t' w' \<longleftrightarrow> tcp_flow t' = tcp_flow t \<and> connect_sent t' = connect_sent t \<and>
     (\<exists>es. trace w' = trace w @ es \<and> (addrs_ok (tcp_flow t) \<longrightarrow> app_data es = []))"

named_theorems plain "operations that leave the request alone and hand no data to the app"

lemmas plain_defs = plain_def unheard_def

lemma app_data_simps [simp]: "app_data [] = []" "app_data (e # es) = app_gets e @ app_data es"
  "app_data (xs @ ys) = app_data xs @ app_data ys"
  by (simp_all add: app_data_def)

lemma unheard_refl [simp]: "unheard w w"
  by (simp add: unheard_def)

lemma unheard_trans: "unheard w v \<Longrightarrow> unheard v u \<Longrightarrow> unheard w u"
  by (fastforce simp: unheard_def)

lemma plain_refl [simp]: "plain t w t w"
  by (simp add: plain_def)

lemma unheard_sys [plain]:
  "sys_time os w = (n, w') \<Longrightarrow> unheard w w'" "sys_ms os w = (n, w') \<Longrightarrow> unheard w w'"
  "sys_sndbuf os fd w = (v, w') \<Longrightarrow> unheard w w'" "sys_outq os fd w = (v, w') \<Longrightarrow> unheard w w'"
  "sys_epoll_mod os fd ev w = (ok, w') \<Longrightarrow> unheard w w'" "sys_send os fd b m w = (r, w') \<Longrightarrow> unheard w w'"
  "sys_recv_stream fd k w = (x, w') \<Longrightarrow> unheard w w'"
  by (auto simp: unheard_def sys_defs sys_recv_stream_def Let_def split: prod.splits)

lemma unheard_direct [simp]: "unheard w (sys_close fd w)" "unheard w (sys_setsockopt fd opt w)"
  by (simp_all add: unheard_def sys_close_def sys_setsockopt_def)

lemma unheard_drain: "unheard w (drain fd w)"
proof (induction fd w rule: drain.induct)
  case (1 fd w)
  obtain r v where r: "sys_recv_stream fd 512 w = (r, v)" by force
  have s: "unheard w v" by (rule unheard_sys(7) [OF r])
  show ?case
    using 1 [OF r [symmetric]] s unheard_trans [OF s]
    by (subst drain.simps) (auto simp: r split: rx.split)
qed

lemma buffers_unheard [plain]:
  "get_receive_buffer os s w = (b, w') \<Longrightarrow> unheard w w'"
  "get_receive_window os x w = (win, w') \<Longrightarrow> unheard w w'"
  by (auto simp: get_receive_buffer_def get_receive_window_def plain_defs Let_def split: prod.splits if_splits dest!: plain)

lemma write_tcp_unheard:
  "write_tcp os t [] syn ack fin rst w = (r, w') \<Longrightarrow>
     \<exists>es. trace w' = trace w @ es \<and> (addrs_ok (tcp_flow t) \<longrightarrow> app_data es = [])"
  using seg_read_packet [of t "[]" syn ack fin rst]
  by (auto simp: write_tcp_def sys_tun_write_def addrs_ok_flows Let_def split: if_splits)

lemma writers_plain [plain]:
  "write_syn_ack os t w = (r, t', w') \<Longrightarrow> plain t w t' w'"
  "write_ack os t w = (r, t', w') \<Longrightarrow> plain t w t' w'"
  "write_fin_ack os t w = (r, t', w') \<Longrightarrow> plain t w t' w'"
  "write_rst os t w = (t', w') \<Longrightarrow> plain t w t' w'"
  by (auto simp: write_syn_ack_def write_ack_def write_fin_ack_def write_rst_def plain_def Let_def
      split: prod.splits if_splits dest!: write_tcp_unheard)

lemma tcp_expire_plain [plain]:
  "tcp_expire os now timeout s w = (s', w') \<Longrightarrow> socket s' = socket s \<and> plain (sess s) w (sess s') w'"
  by (auto simp: tcp_expire_def plain_def split: prod.splits if_splits dest!: plain)

lemma tcp_close_socket_plain [plain]:
  "tcp_close_socket os s w = (s', w') \<Longrightarrow> (socket s' = socket s \<or> socket s' = - 1) \<and> plain (sess s) w (sess s') w'"
  using unheard_direct(1) [of w "socket s"]
  by (auto simp: tcp_close_socket_def plain_defs split: prod.splits if_splits dest!: plain)

lemma check_tcp_session_plain [plain]:
  assumes "check_tcp_session os s n m w = Some (del, s', w')"
  shows "(socket s' = socket s \<or> socket s' = - 1) \<and> plain (sess s) w (sess s') w'"
proof -
  obtain now w1 timeout s1 w2 s2 where "sys_time os w = (now, w1)" "tcp_expire os now timeout s w1 = (s1, w2)"
    "tcp_close_socket os s1 w2 = (s2, w')" "s' = s2\<lparr>sess := tcp_reset_counts (sess s2)\<rparr>"
    by (rule check_tcp_session_blocks [OF assms])
  then show ?thesis by (auto simp: plain_defs tcp_reset_counts_def dest!: plain)
qed

lemma tcp_keep_alive_plain [plain]:
  "tcp_keep_alive os t w = (t', w') \<Longrightarrow> plain t w t' w'"
  by (auto simp: tcp_keep_alive_def plain_defs Let_def split: prod.splits if_splits dest!: plain)

lemma monitor_events_plain [plain]:
  "monitor_events os s w = (r, ev, s', w') \<Longrightarrow> socket s' = socket s \<and> plain (sess s) w (sess s') w'"
  by (auto simp: monitor_events_def plain_defs split: prod.splits if_splits dest!: plain)

lemma monitor_tcp_session_plain [plain]:
  "monitor_tcp_session os s w = (r, s', w') \<Longrightarrow> socket s' = socket s \<and> plain (sess s) w (sess s') w'"
  by (auto simp: monitor_tcp_session_def plain_defs Let_def split: prod.splits if_splits dest!: plain)

lemma tcp_connected_plain [plain]:
  "tcp_connected os s w = (s', w') \<Longrightarrow> socket s' = socket s \<and> plain (sess s) w (sess s') w'"
  by (auto simp: tcp_connected_def plain_defs Let_def split: prod.splits if_splits dest!: plain)

lemma forward_data_plain [plain]:
  "forward_data os fd ss t b fwd w = Some (fwd', t', w') \<Longrightarrow> plain t w t' w'"
proof (induction ss arbitrary: t b fwd w)
  case (Cons q qs)
  from Cons.prems show ?case
    by (auto simp: plain_defs Let_def split: prod.splits if_splits Option.bind_splits dest!: plain Cons.IH)
qed (auto simp: plain_def)

lemma tcp_forward_plain [plain]:
  "tcp_forward os events s w = Some (fwd, s', w') \<Longrightarrow> socket s' = socket s \<and> plain (sess s) w (sess s') w'"
  by (auto simp: tcp_forward_def plain_defs split: prod.splits if_splits Option.bind_splits dest!: plain)

lemma tcp_ack_forwarded_plain [plain]:
  "tcp_ack_forwarded os fwd s w = (s', w') \<Longrightarrow> socket s' = socket s \<and> plain (sess s) w (sess s') w'"
  by (auto simp: tcp_ack_forwarded_def plain_defs Let_def split: prod.splits if_splits dest!: plain)

lemma tcp_eof_plain [plain]:
  "tcp_eof os s w = (s', w') \<Longrightarrow> socket s' = - 1 \<and> plain (sess s) w (sess s') w'"
  by (auto simp: tcp_eof_def plain_defs Let_def sys_close_def split: prod.splits if_splits dest!: plain)

lemma queue_packet_plain [plain]: "queue_packet pkt off datalen h t = Some t' \<Longrightarrow> plain t w t' w"
  by (auto simp: plain_def dest: queue_packet_forward)

lemma tcp_fin_plain [plain]:
  "tcp_fin os t w = (t', w') \<Longrightarrow> plain t w t' w'"
  by (auto simp: tcp_fin_def plain_defs split: prod.splits if_splits dest!: plain)

lemma tcp_acknowledge_plain: "plain t w (tcp_acknowledge ack t) w"
  by (simp add: tcp_acknowledge_def plain_def Let_def)

lemma tcp_other_ack_plain [plain]:
  "tcp_other_ack os ack s w = (s', w') \<Longrightarrow> socket s' = socket s \<and> plain (sess s) w (sess s') w'"
  by (auto simp: tcp_other_ack_def plain_defs Let_def sys_setsockopt_def split: prod.splits if_splits dest!: plain)

lemma tcp_flags_in_plain [plain]:
  "tcp_flags_in os h s w = (s', w') \<Longrightarrow> socket s' = socket s \<and> plain (sess s) w (sess s') w'"
  using tcp_acknowledge_plain [of "sess s" w]
  by (auto simp: tcp_flags_in_def plain_defs split: prod.splits if_splits dest!: plain)

lemma tcp_found_plain [plain]:
  "tcp_found os pkt off datalen h s w = Some (s', w') \<Longrightarrow> socket s' = socket s \<and> plain (sess s) w (sess s') w'"
  by (auto simp: tcp_found_def plain_defs Let_def split: prod.splits if_splits Option.bind_splits dest!: plain)

section \<open>What every operation keeps\<close>

definition meets :: "tcp_session ng_session \<Rightarrow> io \<Rightarrow> tcp_session ng_session \<Rightarrow> io \<Rightarrow> bool" where
  "meets s w s' w' \<longleftrightarrow> (\<exists>es. trace w' = trace w @ es \<and> (\<forall>h. met s h \<longrightarrow> met s' (h @ es)))"

lemma meets_trans:
  assumes "meets s w s1 w1" "meets s1 w1 s' w'"
  shows "meets s w s' w'"
proof -
  obtain es1 where 1: "trace w1 = trace w @ es1" "\<And>h. met s h \<Longrightarrow> met s1 (h @ es1)"
    using assms(1) by (auto simp: meets_def)
  obtain es2 where 2: "trace w' = trace w1 @ es2" "\<And>h. met s1 h \<Longrightarrow> met s' (h @ es2)"
    using assms(2) by (auto simp: meets_def)
  have "met s' (h @ es1 @ es2)" if "met s h" for h using 2(2) [OF 1(2) [OF that]] by simp
  then show ?thesis using 1(1) 2(1) by (auto simp: meets_def)
qed

text \<open>Weaker than \<open>plain\<close>: data may go to the app.\<close>

definition steady :: "tcp_session \<Rightarrow> io \<Rightarrow> tcp_session \<Rightarrow> io \<Rightarrow> bool" where
  "steady t w t' w' \<longleftrightarrow> tcp_flow t' = tcp_flow t \<and> connect_sent t' = connect_sent t \<and> (\<exists>es. trace w' = trace w @ es)"

lemma plain_steady: "plain t w t' w' \<Longrightarrow> steady t w t' w'"
  by (auto simp: plain_def steady_def)

lemma steady_meets:
  assumes "steady (sess s) w (sess s') w'" "socket s' = socket s \<or> socket s' = - 1"
  shows "meets s w s' w'"
proof -
  obtain es where es: "trace w' = trace w @ es" using assms(1) by (auto simp: steady_def)
  have k: "t_dest (sess s') = t_dest (sess s)" "connect_sent (sess s') = connect_sent (sess s)"
    using assms(1) by (simp_all add: steady_def tcp_flow_def)
  have "met s' (h @ es)" if "met s h" for h
    using that handshake_append assms(2) unfolding met_def k by metis
  then show ?thesis using es by (auto simp: meets_def)
qed

lemmas plain_meets = steady_meets [OF plain_steady]

text \<open>The request, which goes out on the session's socket, or the session is left without it.\<close>

lemma send_connect_asks:
  assumes "send_connect os hostname s w = Some (s', w')"
  shows "socket s' = socket s \<and> plain (sess s) w (sess s') w' \<or>
    (\<exists>name n. tcp_flow (sess s') = tcp_flow (sess s) \<and> socket s' = socket s \<and> 0 \<le> socket s \<and> 0 \<le> n \<and>
      connect_sent (sess s) = TCP_CONNECT_NOT_SENT \<and> connect_sent (sess s') = TCP_CONNECT_SENT \<and>
      t_state (sess s') = TCP_LISTEN \<and>
      trace w' = trace w @ [Sock_Send (socket s) (connect_request name (t_dest (sess s))) False n])"
proof -
  define name where "name = (if hostname = [] then lookup_hostname (t_daddr (sess s)) else hostname)"
  let ?t = "(sess s)\<lparr>t_hostname := name\<rparr>" and ?buf = "connect_request name (t_dest (sess s))"
  obtain n e v where v: "sys_send os (socket s) ?buf False w = ((n, e), v)" by (metis surj_pair)
  obtain t u where t: "write_rst os ?t v = (t, u)" by force
  have tv: "trace v = trace w @ [Sock_Send (socket s) ?buf False n]" using sys_send_result [OF v] by simp
  have sock: "0 \<le> n \<Longrightarrow> 0 \<le> socket s" using v by (auto simp: sys_send_def Let_def split: if_splits)
  have "plain (sess s) w ?t w" by (simp add: plain_def)
  moreover have "plain (sess s) w t u"
    using writers_plain(4) [OF t] tv by (auto simp: plain_def)
  moreover have "(s', w') \<in> {(s\<lparr>sess := ?t\<rparr>, w), (s\<lparr>sess := t\<rparr>, u)} \<or> 0 \<le> n \<and> connect_sent (sess s) = TCP_CONNECT_NOT_SENT \<and>
      (s', w') = (s\<lparr>sess := ?t\<lparr>connect_sent := TCP_CONNECT_SENT, t_state := TCP_LISTEN\<rparr>\<rparr>, v)"
    using assms unfolding send_connect_def name_def [symmetric] by (simp add: Let_def v t split: if_splits)
  ultimately show ?thesis using tv sock by auto
qed

lemma send_connect_meets:
  assumes "send_connect os hostname s w = Some (s', w')"
  shows "meets s w s' w'"
  using send_connect_asks [OF assms]
proof (elim disjE exE conjE)
  assume "socket s' = socket s" "plain (sess s) w (sess s') w'"
  then show ?thesis by (simp add: plain_meets)
next
  fix name n assume k: "tcp_flow (sess s') = tcp_flow (sess s)" "socket s' = socket s" "0 \<le> n"
    "connect_sent (sess s') = TCP_CONNECT_SENT"
    and es: "trace w' = trace w @ [Sock_Send (socket s) (connect_request name (t_dest (sess s))) False n]" (is "_ = _ @ ?es")
  have "requested (t_dest (sess s')) (socket s) (h @ ?es)" for h
    using k(1,3) by (fastforce simp: requested_def tcp_flow_def)
  then have "met s' (h @ ?es)" for h using k(2,4) by (auto simp: met_def)
  then show ?thesis using es by (auto simp: meets_def)
qed

lemma tcp_packet_in_meets:
  assumes "tcp_packet_in os hostname pkt off datalen h s w = Some (s', w')"
  shows "meets s w s' w'"
proof (cases "proxied_port (t_dest (sess s))")
  case False
  then show ?thesis using assms tcp_found_plain plain_meets by (simp add: tcp_packet_in_def)
next
  case True
  then obtain s1 w1 where c: "send_connect os hostname s w = Some (s1, w1)"
    using assms by (auto simp: tcp_packet_in_def bind_Some_iff)
  have "plain (sess s1) w1 (sess s') w' \<and> socket s' = socket s1"
    using assms c True by (auto simp: tcp_packet_in_def bind_Some_iff split: if_splits dest!: plain)
  then show ?thesis using meets_trans [OF send_connect_meets [OF c] plain_meets] by simp
qed

text \<open>The reply: the only step by which a request is answered.\<close>

lemma tcp_connect_reply_answers:
  assumes "tcp_connect_reply os s w = (s', w')"
  shows "socket s' = socket s \<and> (plain (sess s) w (sess s') w' \<or>
    0 \<le> socket s \<and> tcp_flow (sess s') = tcp_flow (sess s) \<and>
    connect_sent (sess s) = TCP_CONNECT_SENT \<and> connect_sent (sess s') = TCP_CONNECT_ESTABLISHED \<and>
    (\<exists>d es. trace w' = trace w @ Sock_Recv (socket s) (Rx_Data d) # es \<and> app_data es = []))"
proof -
  obtain r v where r: "sys_recv_stream (socket s) 12 w = (r, v)" by force
  have tv: "trace v = trace w @ [Sock_Recv (socket s) r]"
    using r by (auto simp: sys_recv_stream_def Let_def split: prod.splits)
  obtain t u where t: "write_rst os (sess s) v = (t, u)" by force
  have reset: "plain (sess s) w t u" using writers_plain(4) [OF t] tv by (auto simp: plain_def)
  show ?thesis
  proof (cases r)
    case (Rx_Err e)
    then show ?thesis using assms r t reset by (auto simp: tcp_connect_reply_def)
  next
    case (Rx_Data d)
    have "0 \<le> socket s" using r Rx_Data by (auto simp: sys_recv_stream_def Let_def split: if_splits)
    moreover obtain es where "trace (drain (socket s) v) = trace v @ es" "app_data es = []"
      using unheard_drain [of v "socket s"] by (auto simp: unheard_def)
    ultimately show ?thesis
      using assms r Rx_Data t reset tv by (cases "connect_sent (sess s) = TCP_CONNECT_SENT") (auto simp: tcp_connect_reply_def)
  qed
qed

lemma tcp_connect_reply_meets:
  assumes "tcp_connect_reply os s w = (s', w')"
  shows "meets s w s' w'"
  using tcp_connect_reply_answers [OF assms]
proof (elim conjE disjE exE)
  assume "socket s' = socket s" "plain (sess s) w (sess s') w'"
  then show ?thesis by (simp add: plain_meets)
next
  fix d es assume k: "socket s' = socket s" "0 \<le> socket s" "tcp_flow (sess s') = tcp_flow (sess s)"
    "connect_sent (sess s) = TCP_CONNECT_SENT" "connect_sent (sess s') = TCP_CONNECT_ESTABLISHED"
    and es: "trace w' = trace w @ Sock_Recv (socket s) (Rx_Data d) # es"
  have "answered (t_dest (sess s')) (socket s) (h @ Sock_Recv (socket s) (Rx_Data d) # es)" if "met s h" for h
    using that k(2-4) by (fastforce simp: met_def answered_def tcp_flow_def)
  then have "met s h \<longrightarrow> met s' (h @ Sock_Recv (socket s) (Rx_Data d) # es)" for h
    using k(1,5) by (auto simp: met_def)
  then show ?thesis using es by (auto simp: meets_def)
qed

lemma tcp_received_steady:
  assumes "tcp_received os s r w = (s', w')"
  shows "steady (sess s) w (sess s') w' \<and> (socket s' = socket s \<or> socket s' = - 1)"
proof -
  have "tcp_flow (sess s') = tcp_flow (sess s)" using tcp_received_framed [OF assms] by (simp add: framed_def)
  moreover have "connect_sent (sess s') = connect_sent (sess s) \<and> (socket s' = socket s \<or> socket s' = - 1)"
    using assms by (auto simp: tcp_received_def write_data_def plain_def Let_def
        split: rx.splits if_splits prod.splits dest!: tcp_eof_plain writers_plain(4))
  ultimately show ?thesis using tcp_received_extends [OF assms] by (simp add: steady_def)
qed

lemma tcp_read_steady:
  assumes "tcp_read os events s w = (s', w')"
  shows "steady (sess s) w (sess s') w' \<and> (socket s' = socket s \<or> socket s' = - 1)"
proof -
  obtain now v where n: "sys_time os w = (now, v)" by force
  obtain r u where r: "sys_recv_stream (socket s) (read_size (get_send_window (sess s)) (t_mss (sess s))) v = (r, u)" by force
  have "\<exists>es. trace u = trace w @ es"
    using n r by (auto simp: unheard_def dest!: plain)
  then show ?thesis
    using assms n r tcp_received_steady [of os "s\<lparr>sess := (sess s)\<lparr>t_time := now\<rparr>\<rparr>" r u s' w']
    by (auto simp: tcp_read_def steady_def Let_def split: if_splits)
qed

lemma check_tcp_socket_meets:
  assumes "check_tcp_socket os events s w = Some (s', w')"
  shows "meets s w s' w'"
proof (cases "events AND EPOLLERR \<noteq> 0")
  case True
  then have "plain (sess s) w (sess s') w' \<and> socket s' = socket s"
    using assms by (auto simp: check_tcp_socket_def plain_defs split: prod.splits dest!: plain)
  then show ?thesis by (simp add: plain_meets)
next
  case noerr: False
  show ?thesis
  proof (cases "t_state (sess s) = TCP_LISTEN")
    case True
    then show ?thesis
      using assms noerr tcp_connect_reply_meets tcp_connected_plain plain_meets
      by (auto simp: check_tcp_socket_def split: if_splits)
  next
    case False
    then obtain fwd s1 w1 where f: "tcp_forward os events s w = Some (fwd, s1, w1)"
      using assms noerr by (auto simp: check_tcp_socket_def bind_Some_iff)
    obtain s2 w2 where a: "tcp_ack_forwarded os fwd s1 w1 = (s2, w2)" by force
    have r: "tcp_read os events s2 w2 = (s', w')" using assms noerr False f a by (simp add: check_tcp_socket_def)
    have "meets s w s1 w1" "meets s1 w1 s2 w2" "meets s2 w2 s' w'"
      using tcp_forward_plain [OF f] tcp_ack_forwarded_plain [OF a] tcp_read_steady [OF r] plain_meets steady_meets by blast+
    then show ?thesis using meets_trans by blast
  qed
qed

lemma check_tcp_session_meets: "check_tcp_session os s n m w = Some (del, s', w') \<Longrightarrow> meets s w s' w'"
  using check_tcp_session_plain plain_meets by blast

lemma monitor_tcp_session_meets: "monitor_tcp_session os s w = (r, s', w') \<Longrightarrow> meets s w s' w'"
  using monitor_tcp_session_plain plain_meets by blast

text \<open>The handshake of any session, for the list of sessions.\<close>

fun met_of :: "session \<Rightarrow> effect list \<Rightarrow> bool" where
  "met_of (Tcp s) es = met s es"
| "met_of _ es = True"

lemma met_of_append: "met_of x es \<Longrightarrow> met_of x (es @ es')"
  by (cases x) (auto simp: met_def intro: handshake_append)

lemma meets_met_of: "meets s w s' w' \<Longrightarrow> met_of (Tcp s) (trace w) \<Longrightarrow> met_of (Tcp s') (trace w')"
  by (auto simp: meets_def)

lemma met_of_new: "connect_sent (sess s) = TCP_CONNECT_NOT_SENT \<Longrightarrow> met_of (Tcp s) es"
  by (auto simp: met_def)

lemmas tcp_meets = tcp_packet_in_meets check_tcp_socket_meets check_tcp_session_meets monitor_tcp_session_meets

section \<open>Nothing for the app before the answer\<close>

definition kept_back :: "u16 \<Rightarrow> int \<Rightarrow> connect_state \<Rightarrow> effect list \<Rightarrow> bool" where
  "kept_back port fd c es \<longleftrightarrow>
     (if c = TCP_CONNECT_ESTABLISHED then \<exists>xs ys. es = xs @ ys \<and> app_data xs = [] \<and> answered port fd xs
      else app_data es = [] \<and> handshake port fd c es)"

lemma kept_back_quiet: "kept_back port fd c es \<Longrightarrow> app_data es' = [] \<Longrightarrow> kept_back port fd c (es @ es')"
  by (simp add: kept_back_def handshake_append split: if_splits) (metis append.assoc)

lemma kept_back_after: "kept_back port fd TCP_CONNECT_ESTABLISHED es \<Longrightarrow> kept_back port fd TCP_CONNECT_ESTABLISHED (es @ es')"
  by (simp add: kept_back_def) (metis append.assoc)

lemma kept_back_request:
  assumes "kept_back port fd TCP_CONNECT_NOT_SENT es" "0 \<le> n"
  shows "kept_back port fd TCP_CONNECT_SENT (es @ [Sock_Send fd (connect_request name port) False n])"
  using assms by (fastforce simp: kept_back_def requested_def)

lemma kept_back_answer:
  assumes "kept_back port fd TCP_CONNECT_SENT es"
  shows "kept_back port fd TCP_CONNECT_ESTABLISHED (es @ Sock_Recv fd (Rx_Data d) # es')"
proof -
  have "answered port fd (es @ [Sock_Recv fd (Rx_Data d)])" "app_data (es @ [Sock_Recv fd (Rx_Data d)]) = []"
    using assms by (auto simp: kept_back_def answered_def)
  then show ?thesis unfolding kept_back_def
    by (simp, intro exI [of _ "es @ [Sock_Recv fd (Rx_Data d)]"]) simp
qed

text \<open>The histories of an operation on a session of socket \<open>fd\<close>.\<close>

definition keeps_back :: "int \<Rightarrow> tcp_session ng_session \<Rightarrow> io \<Rightarrow> tcp_session ng_session \<Rightarrow> io \<Rightarrow> bool" where
  "keeps_back fd s w s' w' \<longleftrightarrow> tcp_flow (sess s') = tcp_flow (sess s) \<and> (socket s' = socket s \<or> socket s' = - 1) \<and>
     (\<exists>es. trace w' = trace w @ es \<and> (\<forall>h. kept_back (t_dest (sess s)) fd (connect_sent (sess s)) h \<longrightarrow>
        kept_back (t_dest (sess s)) fd (connect_sent (sess s')) (h @ es)))"

lemma keeps_back_trans:
  assumes "keeps_back fd s w s1 w1" "keeps_back fd s1 w1 s' w'"
  shows "keeps_back fd s w s' w'"
proof -
  have k: "t_dest (sess s1) = t_dest (sess s)" using assms(1) by (simp add: keeps_back_def tcp_flow_def)
  obtain es1 where 1: "trace w1 = trace w @ es1"
    "\<And>h. kept_back (t_dest (sess s)) fd (connect_sent (sess s)) h \<Longrightarrow> kept_back (t_dest (sess s)) fd (connect_sent (sess s1)) (h @ es1)"
    using assms(1) by (auto simp: keeps_back_def)
  obtain es2 where 2: "trace w' = trace w1 @ es2"
    "\<And>h. kept_back (t_dest (sess s)) fd (connect_sent (sess s1)) h \<Longrightarrow> kept_back (t_dest (sess s)) fd (connect_sent (sess s')) (h @ es2)"
    using assms(2) by (auto simp: keeps_back_def k)
  have "kept_back (t_dest (sess s)) fd (connect_sent (sess s')) (h @ es1 @ es2)"
    if "kept_back (t_dest (sess s)) fd (connect_sent (sess s)) h" for h
    using 2(2) [OF 1(2) [OF that]] by simp
  then show ?thesis using 1(1) 2(1) assms by (auto simp: keeps_back_def)
qed

lemma plain_keeps_back:
  assumes "plain (sess s) w (sess s') w'" "socket s' = socket s \<or> socket s' = - 1" "addrs_ok (tcp_flow (sess s))"
  shows "keeps_back fd s w s' w'"
  using assms kept_back_quiet by (fastforce simp: keeps_back_def plain_def)

lemma steady_keeps_back:
  assumes "steady (sess s) w (sess s') w'" "socket s' = socket s \<or> socket s' = - 1"
    "connect_sent (sess s) = TCP_CONNECT_ESTABLISHED"
  shows "keeps_back fd s w s' w'"
  using assms kept_back_after by (fastforce simp: keeps_back_def steady_def)

lemma tcp_packet_in_keeps_back:
  assumes "tcp_packet_in os hostname pkt off datalen h s w = Some (s', w')" "addrs_ok (tcp_flow (sess s))"
    "socket s = fd \<or> socket s = - 1"
  shows "keeps_back fd s w s' w'"
proof (cases "proxied_port (t_dest (sess s))")
  case False
  then show ?thesis using assms tcp_found_plain plain_keeps_back by (simp add: tcp_packet_in_def)
next
  case True
  then obtain s1 w1 where c: "send_connect os hostname s w = Some (s1, w1)"
    using assms(1) by (auto simp: tcp_packet_in_def bind_Some_iff)
  have 1: "keeps_back fd s w s1 w1"
    using send_connect_asks [OF c]
  proof (elim disjE exE conjE)
    assume "socket s1 = socket s" "plain (sess s) w (sess s1) w1"
    then show ?thesis using assms(2) by (simp add: plain_keeps_back)
  next
    fix name n assume "tcp_flow (sess s1) = tcp_flow (sess s)" "socket s1 = socket s" "0 \<le> socket s" "0 \<le> n"
      "connect_sent (sess s) = TCP_CONNECT_NOT_SENT" "connect_sent (sess s1) = TCP_CONNECT_SENT"
      "trace w1 = trace w @ [Sock_Send (socket s) (connect_request name (t_dest (sess s))) False n]"
    then show ?thesis using kept_back_request assms(3) by (auto simp: keeps_back_def)
  qed
  have "plain (sess s1) w1 (sess s') w' \<and> socket s' = socket s1"
    using assms(1) c True by (auto simp: tcp_packet_in_def bind_Some_iff split: if_splits dest!: plain)
  moreover have "addrs_ok (tcp_flow (sess s1))" using 1 assms(2) by (simp add: keeps_back_def)
  ultimately show ?thesis using keeps_back_trans [OF 1 plain_keeps_back] by simp
qed

text \<open>An event of the socket reads for the app only if the session has its answer.\<close>

lemma check_tcp_socket_keeps_back:
  assumes "check_tcp_socket os events s w = Some (s', w')" "conf_ok (sess s)" "proxied_port (t_dest (sess s))"
    "addrs_ok (tcp_flow (sess s))" "socket s = fd \<or> socket s = - 1"
  shows "keeps_back fd s w s' w'"
proof (cases "events AND EPOLLERR \<noteq> 0")
  case True
  then have "plain (sess s) w (sess s') w' \<and> socket s' = socket s"
    using assms(1) by (auto simp: check_tcp_socket_def plain_defs split: prod.splits dest!: plain)
  then show ?thesis using assms(4) by (simp add: plain_keeps_back)
next
  case noerr: False
  show ?thesis
  proof (cases "t_state (sess s) = TCP_LISTEN")
    case True
    show ?thesis
    proof (cases "events AND EPOLLIN \<noteq> 0")
      case False
      then have "tcp_connected os s w = (s', w')" using assms(1) noerr True by (simp add: check_tcp_socket_def)
      then show ?thesis using tcp_connected_plain plain_keeps_back assms(4) by blast
    next
      case inp: True
      then have "tcp_connect_reply os s w = (s', w')" using assms(1) noerr True by (simp add: check_tcp_socket_def)
      from tcp_connect_reply_answers [OF this] show ?thesis
      proof (elim conjE disjE exE)
        assume "socket s' = socket s" "plain (sess s) w (sess s') w'"
        then show ?thesis using assms(4) by (simp add: plain_keeps_back)
      next
        fix d es assume "socket s' = socket s" "0 \<le> socket s" "tcp_flow (sess s') = tcp_flow (sess s)"
          "connect_sent (sess s) = TCP_CONNECT_SENT" "connect_sent (sess s') = TCP_CONNECT_ESTABLISHED"
          "trace w' = trace w @ Sock_Recv (socket s) (Rx_Data d) # es"
        then show ?thesis using kept_back_answer assms(5) by (auto simp: keeps_back_def)
      qed
    qed
  next
    case False
    then obtain fwd s1 w1 where f: "tcp_forward os events s w = Some (fwd, s1, w1)"
      using assms(1) noerr by (auto simp: check_tcp_socket_def bind_Some_iff)
    obtain s2 w2 where a: "tcp_ack_forwarded os fwd s1 w1 = (s2, w2)" by force
    have r: "tcp_read os events s2 w2 = (s', w')" using assms(1) noerr False f a by (simp add: check_tcp_socket_def)
    have c: "conf_ok (sess s2)"
      using conf_ok_quiet [OF _ tcp_forward_conf [OF f assms(2)]] tcp_ack_forwarded_quiet [OF a] by auto
    have 1: "keeps_back fd s w s1 w1" using tcp_forward_plain [OF f] plain_keeps_back assms(4) by blast
    then have "addrs_ok (tcp_flow (sess s1))" using assms(4) by (simp add: keeps_back_def)
    then have "keeps_back fd s1 w1 s2 w2" using tcp_ack_forwarded_plain [OF a] plain_keeps_back by blast
    with 1 have 2: "keeps_back fd s w s2 w2" by (rule keeps_back_trans)
    then have d: "tcp_flow (sess s2) = tcp_flow (sess s)" by (simp add: keeps_back_def)
    show ?thesis
    proof (cases "t_state (sess s2) \<in> {TCP_ESTABLISHED, TCP_CLOSE_WAIT}")
      case True
      have "connect_sent (sess s2) = TCP_CONNECT_ESTABLISHED"
        using True c d assms(3) by (auto simp: conf_ok_def tcp_conf_def talking_def tcp_flow_def)
      then have "keeps_back fd s2 w2 s' w'" using tcp_read_steady [OF r] steady_keeps_back by blast
      with 2 show ?thesis by (rule keeps_back_trans)
    next
      case False
      then have "s' = s2" "w' = w2" using r by (auto simp: tcp_read_def Let_def)
      then show ?thesis using 2 by simp
    qed
  qed
qed

lemma tcp_act_keeps_back:
  assumes "tcp_act os P (s, w) (s', w')" "tcp_ok s w" "proxied_port (t_dest (sess s))" "socket s = fd \<or> socket s = - 1"
  shows "keeps_back fd s w s' w'"
proof -
  have g: "addrs_ok (tcp_flow (sess s))" "conf_ok (sess s)"
    using assms(2) by (simp_all add: tcp_ok_def tcp_good_def tcp_wf_def addrs_ok_flows)
  from assms(1) show ?thesis
  proof cases
    case (packet hostname pkt off datalen h)
    then show ?thesis using tcp_packet_in_keeps_back g assms(4) by blast
  next
    case (event events)
    then show ?thesis using check_tcp_socket_keeps_back g assms(3,4) by blast
  next
    case (monitored recheck)
    then show ?thesis using monitor_tcp_session_plain plain_keeps_back g by blast
  next
    case (checked n m del)
    then show ?thesis using check_tcp_session_plain plain_keeps_back g by blast
  qed
qed

lemma tcp_relay_kept_back:
  assumes "tcp_relay os P (s, w) es (s', w')" "tcp_ok s w" "connect_sent (sess s) = TCP_CONNECT_NOT_SENT"
    "proxied_port (t_dest (sess s))"
  shows "tcp_ok s' w' \<and> tcp_flow (sess s') = tcp_flow (sess s) \<and> (socket s' = socket s \<or> socket s' = - 1) \<and>
    kept_back (t_dest (sess s)) (socket s) (connect_sent (sess s')) es"
proof -
  have "tcp_ok (fst y) (snd y) \<and> tcp_flow (sess (fst y)) = tcp_flow (sess s) \<and>
      (socket (fst y) = socket s \<or> socket (fst y) = - 1) \<and>
      kept_back (t_dest (sess s)) (socket s) (connect_sent (sess (fst y))) es"
    if "tcp_relay os P x es y" "x = (s, w)" for x y
    using that
  proof (induction rule: tcp_relay.induct)
    case start
    then show ?case using assms(2,3) by (simp add: kept_back_def)
  next
    case (act es s1 w1 s2 w2 es')
    then have i: "tcp_ok s1 w1" "tcp_flow (sess s1) = tcp_flow (sess s)" "socket s1 = socket s \<or> socket s1 = - 1"
      "kept_back (t_dest (sess s)) (socket s) (connect_sent (sess s1)) es" by auto
    have "proxied_port (t_dest (sess s1))" using assms(4) i(2) by (simp add: tcp_flow_def)
    note k = tcp_act_keeps_back [OF act.hyps(2) i(1) this i(3)]
    have "tcp_ok s2 w2"
      using tcp_life_step [OF tcp_act_life [OF act.hyps(2)]] i(1) conf_ok_moves by (auto simp: tcp_ok_def)
    then show ?case using k i(2-4) act.hyps(3) by (auto simp: keeps_back_def tcp_flow_def)
  next
    case (others es s1 w1 w2)
    then show ?case by (auto simp: tcp_ok_def tcp_good_def)
  qed
  then show ?thesis using assms(1) by fastforce
qed

text \<open>C7: a session to a port of the proxy hands the app no byte before the proxy has answered: over any run of
  the session from its start, whatever the packets, events and checks, the history splits into a part in which nothing is handed to
  the app and the rest, and if there is a rest, the first part holds a CONNECT request of the session's port, sent
  successfully on its socket, and after it a \<open>recv\<close> of that socket that has returned without an error. The same
  is so if the session is established or past it. (The answer is not looked at, and an end of file counts as
  one.)\<close>

theorem app_waits_for_proxy:
  assumes "tcp_good s w" "tcp_conf (sess s) = tcp_start" "proxied_port (t_dest (sess s))"
    "tcp_relay os P (s, w) es (s', w')"
  shows "(\<exists>xs ys. es = xs @ ys \<and> app_data xs = [] \<and> (ys \<noteq> [] \<longrightarrow> answered (t_dest (sess s)) (socket s) xs)) \<and>
    (t_state (sess s') \<in> {TCP_ESTABLISHED, TCP_CLOSE_WAIT, TCP_FIN_WAIT1, TCP_LAST_ACK} \<longrightarrow>
      answered (t_dest (sess s)) (socket s) es)"
proof -
  have "tcp_ok s w" using assms(1,2) conf_inv_start by (simp add: tcp_ok_def conf_ok_def)
  moreover have "connect_sent (sess s) = TCP_CONNECT_NOT_SENT" using assms(2) by (simp add: tcp_conf_def tcp_start_def)
  ultimately have k: "conf_ok (sess s')" "tcp_flow (sess s') = tcp_flow (sess s)"
    "kept_back (t_dest (sess s)) (socket s) (connect_sent (sess s')) es"
    using tcp_relay_kept_back [OF assms(4) _ _ assms(3)] by (auto simp: tcp_ok_def)
  have "\<exists>xs ys. es = xs @ ys \<and> app_data xs = [] \<and> (ys \<noteq> [] \<longrightarrow> answered (t_dest (sess s)) (socket s) xs)"
  proof (cases "connect_sent (sess s') = TCP_CONNECT_ESTABLISHED")
    case True
    then show ?thesis using k(3) by (auto simp: kept_back_def)
  next
    case False
    then have "app_data es = []" using k(3) by (simp add: kept_back_def)
    then show ?thesis by (intro exI [of _ es] exI [of _ "[]"]) simp
  qed
  moreover have "answered (t_dest (sess s)) (socket s) es"
    if "t_state (sess s') \<in> {TCP_ESTABLISHED, TCP_CLOSE_WAIT, TCP_FIN_WAIT1, TCP_LAST_ACK}"
  proof -
    have "t_dest (sess s') = t_dest (sess s)" using k(2) by (simp add: tcp_flow_def)
    then have "connect_sent (sess s') = TCP_CONNECT_ESTABLISHED"
      using that k(1) assms(3) by (auto simp: conf_ok_def tcp_conf_def talking_def)
    then show ?thesis using k(3) answered_append by (auto simp: kept_back_def)
  qed
  ultimately show ?thesis by blast
qed

text \<open>A session to port 443: a packet without data makes it ask the proxy, and an event brings the reply.\<close>

definition example_asking :: "tcp_session ng_session" where
  "example_asking = \<lparr>sid = 1, socket = 7, ev_events = 12, sess = example_tcp\<lparr>t_state := TCP_LISTEN, t_dest := 443\<rparr>\<rparr>"

definition example_proxy_io :: io where
  "example_proxy_io = empty_io\<lparr>fds := [7], rxq := (\<lambda>_. [])(7 := [Rx_Data (cstr ''HTTP/1.0 200'')])\<rparr>"

definition example_bare :: tcphdr where
  "example_bare = \<lparr>th_source = 40000, th_dest = 443, th_seq = 1001, th_ack_seq = 0, th_doff = 5, th_fin = False, th_syn = False,
     th_rst = False, th_psh = False, th_ack = True, th_urg = False, th_window = 512\<rparr>"

lemma example_asked:
  obtains s1 w1 es1 where "tcp_packet_in calm_os (cstr ''a'') [] 0 0 example_bare example_asking example_proxy_io = Some (s1, w1)"
    "trace w1 = es1" "t_state (sess s1) = TCP_LISTEN" "connect_sent (sess s1) = TCP_CONNECT_SENT" "socket s1 = 7"
    "fds w1 = [7]" "rxq w1 7 = [Rx_Data (cstr ''HTTP/1.0 200'')]"
proof -
  let ?req = "connect_request (cstr ''a'') 443"
  have l: "length ?req = 26" "cstr ''a'' \<noteq> []" by (simp_all add: connect_request_def cstr_def decimal.simps)
  have "send_connect calm_os (cstr ''a'') example_asking example_proxy_io =
      Some (example_asking\<lparr>sess := (sess example_asking)\<lparr>t_hostname := cstr ''a'', connect_sent := TCP_CONNECT_SENT\<rparr>\<rparr>,
        step_io [Sock_Send 7 ?req False 26] example_proxy_io)"
    using l by (simp add: send_connect_def sys_send_def transfer_def calm_os_def example_asking_def example_tcp_def
        example_proxy_io_def Let_def)
  then show ?thesis
    using that
    by (simp add: tcp_packet_in_def queue_packet_def queue_tcp_def example_asking_def example_proxy_io_def example_tcp_def proxied_port_def
        empty_io_def split: if_splits)
qed

theorem app_waits_for_proxy_witness:
  "\<exists>es s' w'. tcp_relay calm_os (\<lambda>_ _. True) (example_asking, example_proxy_io) es (s', w') \<and>
    t_state (sess s') = TCP_ESTABLISHED \<and> answered 443 7 es"
proof -
  obtain s1 w1 es1 where p: "tcp_packet_in calm_os (cstr ''a'') [] 0 0 example_bare example_asking example_proxy_io = Some (s1, w1)"
    "trace w1 = es1" "t_state (sess s1) = TCP_LISTEN" "connect_sent (sess s1) = TCP_CONNECT_SENT" "socket s1 = 7"
    "fds w1 = [7]" "rxq w1 7 = [Rx_Data (cstr ''HTTP/1.0 200'')]" by (rule example_asked)
  obtain s2 w2 where e: "check_tcp_socket calm_os EPOLLIN s1 w1 = Some (s2, w2)" "t_state (sess s2) = TCP_ESTABLISHED"
    using p by (simp add: check_tcp_socket_def tcp_connect_reply_def sys_recv_stream_def EPOLLIN_def EPOLLERR_def cstr_def)
  obtain es2 where es2: "trace w2 = trace w1 @ es2" using check_tcp_socket_meets [OF e(1)] by (auto simp: meets_def)
  let ?run = "tcp_relay calm_os (\<lambda>_ _. True) (example_asking, example_proxy_io)"
  have "trace w1 = trace example_proxy_io @ es1" using p(2) by (simp add: example_proxy_io_def empty_io_def)
  then have "?run ([] @ es1) (s1, w1)"
    by (intro tcp_relay.act [OF tcp_relay.start tcp_act.packet [OF p(1)]]) simp_all
  then have r: "?run (([] @ es1) @ es2) (s2, w2)"
    by (rule tcp_relay.act [OF _ tcp_act.event [OF _ e(1)] es2]) (simp add: p(5))
  have g: "tcp_good example_asking example_proxy_io" "tcp_conf (sess example_asking) = tcp_start"
    "proxied_port (t_dest (sess example_asking))"
    by (simp_all add: example_asking_def example_proxy_io_def example_tcp_def tcp_good_def sock_ok_def socket_state_def tcp_wf_def
        tcp_addrs_def drop_bit_eq_div tcp_conf_def tcp_start_def proxied_port_def)
  have "answered 443 7 (([] @ es1) @ es2)"
    using app_waits_for_proxy [OF g r] e(2) by (simp add: example_asking_def)
  then show ?thesis using r e(2) by blast
qed

end
