(* ===== verification/Flows.thy ===== *)
theory Flows
  imports Tcp_Proxy Jni
begin

text \<open>
  The list of sessions as a table of flows. In every state of the library the sessions have
  different addresses in memory, and no two sessions that packets can find belong to the same flow (the
  protocol, the IP version, the addresses and the ports), so that the search of a handler, which
  takes the first match, takes the only one; every packet that was written to the tun device passes
  the receiver's checks; and the CONNECT request of a TCP session is where the history says it is. They are one
  invariant of the loop, \<open>flows_inv\<close>.
\<close>

section \<open>One session\<close>

fun flow_of :: "session \<Rightarrow> byte \<times> flow" where
  "flow_of (Icmp s) = (IPPROTO_ICMP, icmp_flow (sess s))"
| "flow_of (Udp s) = (IPPROTO_UDP, udp_flow (sess s))"
| "flow_of (Tcp s) = (IPPROTO_TCP, tcp_flow (sess s))"

text \<open>Whether a packet can find the session: a stopped one of ICMP is passed over.\<close>

fun reachable :: "session \<Rightarrow> bool" where
  "reachable (Icmp s) = (\<not> i_stop (sess s))"
| "reachable _ = True"

definition same_session :: "session \<Rightarrow> io \<Rightarrow> session \<Rightarrow> io \<Rightarrow> bool" where
  "same_session x w x' w' \<longleftrightarrow> sid_of x' = sid_of x \<and> fst (flow_of x') = fst (flow_of x) \<and>
     framed (snd (flow_of x)) w (snd (flow_of x')) w' \<and> (reachable x' \<longrightarrow> reachable x) \<and>
     (met_of x (trace w) \<longrightarrow> met_of x' (trace w'))"

lemma same_session_refl [simp]: "same_session x w x w"
  by (simp add: same_session_def)

lemma same_tcpI:
  "sid s' = sid s \<Longrightarrow> framed (tcp_flow (sess s)) w (tcp_flow (sess s')) w' \<Longrightarrow> meets s w s' w' \<Longrightarrow>
     same_session (Tcp s) w (Tcp s') w'"
  using meets_met_of by (simp add: same_session_def del: met_of.simps)

lemma tcp_same:
  "tcp_packet_in os hostname pkt off datalen h s w = Some (s', w') \<Longrightarrow> same_session (Tcp s) w (Tcp s') w'"
  "check_tcp_socket os events s w = Some (s', w') \<Longrightarrow> same_session (Tcp s) w (Tcp s') w'"
  "check_tcp_session os s n m w = Some (del, s', w') \<Longrightarrow> same_session (Tcp s) w (Tcp s') w'"
  "monitor_tcp_session os s w = (r, s', w') \<Longrightarrow> same_session (Tcp s) w (Tcp s') w'"
  by (rule same_tcpI; fastforce dest: framing tcp_meets)+

text \<open>The contract of an operation: it leaves the session where it is. For the periodic check, whether it
  reports it or not.\<close>

locale keeps_flow =
  fixes oper :: "session \<Rightarrow> io \<Rightarrow> (bool \<times> session \<times> io) option"
  assumes oper_same: "oper x w = Some (del, x', w') \<Longrightarrow> same_session x w x' w'"

section \<open>The list\<close>

abbreviation flows :: "session list \<Rightarrow> (byte \<times> flow) list" where
  "flows ss \<equiv> map flow_of (filter reachable ss)"

definition flows_inv :: "session list \<Rightarrow> io \<Rightarrow> bool" where
  "flows_inv ss w \<longleftrightarrow> distinct (map sid_of ss) \<and> distinct (flows ss) \<and>
     (\<forall>x \<in> set ss. sid_of x < tick w \<and> addrs_ok (snd (flow_of x)) \<and> met_of x (trace w)) \<and> tun_ok w"

lemma flows_inv_grows:
  assumes "flows_inv ss w" "tick w \<le> tick w'" "trace w' = trace w @ es" "tun_ok w'"
  shows "flows_inv ss w'"
  using assms met_of_append by (fastforce simp: flows_inv_def)

lemma flows_inv_silent: "flows_inv ss w \<Longrightarrow> silent w w' \<Longrightarrow> flows_inv ss w'"
  using flows_inv_grows by (auto simp: flows_inv_def silent_def)

lemma flows_inv_drop: "flows_inv (xs @ s # ys) w \<Longrightarrow> flows_inv (xs @ ys) w"
  by (auto simp: flows_inv_def split: if_splits)

lemma flows_inv_back:
  assumes "flows_inv (xs @ s # ys) w" "same_session s w s' w'"
  shows "flows_inv (xs @ s' # ys) w'"
proof -
  have k: "sid_of s' = sid_of s" "flow_of s' = flow_of s" "reachable s' \<longrightarrow> reachable s" "tick w \<le> tick w'"
    "tun_ok w'" "met_of s' (trace w')"
    using assms by (auto simp: same_session_def framed_def flows_inv_def prod_eq_iff)
  obtain es where "trace w' = trace w @ es" using assms(2) by (auto simp: same_session_def framed_def)
  then have 1: "flows_inv (xs @ s # ys) w'" by (rule flows_inv_grows [OF assms(1) k(4) _ k(5)])
  then have "distinct (flows (xs @ s' # ys))"
    using k by (cases "reachable s'") (auto simp: flows_inv_def split: if_splits)
  then show ?thesis using 1 k by (auto simp: flows_inv_def)
qed

lemma flows_inv_found:
  assumes "flows_inv ss w" "find P ss = Some s" "same_session s w s' w'"
  shows "flows_inv (replace_first P s' ss) w'"
proof -
  obtain xs ys where "ss = xs @ s # ys" "replace_first P s' ss = xs @ s' # ys"
    using find_split [OF assms(2)] by blast
  then show ?thesis using flows_inv_back assms(1,3) by simp
qed

text \<open>A new session: its address is the call counter's, and no session has its flow.\<close>

lemma flows_inv_new:
  assumes "flows_inv ss w" "sid_of s = tick w" "tick w < tick w'" "addrs_ok (snd (flow_of s))" "tun_ok w'"
    "flow_of s \<notin> set (flows ss)" "trace w' = trace w @ es" "met_of s (trace w')"
  shows "flows_inv (s # ss) w'"
proof -
  have "flows_inv ss w'" using flows_inv_grows [OF assms(1) _ assms(7,5)] assms(3) by simp
  then show ?thesis using assms(1-4,6,8) by (fastforce simp: flows_inv_def)
qed

context keeps_flow begin

lemma sweep_flows:
  assumes "flows_inv (xs @ ss) w" "sweep oper ss w = Some (ss', w')"
  shows "flows_inv (xs @ ss') w'"
  using assms
proof (induction ss arbitrary: xs w ss')
  case (Cons s ss)
  from Cons.prems(2) obtain del s1 w1 ss1 where c: "oper s w = Some (del, s1, w1)"
    and r: "sweep oper ss w1 = Some (ss1, w')" and ss': "ss' = (if del then ss1 else s1 # ss1)"
    by (auto simp: bind_Some_iff)
  have "flows_inv (xs @ s1 # ss) w1" by (rule flows_inv_back [OF Cons.prems(1) oper_same [OF c]])
  then show ?case
    using Cons.IH [OF _ r, of xs] Cons.IH [OF _ r, of "xs @ [s1]"] flows_inv_drop ss' by (cases del) auto
qed simp

lemmas sweep_kept = sweep_flows [where xs = "[]", simplified]

end

section \<open>The operations\<close>

interpretation monitored: keeps_flow "\<lambda>s w. map_option (Pair False) (Some (snd (monitor_session os s w)))" for os
proof
  fix x w del x' w'
  assume "map_option (Pair False) (Some (snd (monitor_session os x w))) = Some (del, x', w')"
  then obtain r where r: "monitor_session os x w = (r, x', w')" by (cases "monitor_session os x w") auto
  show "same_session x w x' w'"
  proof (cases x)
    case (Tcp s)
    then show ?thesis using r by (auto split: if_splits prod.splits dest: tcp_same)
  qed (use r in \<open>auto simp: same_session_def split: if_splits prod.splits dest!: framing\<close>)
qed

interpretation checked: keeps_flow "check_session os n m" for os n m
proof
  fix x w del x' w'
  assume r: "check_session os n m x w = Some (del, x', w')"
  show "same_session x w x' w'"
  proof (cases x)
    case (Tcp s)
    then show ?thesis using r by (auto simp: bind_Some_iff dest: tcp_same)
  qed (use r in \<open>auto simp: same_session_def bind_Some_iff dest!: framing\<close>)
qed

lemma udp_loop_framed:
  assumes "udp_loop os events s w = Some (s', w')"
  shows "sid s' = sid s \<and> framed (udp_flow (sess s)) w (udp_flow (sess s')) w'"
proof (rule udp_loop.raw_induct [rotated, OF assms, where P =
    "\<lambda>os events s w (s', w'). sid s' = sid s \<and> framed (udp_flow (sess s)) w (udp_flow (sess s')) w'", simplified])
  fix f os events s w y
  assume IH: "\<And>os events s w y. f os events s w = Some y \<Longrightarrow>
      case y of (s', w') \<Rightarrow> sid s' = sid s \<and> framed (udp_flow (sess s)) w (udp_flow (sess s')) w'"
    and body: "(if events AND EPOLLERR = 0 \<and> events AND EPOLLIN \<noteq> 0 then
        case is_readable os (socket s) w of (readable, w) \<Rightarrow>
          if readable then check_udp_socket os events s w \<bind> (\<lambda>(s, w). f os events s w) else Some (s, w)
      else Some (s, w)) = Some y"
  show "case y of (s', w') \<Rightarrow> sid s' = sid s \<and> framed (udp_flow (sess s)) w (udp_flow (sess s')) w'"
    using body
    by (auto simp: frame_defs split: if_splits prod.splits Option.bind_splits dest!: IH framing)
qed

lemma check_socket_same:
  assumes "check_socket os events x w = Some (x', w')"
  shows "same_session x w x' w'"
proof (cases x)
  case (Tcp s)
  then show ?thesis using assms by (auto simp: bind_Some_iff dest: tcp_same)
qed (use assms in \<open>auto simp: same_session_def bind_Some_iff dest!: framing udp_loop_framed\<close>)

section \<open>Packets\<close>

text \<open>The searches look for the flow of the packet.\<close>

lemma matches_flow:
  "icmp_matches version saddr daddr x \<longleftrightarrow> reachable x \<and> flow_of x = (IPPROTO_ICMP, (version, saddr, 0, daddr, 0))"
  "udp_matches version uh saddr daddr x \<longleftrightarrow>
     reachable x \<and> flow_of x = (IPPROTO_UDP, (version, saddr, uh_source uh, daddr, uh_dest uh))"
  "tcp_matches version th saddr daddr x \<longleftrightarrow>
     reachable x \<and> flow_of x = (IPPROTO_TCP, (version, saddr, th_source th, daddr, th_dest th))"
  by (cases x; auto simp: icmp_flow_def udp_flow_def tcp_flow_def IPPROTO_ICMP_def IPPROTO_UDP_def IPPROTO_TCP_def)+

lemma not_found_flow:
  assumes "\<And>x. P x \<longleftrightarrow> reachable x \<and> flow_of x = k" "find P ss = None"
  shows "k \<notin> set (flows ss)"
  using assms by (auto simp: find_None_iff)

lemma new_sid_eq: "new_sid w = (i, w') \<longleftrightarrow> i = tick w \<and> w' = step_io [] w"
  by (auto simp: new_sid_def)

text \<open>What opening a session does: nothing, or it adds one of the packet's flow in front.\<close>

definition one_more :: "byte \<times> flow \<Rightarrow> session list \<Rightarrow> io \<Rightarrow> session list \<Rightarrow> io \<Rightarrow> bool" where
  "one_more k ss w ss' w' \<longleftrightarrow> ss' = ss \<and> silent w w' \<or>
     (\<exists>s. ss' = s # ss \<and> sid_of s = tick w \<and> flow_of s = k \<and> tick w < tick w' \<and> (tun_ok w \<longrightarrow> tun_ok w') \<and>
       (\<exists>es. trace w' = trace w @ es) \<and> met_of s (trace w'))"

lemma one_more_flows:
  assumes "one_more k ss w ss' w'" "flows_inv ss w" "addrs_ok (snd k)" "k \<notin> set (flows ss)"
  shows "flows_inv ss' w'"
  using assms(1) unfolding one_more_def
proof (elim disjE conjE exE)
  assume "ss' = ss" "silent w w'"
  then show ?thesis using flows_inv_silent assms(2) by simp
next
  fix s es
  assume "ss' = s # ss" "sid_of s = tick w" "flow_of s = k" "tick w < tick w'" "tun_ok w \<longrightarrow> tun_ok w'"
    "trace w' = trace w @ es" "met_of s (trace w')"
  moreover have "tun_ok w" using assms(2) by (simp add: flows_inv_def)
  ultimately show ?thesis using flows_inv_new [OF assms(2)] assms(3,4) by simp
qed

lemma icmp_new_one:
  assumes "icmp_new os pkt p n uid version saddr daddr ss w = Some (ss', w')" "addrs_ok (version, saddr, 0, daddr, 0)"
  shows "one_more (IPPROTO_ICMP, (version, saddr, 0, daddr, 0)) ss w ss' w'"
  using assms
  by (auto simp: one_more_def icmp_new_def frame_defs new_sid_eq icmp_flow_def Suc_le_eq Let_def
      split: prod.splits if_splits Option.bind_splits dest!: framing)

lemma udp_new_one:
  assumes "udp_new os pkt off n uid version h saddr daddr ss w = Some (ss', w')"
    "addrs_ok (version, saddr, uh_source h, daddr, uh_dest h)"
  shows "one_more (IPPROTO_UDP, (version, saddr, uh_source h, daddr, uh_dest h)) ss w ss' w'"
  using assms
  by (auto simp: one_more_def udp_new_def new_udp_session_def frame_defs new_sid_eq udp_flow_def Suc_le_eq Let_def
      split: prod.splits if_splits Option.bind_splits dest!: framing)

lemma register_tcp_one:
  assumes "register_tcp os (tick v) t al ss w = (ss', w')" "tick v < tick w" "tun_ok w = tun_ok v"
    "trace w = trace v @ es" "connect_sent t = TCP_CONNECT_NOT_SENT"
  shows "one_more (IPPROTO_TCP, tcp_flow t) ss v ss' w'"
  using assms
  by (auto simp: one_more_def register_tcp_def frame_defs met_def Let_def split: prod.splits if_splits dest!: framing)

lemma new_tcp_session_flow:
  "new_tcp_session now uid isn version h saddr daddr mss ws data = Some t \<Longrightarrow>
     tcp_flow t = (version, saddr, th_source h, daddr, th_dest h) \<and> connect_sent t = TCP_CONNECT_NOT_SENT"
  by (auto simp: new_tcp_session_def tcp_flow_def split: if_splits)

lemma tcp_syn_one:
  assumes "tcp_syn os pkt len p uid h version al ss w = Some (ss', w')"
    "pkt_saddr version pkt = Some saddr" "pkt_daddr version pkt = Some daddr"
  shows "one_more (IPPROTO_TCP, (version, saddr, th_source h, daddr, th_dest h)) ss w ss' w'"
proof -
  obtain data mss ws t where
    t: "new_tcp_session (os_time os (Suc (tick w))) uid (os_rand os (Suc (Suc (tick w)))) version h saddr daddr mss ws data = Some t"
    and r: "register_tcp os (tick w) t al ss (step_io [] (step_io [] (step_io [] w))) = (ss', w')"
    using assms
    by (auto simp: tcp_syn_def new_sid_def sys_time_def sys_rand_def Let_def split: Option.bind_splits prod.splits)
  show ?thesis using register_tcp_one [OF r] new_tcp_session_flow [OF t] by simp
qed

text \<open>The reset for a packet of no session is one of IPv4, whatever the packet is, with the addresses cut.\<close>

lemma tcp_unknown_kept:
  assumes "tcp_unknown os pkt len p h version w = Some w'" "flows_inv ss w"
  shows "flows_inv ss w'"
proof -
  obtain saddr daddr where a: "pkt_saddr version pkt = Some saddr" "pkt_daddr version pkt = Some daddr"
    and w': "snd (write_rst os (rst_session h (tcp_datalen h p len) saddr daddr) w) = w'"
    using assms(1) by (auto simp: tcp_unknown_def bind_Some_iff)
  let ?t = "rst_session h (tcp_datalen h p len) saddr daddr"
  obtain r v where v: "write_tcp os ?t [] False False False True w = (r, v)" by force
  have "v = w'" using v w' by (simp add: write_rst_def rst_session_def Let_def)
  moreover have "addr_size (t_version ?t) \<le> length (t_saddr ?t)" "addr_size (t_version ?t) \<le> length (t_daddr ?t)"
    using pkt_addr_length [of version pkt] a by (simp_all add: rst_session_def addr_size_def)
  ultimately have k: "tick w \<le> tick w'" "tun_ok w \<longrightarrow> tun_ok w'" using write_tcp_kept [OF v] by simp_all
  obtain es where "trace w' = trace w @ es" using write_tcp_unheard [OF v] \<open>v = w'\<close> by auto
  then show ?thesis using flows_inv_grows [OF assms(2) k(1)] k(2) assms(2) by (simp add: flows_inv_def)
qed

lemma pkt_addrs_ok:
  "pkt_saddr version pkt = Some saddr \<Longrightarrow> pkt_daddr version pkt = Some daddr \<Longrightarrow>
     addrs_ok (version, saddr, sport, daddr, dport)"
  using pkt_addr_length [of version pkt] by (simp add: addr_size_def)

text \<open>A search only finds sessions of its protocol.\<close>

lemma found_kind:
  "find (icmp_matches version saddr daddr) ss = Some x \<Longrightarrow> \<exists>s. x = Icmp s"
  "find (udp_matches version uh saddr daddr) ss = Some x \<Longrightarrow> \<exists>s. x = Udp s"
  "find (tcp_matches version th saddr daddr) ss = Some x \<Longrightarrow> \<exists>s. x = Tcp s"
  by (drule find_split [THEN conjunct1], cases x; simp)+

lemma handle_icmp_flows:
  assumes "handle_icmp os pkt len p uid ss w = Some (ss', w')" "flows_inv ss w"
  shows "flows_inv ss' w'"
proof (cases "ss' = ss \<and> w' = w")
  case False
  obtain version ty where v: "pkt_version pkt = Some version" "rd pkt p = Some ty"
    using assms(1) by (auto simp: handle_icmp_def bind_Some_iff)
  then have ty: "ty = ICMP_ECHO" "\<not> len < p" using assms(1) False by (auto simp: handle_icmp_def split: if_splits)
  then obtain saddr daddr where a: "pkt_saddr version pkt = Some saddr" "pkt_daddr version pkt = Some daddr"
    using assms(1) v by (auto simp: handle_icmp_def bind_Some_iff)
  show ?thesis
  proof (cases "find (icmp_matches version saddr daddr) ss")
    case None
    then have "icmp_new os pkt p (len - p) uid version saddr daddr ss w = Some (ss', w')"
      using assms(1) v a ty by (simp add: handle_icmp_def)
    then show ?thesis
      using icmp_new_one [OF _ pkt_addrs_ok [OF a]]
        one_more_flows [OF _ assms(2) _ not_found_flow [OF matches_flow(1) None]] pkt_addrs_ok [OF a] by simp
  next
    case (Some x)
    then obtain s msg s1 where "x = Icmp s" "icmp_packet_in os version daddr msg s w = (s1, w')"
      "ss' = replace_first (icmp_matches version saddr daddr) (Icmp s1) ss"
      using assms(1) v a ty found_kind(1) [OF Some] by (auto simp: handle_icmp_def split: prod.splits Option.bind_splits)
    then show ?thesis
      using flows_inv_found [OF assms(2) Some, of "Icmp s1" w'] by (auto simp: same_session_def dest!: framing)
  qed
qed (use assms in simp)

lemma handle_udp_flows:
  assumes "handle_udp os pkt len p uid ss w = Some (ss', w')" "flows_inv ss w"
  shows "flows_inv ss' w'"
proof -
  obtain version h saddr daddr where v: "pkt_version pkt = Some version" "read_udphdr pkt p = Some h"
    and a: "pkt_saddr version pkt = Some saddr" "pkt_daddr version pkt = Some daddr"
    using assms(1) by (auto simp: handle_udp_def bind_Some_iff)
  show ?thesis
  proof (cases "find (udp_matches version h saddr daddr) ss")
    case None
    then have "udp_new os pkt (p + 8) (len - (p + 8)) uid version h saddr daddr ss w = Some (ss', w')"
      using assms(1) v a by (simp add: handle_udp_def Let_def split: if_splits)
    then show ?thesis
      using udp_new_one [OF _ pkt_addrs_ok [OF a]]
        one_more_flows [OF _ assms(2) _ not_found_flow [OF matches_flow(2) None]] pkt_addrs_ok [OF a] by simp
  next
    case (Some x)
    then obtain s s1 where "x = Udp s" "udp_found os pkt len (p + 8) h s w = Some (s1, w')"
      "ss' = replace_first (udp_matches version h saddr daddr) (Udp s1) ss"
      using assms(1) v a found_kind(2) [OF Some] by (auto simp: handle_udp_def bind_Some_iff)
    then show ?thesis
      using flows_inv_found [OF assms(2) Some, of "Udp s1" w'] by (auto simp: same_session_def dest!: framing)
  qed
qed

lemma handle_tcp_flows:
  assumes "handle_tcp os args pkt len p uid ss w = Some (ss', w')" "flows_inv ss w"
  shows "flows_inv ss' w'"
proof (cases "ss' = ss \<and> w' = w")
  case False
  obtain version h al saddr daddr where v: "pkt_version pkt = Some version" "read_tcphdr pkt p = Some h"
    "tcp_redirect args = Some al"
    and a: "pkt_saddr version pkt = Some saddr" "pkt_daddr version pkt = Some daddr"
    using assms(1) by (auto simp: handle_tcp_def bind_Some_iff Let_def)
  show ?thesis
  proof (cases "find (tcp_matches version h saddr daddr) ss")
    case None
    then have "tcp_syn os pkt len p uid h version al ss w = Some (ss', w') \<or>
        ss' = ss \<and> tcp_unknown os pkt len p h version w = Some w'"
      using assms(1) v a False by (auto simp: handle_tcp_def bind_Some_iff Let_def split: if_splits)
    then show ?thesis
      using tcp_syn_one [OF _ a] tcp_unknown_kept [OF _ assms(2)]
        one_more_flows [OF _ assms(2) _ not_found_flow [OF matches_flow(3) None]] pkt_addrs_ok [OF a] by auto
  next
    case (Some x)
    then obtain s s1 hostname where "x = Tcp s"
      "tcp_packet_in os hostname pkt (tcp_data_off h p) (tcp_datalen h p len) h s w = Some (s1, w')"
      "ss' = replace_first (tcp_matches version h saddr daddr) (Tcp s1) ss"
      using assms(1) v a False found_kind(3) [OF Some] by (auto simp: handle_tcp_def bind_Some_iff Let_def split: if_splits)
    then show ?thesis
      using flows_inv_found [OF assms(2) Some, of "Tcp s1" w'] by (auto dest: tcp_same)
  qed
qed (use assms in simp)

lemma handle_ip_flows:
  "handle_ip os args loglevel pkt len n m ss w = Some (ss', w') \<Longrightarrow> flows_inv ss w \<Longrightarrow> flows_inv ss' w'"
  by (auto simp: handle_ip_def Let_def split: Option.bind_splits option.splits if_splits prod.splits
      dest: handle_icmp_flows handle_udp_flows handle_tcp_flows)

section \<open>The beginning and the end of a thread\<close>

lemma check_allowed_flows:
  "check_allowed os ss w = (ss', w') \<Longrightarrow> flows_inv (xs @ ss) w \<Longrightarrow> flows_inv (xs @ ss') w'"
proof (induction os ss w arbitrary: xs ss' w' rule: check_allowed.induct)
  case (2 os s ss w)
  obtain rest v where r: "check_allowed os ss w = (rest, v)" by force
  let ?s = "Icmp (s\<lparr>sess := (sess s)\<lparr>i_stop := True\<rparr>\<rparr>)"
  have "flows_inv (xs @ ?s # ss) w" by (rule flows_inv_back [OF "2.prems"(2)]) (simp add: same_session_def)
  then show ?case using "2.IH" [OF r, of "xs @ [?s]"] "2.prems"(1) r by auto
next
  case (3 os s ss w)
  obtain rest v where r: "check_allowed os ss w = (rest, v)" by force
  let ?s = "Udp (s\<lparr>sess := (sess s)\<lparr>u_state := UDP_FINISHING\<rparr>\<rparr>)"
  have "flows_inv (xs @ ?s # ss) w" by (rule flows_inv_back [OF "3.prems"(2)]) (simp add: same_session_def)
  then show ?case
    using "3.IH" [OF r, of "xs @ [?s]"] "3.IH" [OF r, of "xs @ [Udp s]"] "3.IH" [OF r, of xs] "3.prems" r flows_inv_drop
    by (auto split: if_splits)
next
  case (4 os s ss w)
  obtain t v where t: "(if closing_state (t_state (sess s)) then (sess s, w) else write_rst os (sess s) w) = (t, v)" by force
  obtain rest u where r: "check_allowed os ss v = (rest, u)" by force
  let ?s = "Tcp (s\<lparr>sess := t\<rparr>)"
  have "same_session (Tcp s) w ?s v"
  proof (rule same_tcpI)
    show "meets s w (s\<lparr>sess := t\<rparr>) v" using t by (auto intro!: plain_meets split: if_splits dest!: plain)
  qed (use t in \<open>auto split: if_splits dest!: framing\<close>)
  from flows_inv_back [OF "4.prems"(2) this] have "flows_inv (xs @ ?s # ss) v" .
  then show ?case using "4.IH" [OF t [symmetric] refl r, of "xs @ [?s]"] "4.prems"(1) t r by auto
qed simp

lemma clear_flows: "clear ss w = (ss', w') \<Longrightarrow> flows_inv ss w \<Longrightarrow> flows_inv ss' w'"
proof (induction ss arbitrary: w)
  case (Cons s ss)
  have "flows_inv ss w" using flows_inv_drop [of "[]" s ss w] Cons.prems(2) by simp
  then have "flows_inv ss (if 0 \<le> socket_of s then sys_close (socket_of s) w else w)"
    using flows_inv_silent silent_direct by simp
  then show ?case using Cons by simp
qed simp

section \<open>Every state of the library\<close>

interpretation flow_table: loop_invariant flows_inv
proof
  show "flows_inv ss (step_io [] w)" if "flows_inv ss w" for ss w
    using flows_inv_silent [OF that] by (simp add: silent_def)
  show "flows_inv (replace_first (\<lambda>x. sid_of x = i) s' ss) w'"
    if "session_at i ss = Some s" "check_socket os events s w = Some (s', w')" "flows_inv ss w" for i ss s os events w s' w'
    using flows_inv_found [OF that(3) that(1) [unfolded session_at_def] check_socket_same [OF that(2)]] .
  show "flows_inv ss' w'" if "count_sessions os ss w = (n, r, ss', w')" "flows_inv ss w" for os ss w n r ss' w'
    by (rule monitored.sweep_kept [OF that(2) count_sessions_sweep [OF that(1)]])
  show "flows_inv ss' w'" if "check_sessions os now n m timeout ss w = Some (t, ss', w')" "flows_inv ss w"
    for os now n m timeout ss w t ss' w'
    by (rule checked.sweep_kept [OF that(2) check_sessions_sweep [OF that(1)]])
  show "flows_inv ss' w'" if "check_allowed os ss w = (ss', w')" "flows_inv ss w" for os ss w ss' w'
    using check_allowed_flows [of os ss w ss' w' "[]"] that by simp
qed (fact handle_ip_flows clear_flows)+

lemma jni_init_flows: "flows_inv (thread_sessions (jni_init empty_io)) (thread_io (jni_init empty_io))"
  by (simp add: jni_init_def init_def flows_inv_def tun_ok_def empty_io_def)

text \<open>A run of the library in which the tun device has one packet, for the witnesses.\<close>

definition reading :: "byte list \<Rightarrow> os" where
  "reading bs = calm_os\<lparr>os_tun_read := \<lambda>_. Rx_Data bs, os_poll := \<lambda>n. n = 2\<rparr>"

lemma reading_run:
  assumes "handle_ip (reading bs) example_args 5 (buffer_of (reading bs) 20000 bs) (length bs) 0 409 []
      (empty_io\<lparr>tick := 4\<rparr>) = Some (ss, w)" "bs \<noteq> []" "length bs \<le> 10000" "tick w \<noteq> 2"
  obtains th where "vpn_steps (reading bs) 5 3 (jni_init empty_io) th" "thread_sessions th = ss" "trace (thread_io th) = trace w"
proof -
  let ?os = "reading bs" and ?st = "events_start (reading bs) True [] empty_io"
  have m: "max_sessions 1024 = 409" by code_simp
  have "jni_start ?os example_args 1024 True True True (jni_init empty_io) = Some (Live example_args 409 ?st)"
    by (simp add: jni_start_def jni_init_def init_def run_thread_def m example_args_def cstr_def)
  then have start: "vpn_step ?os 5 3 (jni_init empty_io) (Live example_args 409 ?st)" by (rule vpn_step.start)
  have mtu: "unat get_mtu = 10000" by (simp add: get_mtu_def MTU_def)
  have "check_tun ?os example_args 5 EPOLLIN 0 409 [] (empty_io\<lparr>tick := 3\<rparr>) = Some (0, ss, w)"
    using assms by (simp add: check_tun_def sys_tun_read_def reading_def EPOLLIN_def EPOLLERR_def mtu step_io_def empty_io_def)
  moreover have "is_readable ?os 3 (empty_io\<lparr>tick := 2\<rparr>) = (True, empty_io\<lparr>tick := 3\<rparr>)"
    by (simp add: is_readable_def reading_def step_io_def empty_io_def)
  moreover have "is_readable ?os 3 w = (False, step_io [] w)"
    using assms(4) by (simp add: is_readable_def reading_def)
  moreover have "tun_loop ?os example_args 5 3 EPOLLIN 0 409 ss w = Some (False, ss, step_io [] w)"
    by (subst tun_loop.simps) (simp add: calculation(3))
  ultimately have t: "tun_loop ?os example_args 5 3 EPOLLIN 0 409 [] (empty_io\<lparr>tick := 2\<rparr>) = Some (False, ss, step_io [] w)"
    by (subst tun_loop.simps) simp
  have b: "\<exists>st'. before_poll ?os 409 ?st = Some (0, st') \<and> el_sessions st' = [] \<and> el_io st' = empty_io\<lparr>tick := 2\<rparr>"
    by (simp add: before_poll_def events_start_def reading_def calm_os_def sys_ms_def sys_time_def step_io_def empty_io_def
        EPOLL_MIN_CHECK_def)
  then obtain st2 where e: "events_round ?os example_args 5 3 409 (Wait_Ready [(From_Tun, EPOLLIN)]) ?st = Some st2"
    "el_sessions st2 = ss" "el_io st2 = step_io [] w"
    using t by (auto simp: events_round_def)
  have "events_step ?os example_args 5 3 409 ?st st2"
    by (rule events_step.round [OF _ e(1)]) (simp add: events_start_def)
  then have "vpn_step ?os 5 3 (Live example_args 409 ?st) (Live example_args 409 st2)" by (rule vpn_step.run)
  with start have "vpn_steps ?os 5 3 (jni_init empty_io) (Live example_args 409 st2)" by (meson r_into_rtranclp rtranclp_trans)
  then show ?thesis using that e by simp
qed

lemma length_buffer: "length bs \<le> n \<Longrightarrow> length (buffer_of os n bs) = n"
  by (simp add: buffer_of_def)

lemma rd_buffer: "i < length bs \<Longrightarrow> rd (buffer_of os n bs) i = Some (bs ! i)"
  by (simp add: buffer_of_def rd_ok nth_append)

lemma rd_block_buffer: "i + k \<le> length bs \<Longrightarrow> rd_block (buffer_of os n bs) i k = Some (take k (drop i bs))"
  by (simp add: buffer_of_def rd_block_def)

text \<open>An acknowledgement of no session, which is answered with a reset.\<close>

definition stray_ack :: "byte list" where
  "stray_ack = [0x45, 0, 0, 40, 0, 0, 0, 0, 64, 6, 0, 0, 10, 1, 10, 1, 93, 184, 216, 34,
     156, 64, 32, 251, 0, 0, 0, 1, 0, 0, 0, 2, 0x50, 0x10, 1, 0, 0, 0, 0, 0]"

lemma stray_ack_handled:
  obtains t where "handle_ip (reading stray_ack) example_args 5 (buffer_of (reading stray_ack) 20000 stray_ack) (length stray_ack)
      0 409 [] (empty_io\<lparr>tick := 4\<rparr>) = Some ([], step_io [Tun_Write (tcp_packet t [] False False False True) 40] (empty_io\<lparr>tick := 4\<rparr>))"
    "length (tcp_packet t [] False False False True) = 40"
proof -
  let ?pkt = "buffer_of (reading stray_ack) 20000 stray_ack" and ?w = "empty_io\<lparr>tick := 4\<rparr>"
  note rds = rd_buffer rd_block_buffer rd_be16_def rd_le16_def rd_be32_def
  have v: "pkt_version ?pkt = Some 4" by (simp add: pkt_version_def stray_ack_def rds)
  have "parse_ip 5 ?pkt 40 = Some (Some (IPPROTO_TCP, 20))"
    unfolding parse_ip_def v by (simp add: parse_ip4_def stray_ack_def rds IP_MF_def ANDROID_LOG_WARN_def IPPROTO_TCP_def)
  moreover have "\<exists>s d. transport ?pkt 40 IPPROTO_TCP 20 = Some (Some (s, d, False))"
    by (simp add: transport_def too_short_def stray_ack_def rds IPPROTO_TCP_def IPPROTO_ICMP_def IPPROTO_ICMPV6_def IPPROTO_UDP_def)
  moreover obtain h where h: "read_tcphdr ?pkt 20 = Some h" "th_doff h = 5" "\<not> th_urg h" "\<not> th_syn h" "\<not> th_fin h"
    by (simp add: read_tcphdr_def stray_ack_def rds)
  moreover have a: "pkt_saddr 4 ?pkt = Some [10, 1, 10, 1]" "pkt_daddr 4 ?pkt = Some [93, 184, 216, 34]"
    by (simp_all add: pkt_saddr_def pkt_daddr_def stray_ack_def rds)
  moreover have "tcp_datalen h 20 40 = 0" using h by (simp add: tcp_datalen_def tcp_data_off_def tcp_optlen_def)
  moreover have l: "length (tcp_packet (rst_session h 0 [10, 1, 10, 1] [93, 184, 216, 34]) [] False False False True) = 40"
    by (simp add: length_tcp_packet tcp_addrs_def rst_session_def)
  ultimately have "handle_ip (reading stray_ack) example_args 5 ?pkt 40 0 409 [] ?w = Some ([],
      step_io [Tun_Write (tcp_packet (rst_session h 0 [10, 1, 10, 1] [93, 184, 216, 34]) [] False False False True) 40] ?w)"
    using v by (auto simp: handle_ip_def starts_session_def handle_tcp_def tcp_redirect_def parse_tls_header_def TLS_HEADER_LEN_def
        tcp_unknown_def write_rst_def write_tcp_def sys_tun_write_def reading_def calm_os_def transfer_def example_args_def
        rst_session_def cstr_def IPPROTO_TCP_def IPPROTO_ICMP_def IPPROTO_ICMPV6_def IPPROTO_UDP_def)
  moreover have "length stray_ack = 40" by (simp add: stray_ack_def)
  ultimately show ?thesis using that [OF _ l] by simp
qed

text \<open>The echo request of \<open>echo_packet\<close>, which starts a session of ICMP.\<close>

lemma icmp_new_calm:
  assumes "rd_le16 pkt (p + 4) = Some i" "icmp_request version pkt p n = Some msg"
    "os_socket os = (\<lambda>n. Returns (n + 10))" "os_protect os = (\<lambda>_. True)" "fds w = []"
  shows "\<exists>s w'. icmp_new os pkt p n uid version saddr daddr ss w = Some (Icmp s # ss, w')"
  using assms
  by (simp add: icmp_new_def new_sid_def sys_time_def open_icmp_socket_def sys_socket_def sys_protect_def sys_epoll_add_def Let_def
      split: prod.split)

lemma echo_handled:
  obtains s w where "handle_ip (reading echo_packet) example_args 5 (buffer_of (reading echo_packet) 20000 echo_packet)
      (length echo_packet) 0 409 [] (empty_io\<lparr>tick := 4\<rparr>) = Some ([Icmp s], w)" "4 \<le> tick w"
proof -
  let ?pkt = "buffer_of (reading echo_packet) 20000 echo_packet" and ?w = "empty_io\<lparr>tick := 4\<rparr>"
  note rds = rd_buffer rd_block_buffer rd_be16_def rd_le16_def
  have l: "length echo_packet = 48" by (simp add: echo_packet_def)
  have v: "pkt_version ?pkt = Some 4" by (simp add: pkt_version_def echo_packet_def rds)
  have "parse_ip 5 ?pkt 48 = Some (Some (IPPROTO_ICMP, 20))"
    unfolding parse_ip_def v by (simp add: parse_ip4_def echo_packet_def rds IP_MF_def ANDROID_LOG_WARN_def IPPROTO_ICMP_def)
  moreover have "\<exists>s d. transport ?pkt 48 IPPROTO_ICMP 20 = Some (Some (s, d, False))"
    by (simp add: transport_def too_short_def echo_packet_def rds nth_append)
  moreover have a: "pkt_saddr 4 ?pkt = Some [10, 1, 10, 1]" "pkt_daddr 4 ?pkt = Some [8, 8, 8, 8]"
    by (simp_all add: pkt_saddr_def pkt_daddr_def echo_packet_def rds)
  moreover obtain i where i: "rd_le16 ?pkt (20 + 4) = Some i" by (simp add: echo_packet_def rds)
  then obtain msg where m: "icmp_request 4 ?pkt 20 28 = Some msg"
    by (simp add: icmp_request_def length_buffer l)
  moreover have "rd ?pkt 20 = Some ICMP_ECHO" by (simp add: echo_packet_def rds ICMP_ECHO_def)
  ultimately have h: "\<exists>uid. handle_ip (reading echo_packet) example_args 5 ?pkt 48 0 409 [] ?w =
      icmp_new (reading echo_packet) ?pkt 20 28 uid 4 [10, 1, 10, 1] [8, 8, 8, 8] [] ?w"
    using v by (auto simp: handle_ip_def starts_session_def handle_icmp_def)
  have "\<exists>s w. icmp_new (reading echo_packet) ?pkt 20 28 uid 4 [10, 1, 10, 1] [8, 8, 8, 8] [] ?w = Some ([Icmp s], w)" for uid
    by (rule icmp_new_calm [OF i m]) (simp_all add: reading_def calm_os_def empty_io_def)
  with h obtain uid s w where
    n: "icmp_new (reading echo_packet) ?pkt 20 28 uid 4 [10, 1, 10, 1] [8, 8, 8, 8] [] ?w = Some ([Icmp s], w)"
    and r: "handle_ip (reading echo_packet) example_args 5 ?pkt 48 0 409 [] ?w = Some ([Icmp s], w)" by metis
  have "4 < tick w" using icmp_new_one [OF n] by (auto simp: one_more_def addr_size_def)
  then show ?thesis using that r l by simp
qed

text \<open>C5: the list of sessions is a table of flows: in every state of the library, no two sessions have the
  same address in memory, and no two that packets can find belong to the same protocol, IP version,
  addresses and ports, so that the first match of a handler's search is the only one.\<close>

theorem library_flows:
  assumes "vpn_steps os loglevel tun (jni_init empty_io) th"
  shows "distinct (map sid_of (thread_sessions th)) \<and> distinct (map flow_of (filter reachable (thread_sessions th)))"
  using flow_table.vpn_steps_kept [OF assms jni_init_flows] by (simp add: flows_inv_def)

theorem library_flows_witness:
  "\<exists>th s. vpn_steps (reading echo_packet) 5 3 (jni_init empty_io) th \<and> thread_sessions th = [s] \<and>
    distinct (map sid_of [s]) \<and> distinct (map flow_of (filter reachable [s]))"
proof -
  obtain s w where h: "handle_ip (reading echo_packet) example_args 5 (buffer_of (reading echo_packet) 20000 echo_packet)
      (length echo_packet) 0 409 [] (empty_io\<lparr>tick := 4\<rparr>) = Some ([Icmp s], w)" and t: "4 \<le> tick w"
    by (rule echo_handled)
  obtain th where "vpn_steps (reading echo_packet) 5 3 (jni_init empty_io) th" "thread_sessions th = [Icmp s]"
    by (rule reading_run [OF h]) (use t in \<open>simp_all add: echo_packet_def\<close>)
  then show ?thesis using library_flows by metis
qed

text \<open>C6: whatever the library writes to the tun device, in any run, passes the checks of the
  receiving stack: the version, the length field and the checksum of the header, and the checksum of a TCP segment,
  a UDP datagram or an ICMP message of IPv4 (of 8 bytes or more). Only a packet longer than 65535 bytes, whose length field
  wraps around, is excepted.\<close>

theorem library_packets_ok:
  assumes "vpn_steps os loglevel tun (jni_init empty_io) th" "Tun_Write b r \<in> set (trace (thread_io th))"
    "length b \<le> 65535"
  shows "packet_ok b"
  using flow_table.vpn_steps_kept [OF assms(1) jni_init_flows] assms(2,3)
  by (auto simp: flows_inv_def tun_ok_def list_all_iff)


theorem library_packets_ok_witness:
  "\<exists>th b r. vpn_steps (reading stray_ack) 5 3 (jni_init empty_io) th \<and> trace (thread_io th) = [Tun_Write b r] \<and>
    length b = 40 \<and> packet_ok b"
proof -
  obtain t where t: "handle_ip (reading stray_ack) example_args 5 (buffer_of (reading stray_ack) 20000 stray_ack) (length stray_ack)
      0 409 [] (empty_io\<lparr>tick := 4\<rparr>) = Some ([], step_io [Tun_Write (tcp_packet t [] False False False True) 40] (empty_io\<lparr>tick := 4\<rparr>))"
    and l: "length (tcp_packet t [] False False False True) = 40"
    by (rule stray_ack_handled)
  obtain th where th: "vpn_steps (reading stray_ack) 5 3 (jni_init empty_io) th"
    "trace (thread_io th) = [Tun_Write (tcp_packet t [] False False False True) 40]"
    by (rule reading_run [OF t]) (simp_all add: stray_ack_def empty_io_def)
  then have "packet_ok (tcp_packet t [] False False False True)"
    using library_packets_ok [OF th(1)] l by simp
  then show ?thesis using th l by blast
qed

end
