(* ===== verification/Reclaim.thy ===== *)
theory Reclaim
  imports Framing
begin

text \<open>
  The periodic checks take every idle session away: in a round that comes after all timeouts a session is
  closed or deleted, and in the next one, after the time a closed session is kept, it is deleted. No
  timeout is longer than an hour, whatever the number of sessions.
\<close>

section \<open>Timeouts\<close>

lemma scaled_timeout_le:
  assumes "sc \<le> 100" "0 \<le> (t :: int)"
  shows "(t * sc) sdiv 100 \<le> t"
proof (cases "0 \<le> sc")
  case True
  then show ?thesis using scaled_timeout_bounds assms by simp
next
  case False
  then have "t * sc \<le> 0" using assms by (simp add: mult_nonneg_nonpos)
  then have "0 \<le> - (t * sc) div 100" by (simp add: pos_imp_zdiv_nonneg_iff)
  with \<open>t * sc \<le> 0\<close> have "(t * sc) sdiv 100 \<le> 0" by (simp add: signed_divide_int_def sgn_if)
  then show ?thesis using assms by simp
qed

lemma scale_le: "0 \<le> n \<Longrightarrow> 0 < m \<Longrightarrow> 100 - (n * 100) sdiv m \<le> (100 :: int)"
  by (simp add: sdiv_nonneg pos_imp_zdiv_nonneg_iff)

lemmas timeout_defs = ICMP_TIMEOUT_def UDP_TIMEOUT_53_def UDP_TIMEOUT_ANY_def TCP_INIT_TIMEOUT_def
  TCP_IDLE_TIMEOUT_def TCP_CLOSE_TIMEOUT_def

lemma timeouts_le:
  assumes "0 \<le> n" "0 < m"
  shows "get_icmp_timeout i n m = Some t \<Longrightarrow> t \<le> 3600" "get_udp_timeout u n m = Some t \<Longrightarrow> t \<le> 3600"
    "get_tcp_timeout c n m = Some t \<Longrightarrow> t \<le> 3600"
  using scaled_timeout_le [OF scale_le [OF assms], of 15] scaled_timeout_le [OF scale_le [OF assms], of 300]
    scaled_timeout_le [OF scale_le [OF assms], of 30] scaled_timeout_le [OF scale_le [OF assms], of 3600]
  by (auto simp: get_icmp_timeout_def get_udp_timeout_def get_tcp_timeout_def timeout_defs Let_def split: if_splits)

section \<open>One session\<close>

fun time_of :: "session \<Rightarrow> int" where
  "time_of (Icmp s) = i_time (sess s)"
| "time_of (Udp s) = u_time (sess s)"
| "time_of (Tcp s) = t_time (sess s)"

text \<open>A session that only waits for its deletion.\<close>

fun over :: "session \<Rightarrow> bool" where
  "over (Icmp s) = False"
| "over (Udp s) = (u_state (sess s) = UDP_CLOSED \<or> u_state (sess s) = UDP_BLOCKED)"
| "over (Tcp s) = (t_state (sess s) = TCP_CLOSE)"

text \<open>The times the clock shows from one call to another.\<close>

definition clock_in :: "os \<Rightarrow> io \<Rightarrow> io \<Rightarrow> int \<Rightarrow> int \<Rightarrow> bool" where
  "clock_in os w w' a b \<longleftrightarrow> (\<forall>k. tick w \<le> k \<and> k < tick w' \<longrightarrow> a < os_time os k \<and> os_time os k \<le> b)"

lemma clock_in_sub:
  "clock_in os w w' a b \<Longrightarrow> tick w \<le> tick v \<Longrightarrow> tick v' \<le> tick w' \<Longrightarrow> clock_in os v v' a b"
  by (simp add: clock_in_def)

lemma check_idle_udp:
  assumes "check_udp_session os s n m w = Some (del, s', w')" "0 \<le> n" "0 < m"
    "u_time (sess s) \<le> T" "clock_in os w w' (T + 3600) T1"
  shows "del \<or> over (Udp s') \<and> u_time (sess s') \<le> T1"
proof -
  obtain timeout where to: "get_udp_timeout (sess s) n m = Some timeout"
    using assms(1) by (auto simp: check_udp_session_def sys_time_def bind_Some_iff)
  have "timeout \<le> 3600" using timeouts_le(2) [OF assms(2,3) to] .
  moreover have "tick w < tick w'"
    using assms(1) by (auto simp: check_udp_session_def udp_close_socket_def sys_time_def to sys_close_def Let_def split: if_splits)
  moreover have "T + 3600 < os_time os (tick w)" "tick w \<le> k \<Longrightarrow> k < tick w' \<Longrightarrow> os_time os k \<le> T1" for k
    using assms(5) \<open>tick w < tick w'\<close> by (simp_all add: clock_in_def)
  ultimately show ?thesis
    using assms(1,4)
    by (cases "u_state (sess s)")
      (auto simp: check_udp_session_def sys_time_def to udp_expire_def udp_close_socket_def udp_reset_counts_def
        sys_close_def UDP_KEEP_TIMEOUT_def Let_def split: if_splits)
qed

lemma check_idle_tcp:
  assumes "check_tcp_session os s n m w = Some (del, s', w')" "0 \<le> n" "0 < m"
    "t_time (sess s) \<le> T" "clock_in os w w' (T + 3600) T1"
  shows "del \<or> over (Tcp s') \<and> t_time (sess s') \<le> T1"
proof -
  obtain timeout where to: "get_tcp_timeout (sess s) n m = Some timeout"
    using assms(1) by (auto simp: check_tcp_session_def sys_time_def bind_Some_iff)
  have le: "timeout \<le> 3600" using timeouts_le(3) [OF assms(2,3) to] .
  let ?now = "os_time os (tick w)"
  obtain s1 w1 where e: "tcp_expire os ?now timeout s (step_io [] w) = (s1, w1)" by force
  obtain s2 w2 where c: "tcp_close_socket os s1 w1 = (s2, w2)" by force
  have r: "s' = s2\<lparr>sess := tcp_reset_counts (sess s2)\<rparr>" "w' = w2"
    "del \<longleftrightarrow> t_state (sess s2) = TCP_CLOSE \<and> t_time (tcp_reset_counts (sess s2)) + TCP_KEEP_TIMEOUT < ?now"
    using assms(1) by (auto simp: check_tcp_session_def sys_time_def to e c)
  have t: "tick w < tick w1" "tick w1 \<le> tick w2" using e c by (auto simp: frame_defs dest!: framing)
  then have now: "T + 3600 < ?now" using assms(5) r(2) by (simp add: clock_in_def)
  have s1: "t_state (sess s1) = TCP_CLOSING \<or> t_state (sess s1) = TCP_CLOSE \<and> s1 = s"
    using e now le assms(4)
    by (auto simp: tcp_expire_def closing_state_def split: if_splits prod.splits dest!: write_rst_eq)
  then show ?thesis
  proof
    assume closing: "t_state (sess s1) = TCP_CLOSING"
    then have "t_state (sess s2) = TCP_CLOSE" "\<exists>k. t_time (sess s2) = os_time os k \<and> tick w1 \<le> k \<and> k < tick w2"
      using c by (auto simp: tcp_close_socket_def sys_time_def sys_close_def split: if_splits)
    then show ?thesis using assms(5) r t by (auto simp: clock_in_def tcp_reset_counts_def)
  next
    assume close: "t_state (sess s1) = TCP_CLOSE \<and> s1 = s"
    then have "s2 = s" using c by (auto simp: tcp_close_socket_def)
    then show ?thesis using close r(3) now assms(4) by (auto simp: TCP_KEEP_TIMEOUT_def tcp_reset_counts_def)
  qed
qed

text \<open>The first check after the timeouts, and the one after the time a closed session is kept.\<close>

lemma check_idle:
  assumes "check_session os n m x w = Some (del, x', w')" "0 \<le> n" "0 < m"
    "time_of x \<le> T" "clock_in os w w' (T + 3600) T1"
  shows "del \<or> over x' \<and> time_of x' \<le> T1"
proof (cases x)
  case (Icmp s)
  obtain timeout where to: "get_icmp_timeout (sess s) n m = Some timeout"
    using assms(1) by (auto simp: Icmp check_icmp_session_def sys_time_def bind_Some_iff)
  have "timeout \<le> 3600" using timeouts_le(1) [OF assms(2,3) to] .
  moreover have "tick w < tick w'"
    using assms(1) by (auto simp: Icmp check_icmp_session_def sys_time_def to sys_close_def split: if_splits)
  ultimately show ?thesis
    using assms by (auto simp: Icmp check_icmp_session_def sys_time_def to clock_in_def split: if_splits)
next
  case (Udp s)
  then show ?thesis using assms check_idle_udp [of os s n m w del _ w' T T1] by (auto simp: bind_Some_iff)
next
  case (Tcp s)
  then show ?thesis using assms check_idle_tcp [of os s n m w del _ w' T T1] by (auto simp: bind_Some_iff)
qed

lemma check_over:
  assumes "check_session os n m x w = Some (del, x', w')" "over x" "time_of x \<le> T" "T + 300 < os_time os (tick w)"
  shows del
  using assms
  by (cases x)
    (auto simp: bind_Some_iff check_udp_session_def check_tcp_session_def udp_expire_def udp_close_socket_def
      udp_reset_counts_def tcp_expire_def tcp_close_socket_def tcp_reset_counts_def closing_state_def sys_time_def
      UDP_KEEP_TIMEOUT_def TCP_KEEP_TIMEOUT_def split: if_splits)

section \<open>A round without events\<close>

lemma sweep_all:
  assumes "sweep check ss w = Some (ss', w')"
    "\<And>x w1 del x' w2. check x w1 = Some (del, x', w2) \<Longrightarrow> tick w1 \<le> tick w2"
    "\<And>x w1 del x' w2. x \<in> set ss \<Longrightarrow> check x w1 = Some (del, x', w2) \<Longrightarrow> tick w \<le> tick w1 \<Longrightarrow> tick w2 \<le> tick w' \<Longrightarrow>
       del \<or> R x'"
  shows "tick w \<le> tick w' \<and> (\<forall>x \<in> set ss'. R x)"
  using assms(1,3)
proof (induction ss arbitrary: w ss')
  case (Cons x ss)
  from Cons.prems(1) obtain del x1 w1 ss1 where c: "check x w = Some (del, x1, w1)"
    and r: "sweep check ss w1 = Some (ss1, w')" and ss': "ss' = (if del then ss1 else x1 # ss1)"
    by (auto simp: bind_Some_iff)
  note t = assms(2) [OF c]
  have "tick w1 \<le> tick w' \<and> (\<forall>x \<in> set ss1. R x)"
  proof (rule Cons.IH [OF r])
    fix y v del y' v' assume "y \<in> set ss" "check y v = Some (del, y', v')" "tick w1 \<le> tick v" "tick v' \<le> tick w'"
    then show "del \<or> R y'" using Cons.prems(2) [of y v del y' v'] t by simp
  qed
  then show ?case using Cons.prems(2) [OF _ c] t ss' by auto
qed simp

lemma tick_check: "check_session os n m x w = Some (del, x', w') \<Longrightarrow> tick w \<le> tick w'"
  by (cases x) (auto simp: bind_Some_iff frame_defs dest!: framing)

lemma tick_monitor: "monitor_session os x w = (r, x', w') \<Longrightarrow> tick w \<le> tick w'"
  by (cases x) (auto simp: frame_defs split: if_splits prod.splits dest!: framing)

lemma count_all:
  assumes "count_sessions os ss w = (n, r, ss', w')"
    "\<And>x w1 r x' w2. x \<in> set ss \<Longrightarrow> monitor_session os x w1 = (r, x', w2) \<Longrightarrow> R x'"
  shows "tick w \<le> tick w' \<and> (\<forall>x \<in> set ss'. R x)"
proof (rule sweep_all [OF count_sessions_sweep [OF assms(1)]])
  fix x w1 del x' w2
  assume "map_option (Pair False) (Some (snd (monitor_session os x w1))) = Some (del, x', w2)"
  then obtain r where m: "monitor_session os x w1 = (r, x', w2)" by (cases "monitor_session os x w1") auto
  show "tick w1 \<le> tick w2" by (rule tick_monitor [OF m])
  show "del \<or> R x'" if "x \<in> set ss" using assms(2) [OF that m] by simp
qed

lemma tcp_keep_alive_time: "tcp_keep_alive os t w = (t', w') \<Longrightarrow> t_time t' = t_time t"
  by (auto simp: tcp_keep_alive_def wrote_def Let_def split: if_splits prod.splits dest!: writer_wrote)

lemma monitor_time: "monitor_session os x w = (r, x', w') \<Longrightarrow> time_of x' = time_of x"
  by (cases x)
    (auto simp: monitor_tcp_session_def monitor_events_def Let_def split: if_splits prod.splits dest!: tcp_keep_alive_time)

lemma monitor_over: "monitor_session os x w = (r, x', w') \<Longrightarrow> over x \<Longrightarrow> session_good x v \<Longrightarrow> x' = x"
  by (cases x) (auto simp: tcp_ok_def tcp_good_def socket_state_def)

text \<open>The parts of a round in which the poll reports nothing.\<close>

definition clock_late :: "os \<Rightarrow> event_loop \<Rightarrow> bool" where
  "clock_late os st \<longleftrightarrow> (\<forall>k \<ge> tick (el_io st). el_last st + EPOLL_MIN_CHECK < os_ms os k)"

lemma idle_round:
  assumes "events_round os args loglevel tun m (Wait_Ready []) st = Some st'" "clock_late os st"
  obtains n r ss w now t where "count_sessions os (el_sessions st) (el_io st) = (n, r, ss, w)" "0 \<le> n"
    "check_sessions os now n m EPOLL_TIMEOUT ss (step_io [] (step_io [] w)) = Some (t, el_sessions st', el_io st')"
    "tick (el_io st) \<le> tick w"
proof -
  obtain n r ss w where c: "count_sessions os (el_sessions st) (el_io st) = (n, r, ss, w)" by (metis prod_cases4)
  have n: "0 \<le> n" using count_sessions_number [of os "el_sessions st" "el_io st"] c by simp
  have t: "tick (el_io st) \<le> tick w" using count_all [OF c, of "\<lambda>_. True"] by simp
  then have "el_last st + EPOLL_MIN_CHECK < os_ms os (tick w)" using assms(2) by (simp add: clock_late_def)
  then obtain t' where "check_sessions os (os_time os (Suc (tick w))) n m EPOLL_TIMEOUT ss (step_io [] (step_io [] w)) =
      Some (t', el_sessions st', el_io st')"
    using assms(1)
    by (auto simp: events_round_def before_poll_def c sys_ms_def sys_time_def bind_Some_iff)
  then show ?thesis using that [OF c n _ t] by simp
qed

text \<open>What a round without events keeps of the descriptors.\<close>

lemma idle_round_fds:
  assumes "events_round os args loglevel tun m (Wait_Ready []) st = Some st'" "clock_late os st"
    "list_inv (el_sessions st) (el_io st)"
  shows "set (fds (el_io st')) - set (held socket_of (el_sessions st')) =
    set (fds (el_io st)) - set (held socket_of (el_sessions st))"
proof -
  obtain n r ss w now t where c: "count_sessions os (el_sessions st) (el_io st) = (n, r, ss, w)"
    and k: "check_sessions os now n m EPOLL_TIMEOUT ss (step_io [] (step_io [] w)) = Some (t, el_sessions st', el_io st')"
    by (rule idle_round [OF assms(1,2)])
  have i: "list_inv ss (step_io [] (step_io [] w))"
    using list_inv_grown [OF count_sessions_inv [OF c assms(3)]] by (simp add: clean_def)
  have "set (fds (el_io st')) - set (held socket_of (el_sessions st')) =
      set (fds (step_io [] (step_io [] w))) - set (held socket_of ss)"
    using upkeep.sweep_unheld [OF _ _ check_sessions_sweep [OF k]] i by (simp add: list_inv_def)
  also have "\<dots> = set (fds w) - set (held socket_of ss)" by simp
  also have "\<dots> = set (fds (el_io st)) - set (held socket_of (el_sessions st))"
    using monitoring.walk.sweep_unheld [OF _ _ count_sessions_sweep [OF c]] assms(3) by (simp add: list_inv_def)
  finally show ?thesis .
qed

lemma idle_round_closes:
  assumes "events_round os args loglevel tun m (Wait_Ready []) st = Some st'" "clock_late os st" "0 < m"
    "\<forall>x \<in> set (el_sessions st). time_of x \<le> T" "clock_in os (el_io st) (el_io st') (T + 3600) T1"
  shows "\<forall>x \<in> set (el_sessions st'). over x \<and> time_of x \<le> T1"
proof -
  obtain n r ss w now t where c: "count_sessions os (el_sessions st) (el_io st) = (n, r, ss, w)" "0 \<le> n"
    "tick (el_io st) \<le> tick w"
    and k: "check_sessions os now n m EPOLL_TIMEOUT ss (step_io [] (step_io [] w)) = Some (t, el_sessions st', el_io st')"
    by (rule idle_round [OF assms(1,2)])
  have old: "\<forall>x \<in> set ss. time_of x \<le> T"
    using count_all [OF c(1), of "\<lambda>x. time_of x \<le> T"] assms(4) monitor_time by fastforce
  have "tick (step_io [] (step_io [] w)) \<le> tick (el_io st') \<and> (\<forall>x \<in> set (el_sessions st'). over x \<and> time_of x \<le> T1)"
  proof (rule sweep_all [OF check_sessions_sweep [OF k]])
    fix x v del x' v'
    assume "check_session os n m x v = Some (del, x', v')"
    then show "tick v \<le> tick v'" by (rule tick_check)
  next
    fix x v del x' v'
    assume x: "x \<in> set ss" and ch: "check_session os n m x v = Some (del, x', v')"
      and ts: "tick (step_io [] (step_io [] w)) \<le> tick v" "tick v' \<le> tick (el_io st')"
    have "clock_in os v v' (T + 3600) T1" using clock_in_sub [OF assms(5)] c(3) ts by simp
    then show "del \<or> over x' \<and> time_of x' \<le> T1" using check_idle [OF ch c(2) assms(3)] old x by blast
  qed
  then show ?thesis by simp
qed

lemma idle_round_deletes:
  assumes "events_round os args loglevel tun m (Wait_Ready []) st = Some st'" "clock_late os st"
    "list_inv (el_sessions st) (el_io st)" "\<forall>x \<in> set (el_sessions st). over x \<and> time_of x \<le> T"
    "\<forall>k \<ge> tick (el_io st). T + 300 < os_time os k"
  shows "el_sessions st' = []"
proof -
  obtain n r ss w now t where c: "count_sessions os (el_sessions st) (el_io st) = (n, r, ss, w)"
    "tick (el_io st) \<le> tick w"
    and k: "check_sessions os now n m EPOLL_TIMEOUT ss (step_io [] (step_io [] w)) = Some (t, el_sessions st', el_io st')"
    by (rule idle_round [OF assms(1,2)])
  have "\<forall>x \<in> set (el_sessions st). session_good x (el_io st)" using assms(3) by (simp add: list_inv_def all_inv_def)
  then have old: "\<forall>x \<in> set ss. over x \<and> time_of x \<le> T"
    using count_all [OF c(1), of "\<lambda>x. over x \<and> time_of x \<le> T"] assms(4) monitor_over by blast
  have "tick (step_io [] (step_io [] w)) \<le> tick (el_io st') \<and> (\<forall>x \<in> set (el_sessions st'). False)"
  proof (rule sweep_all [OF check_sessions_sweep [OF k]])
    fix x v del x' v'
    assume "check_session os n m x v = Some (del, x', v')"
    then show "tick v \<le> tick v'" by (rule tick_check)
  next
    fix x v del x' v'
    assume x: "x \<in> set ss" and ch: "check_session os n m x v = Some (del, x', v')"
      and ts: "tick (step_io [] (step_io [] w)) \<le> tick v" "tick v' \<le> tick (el_io st')"
    have "T + 300 < os_time os (tick v)" using assms(5) c(2) ts by simp
    then show "del \<or> False" using check_over [OF ch] old x by blast
  qed
  then show ?thesis by simp
qed

text \<open>C8: no session and no descriptor is kept forever. When the sessions have been idle for an hour, a round in
  which the poll reports nothing closes them all, whatever their kinds, states and number; and when it is five
  minutes later still, the next round returns and leaves the list empty. Of the descriptors that were open, exactly those
  that no session held are still open.\<close>

theorem idle_sessions_reclaimed:
  assumes "list_inv (el_sessions st) (el_io st)" "0 < m" "\<forall>x \<in> set (el_sessions st). time_of x \<le> T"
    and "events_round os args loglevel tun m (Wait_Ready []) st = Some st1" "clock_late os st"
    and "clock_in os (el_io st) (el_io st1) (T + 3600) T1"
    and "clock_late os st1" "\<forall>k \<ge> tick (el_io st1). T1 + 300 < os_time os k"
  shows "\<exists>st2. events_round os args loglevel tun m (Wait_Ready []) st1 = Some st2 \<and> el_sessions st2 = [] \<and>
    set (fds (el_io st2)) = set (fds (el_io st)) - set (held socket_of (el_sessions st)) \<and> clean (el_io st2)"
proof -
  have i: "list_inv (el_sessions st1) (el_io st1)" by (rule descriptors.events_round_kept [OF assms(4,1)])
  obtain n st' where "before_poll os m st1 = Some (n, st')" using before_poll_exists [of m os st1] assms(2) by auto
  then obtain st2 where e: "events_round os args loglevel tun m (Wait_Ready []) st1 = Some st2"
    by (simp add: events_round_def)
  have "el_sessions st2 = []"
    by (rule idle_round_deletes [OF e assms(7) i idle_round_closes [OF assms(4,5,2,3,6)] assms(8)])
  moreover have "clean (el_io st2)"
    using descriptors.events_round_kept [OF e i] by (simp add: list_inv_def)
  ultimately show ?thesis
    using idle_round_fds [OF assms(4,5,1)] idle_round_fds [OF e assms(7) i] e by simp
qed

text \<open>A clock that jumps by an hour after the calls of the first round.\<close>

definition jump_os :: os where
  "jump_os = calm_os\<lparr>os_time := \<lambda>k. if k < 5 then 5000 else 10000, os_ms := \<lambda>k. if k < 5 then 1000000 else 2000000\<rparr>"

theorem idle_sessions_reclaimed_witness:
  "\<exists>st1 st2. events_round jump_os example_args 5 3 409 (Wait_Ready []) \<lparr>el_sessions = [Udp example_udp], el_last = 0,
      el_running = True, el_timeout = 0, el_io = empty_io\<lparr>fds := [7, 9]\<rparr>\<rparr> = Some st1 \<and>
    events_round jump_os example_args 5 3 409 (Wait_Ready []) st1 = Some st2 \<and> el_sessions st2 = [] \<and> set (fds (el_io st2)) = {9}"
proof -
  let ?st = "\<lparr>el_sessions = [Udp example_udp], el_last = 0, el_running = True, el_timeout = 0,
      el_io = empty_io\<lparr>fds := [7, 9]\<rparr>\<rparr> :: event_loop"
  have "get_udp_timeout (sess example_udp) 1 409 = Some 15"
    by (simp add: get_udp_timeout_def example_udp_def timeout_defs signed_divide_int_def)
  then obtain st1 where e: "events_round jump_os example_args 5 3 409 (Wait_Ready []) ?st = Some st1"
    "tick (el_io st1) = 5" "el_last st1 = 1000000"
    by (simp add: events_round_def before_poll_def sys_ms_def sys_time_def jump_os_def EPOLL_MIN_CHECK_def example_udp_def
        empty_io_def check_udp_session_def udp_expire_def udp_close_socket_def udp_reset_counts_def sys_close_def UDP_KEEP_TIMEOUT_def)
  have "list_inv (el_sessions ?st) (el_io ?st)"
    by (simp add: list_inv_def all_inv_def held_def examples udp_good_def udp_wf_def sock_ok_def clean_def)
  moreover have "\<forall>x \<in> set (el_sessions ?st). time_of x \<le> 990" by (simp add: example_udp_def)
  moreover have "clock_late jump_os ?st" "clock_late jump_os st1" "\<forall>k \<ge> tick (el_io st1). 5000 + 300 < os_time jump_os k"
    "clock_in jump_os (el_io ?st) (el_io st1) (990 + 3600) 5000"
    using e(2,3) by (simp_all add: clock_late_def clock_in_def jump_os_def EPOLL_MIN_CHECK_def)
  ultimately show ?thesis
    using idle_sessions_reclaimed [OF _ _ _ e(1), of 990 5000] e(1) by (auto simp: held_def example_udp_def)
qed

end
