(* ===== verification/Dns_Messages.thy ===== *)
theory Dns_Messages
  imports Dns
begin

text \<open>
  Messages as a resolver and a server write them, and what \<^verbatim>\<open>dns.c\<close> makes of them: a query reads back
  as its type, class and name, and a response whose answers point to the name of the question reads
  back as that question and its answers.
\<close>

section \<open>Writing a message\<close>

text \<open>The header, with the byte that holds the QR flag and the opcode, the other flags, the counts of questions
  and answers, and the last two counts; and one question.\<close>

definition dns_head :: "u16 \<Rightarrow> byte \<Rightarrow> byte \<Rightarrow> u16 \<Rightarrow> u16 \<Rightarrow> u32 \<Rightarrow> byte list" where
  "dns_head ident flags flags2 qcount acount others =
     be16 ident @ [flags, flags2] @ be16 qcount @ be16 acount @ be32 others"

definition dns_question :: "byte list list \<Rightarrow> u16 \<Rightarrow> u16 \<Rightarrow> byte list" where
  "dns_question ls qtype qclass = dns_labels ls @ 0 # be16 qtype @ be16 qclass"

text \<open>An answer whose name is a pointer to the question's.\<close>

record dns_record =
  r_type :: u16
  r_class :: u16
  r_ttl :: u32
  r_data :: "byte list"

definition dns_record_bytes :: "dns_record \<Rightarrow> byte list" where
  "dns_record_bytes r = [0xC0, 12] @ be16 (r_type r) @ be16 (r_class r) @ be32 (r_ttl r) @
     be16 (of_nat (length (r_data r))) @ r_data r"

text \<open>The records a response may have: the data of an address is not shorter than the address.\<close>

definition record_ok :: "dns_record \<Rightarrow> bool" where
  "record_ok r \<longleftrightarrow> length (r_data r) < 65536 \<and>
     (r_class r = 1 \<and> r_type r = 1 \<longrightarrow> 4 \<le> length (r_data r)) \<and> (r_class r = 1 \<and> r_type r = 28 \<longrightarrow> 16 \<le> length (r_data r))"

text \<open>What the walk finds in it, with \<open>name\<close> in the buffer.\<close>

definition found_in :: "byte list \<Rightarrow> dns_record \<Rightarrow> dns_found" where
  "found_in name r = \<lparr>f_name = name, f_type = r_type r, f_class = r_class r, f_ttl = r_ttl r,
     f_length = of_nat (length (r_data r)),
     f_addr = (if r_class r = 1 \<and> r_type r = 1 then take 4 (r_data r)
               else if r_class r = 1 \<and> r_type r = 28 then take 16 (r_data r) else [])\<rparr>"

text \<open>The name that \<open>get_qname\<close> leaves in the buffer.\<close>

definition name_in :: "byte list list \<Rightarrow> byte list \<Rightarrow> byte list" where
  "name_in ls qname = butlast (dotted ls) @ 0 # drop (length (dotted ls)) qname"

definition name_ok :: "byte list list \<Rightarrow> bool" where
  "name_ok ls \<longleftrightarrow> list_all label_ok ls \<and> ls \<noteq> [] \<and> length (dotted ls) \<le> 255"

lemma length_dns_head [simp]: "length (dns_head i f g q a s) = 12"
  by (simp add: dns_head_def)

lemma length_dns_question [simp]: "length (dns_question ls t c) = length (dns_labels ls) + 5"
  by (simp add: dns_question_def)

lemma dns_head_fields:
  "rd (dns_head i f g q a s @ d) 2 = Some f" "rd_be16 (dns_head i f g q a s @ d) 4 = Some q"
  "rd_be16 (dns_head i f g q a s @ d) 6 = Some a"
proof -
  obtain x y where i: "be16 i = [x, y]" by (auto simp: be16_def)
  obtain u v where q: "be16 q = [u, v]" by (auto simp: be16_def)
  show "rd (dns_head i f g q a s @ d) 2 = Some f" by (simp add: dns_head_def i rd_def)
  show "rd_be16 (dns_head i f g q a s @ d) 4 = Some q"
    using rd_be16_at [of "[x, y, f, g]" q "be16 a @ be32 s @ d"] by (simp add: dns_head_def i numeral_eq_Suc)
  show "rd_be16 (dns_head i f g q a s @ d) 6 = Some a"
    using rd_be16_at [of "[x, y, f, g, u, v]" a "be32 s @ d"] by (simp add: dns_head_def i q numeral_eq_Suc)
qed

section \<open>Reading the question\<close>

text \<open>Behind the name, the type and the class.\<close>

lemma dns_question_read:
  assumes "name_ok ls" "length pre = 12" "12 + length (dns_labels ls) < 65535" "12 + length (dns_labels ls) \<le> datalen"
    "length qname = 256"
  shows "get_qname (pre @ dns_question ls qtype qclass @ rest) datalen (of_nat dns_header_size) qname =
      Some (int (13 + length (dns_labels ls)), butlast (dotted ls) @ 0 # drop (length (dotted ls)) qname)"
    "rd_be16 (pre @ dns_question ls qtype qclass @ rest) (13 + length (dns_labels ls)) = Some qtype"
    "rd_be16 (pre @ dns_question ls qtype qclass @ rest) (13 + length (dns_labels ls) + 2) = Some qclass"
proof -
  have "get_qname (pre @ dns_labels ls @ 0 # be16 qtype @ be16 qclass @ rest) datalen (of_nat (length pre)) qname =
    Some (int (length pre + length (dns_labels ls) + 1), butlast (dotted ls) @ 0 # drop (length (dotted ls)) qname)"
    using assms by (intro get_qname_name) (simp_all add: name_ok_def DNS_QNAME_MAX_def)
  then show "get_qname (pre @ dns_question ls qtype qclass @ rest) datalen (of_nat dns_header_size) qname =
      Some (int (13 + length (dns_labels ls)), butlast (dotted ls) @ 0 # drop (length (dotted ls)) qname)"
    using assms(2) by (simp add: dns_question_def dns_header_size_def algebra_simps)
  show "rd_be16 (pre @ dns_question ls qtype qclass @ rest) (13 + length (dns_labels ls)) = Some qtype"
    using rd_be16_at [of "pre @ dns_labels ls @ [0]" qtype "be16 qclass @ rest"] assms(2)
    by (simp add: dns_question_def algebra_simps)
  show "rd_be16 (pre @ dns_question ls qtype qclass @ rest) (13 + length (dns_labels ls) + 2) = Some qclass"
    using rd_be16_at [of "pre @ dns_labels ls @ [0] @ be16 qtype" qclass rest] assms(2)
    by (simp add: dns_question_def algebra_simps)
qed

section \<open>A pointer to the question's name\<close>

lemma get_qname_pointer:
  assumes "name_ok ls" "length pre = 12" "12 + length (dns_labels ls) < 65536" "12 + length (dns_labels ls) \<le> datalen"
    "length qname = 256" "d = pre @ dns_labels ls @ 0 # rest" "rd d off = Some 0xC0" "rd d (off + 1) = Some 12"
    "off + 2 < 65536"
  shows "get_qname d datalen (of_nat off) qname =
    Some (int (off + 2), butlast (dotted ls) @ 0 # drop (length (dotted ls)) qname)"
proof -
  let ?n = "length (dotted ls)"
  have ls: "list_all label_ok ls" "ls \<noteq> []" "?n \<le> 255" using assms(1) by (simp_all add: name_ok_def)
  have n0: "0 < ?n" using ls(2) by (cases ls) simp_all
  have w: "wr_block qname 0 [0] = Some (0 # tl qname)"
    using assms(5) by (cases qname) (simp_all add: wr_block_def)
  have p: "unat (of_nat off :: u16) = off" using assms(9) by (simp add: unat_of_nat)
  have hd: "rd d 12 = Some (hd (dns_labels ls @ [0]))"
    using ls(2) assms(2,6) by (cases ls) (simp_all add: rd_def nth_append)
  have "ucast ((0xC0 :: byte) AND 0x3F) * 256 + ucast (12 :: byte) = (12 :: u16)" by code_simp
  then have "qname_loop d datalen (of_nat off) 0xC0 0 False (of_nat off) (0 # tl qname) =
      qname_loop d datalen 12 (hd (dns_labels ls @ [0])) 0 True (of_nat off + 2) (0 # tl qname)"
    using assms(7,8) hd p by (subst qname_loop.simps) simp
  also have "\<dots> = Some (of_nat (12 + length (dns_labels ls)), 0, of_nat ?n, True, of_nat off + 2, dotted ls @ drop ?n qname)"
  proof -
    have "qname_loop (pre @ dns_labels ls @ 0 # rest) datalen (of_nat (length pre)) (hd (dns_labels ls @ [0]))
        (of_nat (length ([] :: byte list))) True (of_nat off + 2) ([] @ 0 # tl qname) =
      Some (of_nat (length pre + length (dns_labels ls)), 0, of_nat (length ([] :: byte list) + ?n), True,
        of_nat off + 2, [] @ dotted ls @ drop ?n (0 # tl qname))"
      using assms ls by (intro qname_loop_labels) simp_all
    then show ?thesis
      using assms(2,5,6) n0 by (cases qname; cases ?n) simp_all
  qed
  finally have l: "qname_loop d datalen (of_nat off) 0xC0 0 False (of_nat off) (0 # tl qname) =
      Some (of_nat (12 + length (dns_labels ls)), 0, of_nat ?n, True, of_nat off + 2, dotted ls @ drop ?n qname)" .
  have n: "unat (of_nat ?n :: byte) = ?n" using ls(3) by (simp add: unat_of_nat)
  then have nz: "(of_nat ?n :: byte) \<noteq> 0" using n0 by (metis unat_0 less_irrefl)
  have "unat (of_nat off + 2 :: u16) = off + 2" using assms(9) by (simp add: unat_word_ariths unat_of_nat)
  then have ret: "uint (of_nat off + 2 :: u16) = int (off + 2)" by (metis uint_nat)
  have wr: "wr_block (dotted ls @ drop ?n qname) (?n - 1) [0] = Some (butlast (dotted ls) @ 0 # drop ?n qname)"
    using n0 by (simp add: wr_block_def butlast_conv_take)
  have r: "rd d (unat (of_nat off :: u16)) = Some 0xC0" by (simp only: p assms(7))
  show ?thesis
    by (simp only: get_qname_def w bind.bind_lunit r l prod.case Let_def nz simp_thms if_False if_True n wr ret) simp
qed

section \<open>The answers\<close>

lemma length_dns_record_bytes [simp]: "length (dns_record_bytes r) = 12 + length (r_data r)"
  by (simp add: dns_record_bytes_def)

text \<open>The fields of an answer behind its name.\<close>

lemma dns_record_fields:
  assumes "d = pre @ dns_record_bytes r @ rest"
  shows "rd d (length pre) = Some 0xC0" "rd d (length pre + 1) = Some 12"
    "rd_be16 d (length pre + 2) = Some (r_type r)" "rd_be16 d (length pre + 4) = Some (r_class r)"
    "rd_be32 d (length pre + 6) = Some (r_ttl r)" "rd_be16 d (length pre + 10) = Some (of_nat (length (r_data r)))"
    "n \<le> length (r_data r) \<Longrightarrow> rd_block d (length pre + 12) n = Some (take n (r_data r))"
proof -
  let ?t = "be16 (r_type r)" and ?c = "be16 (r_class r)" and ?s = "be32 (r_ttl r)" and ?l = "be16 (of_nat (length (r_data r)))"
  have d: "d = pre @ [0xC0, 12] @ ?t @ ?c @ ?s @ ?l @ r_data r @ rest" by (simp add: assms dns_record_bytes_def)
  show "rd d (length pre) = Some 0xC0" "rd d (length pre + 1) = Some 12" by (simp_all add: d rd_def nth_append)
  show "rd_be16 d (length pre + 2) = Some (r_type r)"
    using rd_be16_at [of "pre @ [0xC0, 12]" "r_type r"] by (simp add: d)
  show "rd_be16 d (length pre + 4) = Some (r_class r)"
    using rd_be16_at [of "pre @ [0xC0, 12] @ ?t" "r_class r"] by (simp add: d)
  show "rd_be32 d (length pre + 6) = Some (r_ttl r)"
    using rd_be32_at [of "pre @ [0xC0, 12] @ ?t @ ?c" "r_ttl r"] by (simp add: d)
  show "rd_be16 d (length pre + 10) = Some (of_nat (length (r_data r)))"
    using rd_be16_at [of "pre @ [0xC0, 12] @ ?t @ ?c @ ?s" "of_nat (length (r_data r))"] by (simp add: d)
  show "rd_block d (length pre + 12) n = Some (take n (r_data r))" if "n \<le> length (r_data r)"
    using that by (simp add: d rd_block_def)
qed

text \<open>The layout of a response: the header, the question, answers before and behind.\<close>

definition response_at :: "byte list \<Rightarrow> nat \<Rightarrow> byte list list \<Rightarrow> byte list \<Rightarrow> byte list \<Rightarrow> bool" where
  "response_at d datalen ls pre rest \<longleftrightarrow> name_ok ls \<and> d = pre @ rest \<and> datalen \<le> 65535 \<and>
     12 + length (dns_labels ls) < length pre \<and> length pre \<le> datalen \<and>
     (\<exists>head more. pre = head @ dns_labels ls @ 0 # more \<and> length head = 12)"

lemma response_at_name:
  assumes "response_at d datalen ls pre rest" "length qname = 256" "rd d (length pre) = Some 0xC0"
    "rd d (length pre + 1) = Some 12" "length pre + 2 \<le> datalen"
  shows "get_qname d datalen (of_nat (length pre)) qname =
    Some (int (length pre + 2), butlast (dotted ls) @ 0 # drop (length (dotted ls)) qname)"
proof -
  obtain head more where l: "name_ok ls" "datalen \<le> 65535" "length head = 12" "12 + length (dns_labels ls) < length pre"
    and d: "d = head @ dns_labels ls @ 0 # (more @ rest)"
    using assms(1) unfolding response_at_def by auto
  show ?thesis using l assms(2-5) by (intro get_qname_pointer [OF l(1,3) _ _ _ d]) simp_all
qed

lemma name_buffer: "name_ok ls \<Longrightarrow> length q = 256 \<Longrightarrow> length (name_in ls q) = 256"
  by (cases ls) (auto simp: name_ok_def name_in_def Suc_diff_le)

lemma name_in_again:
  assumes "name_ok ls"
  shows "name_in ls (name_in ls q) = name_in ls q"
proof -
  have "0 < length (dotted ls)" using assms by (cases ls) (simp_all add: name_ok_def)
  then have "length (butlast (dotted ls)) + 1 = length (dotted ls)" by simp
  then have "drop (length (dotted ls)) (butlast (dotted ls) @ 0 # x) = x" for x
    by (metis add_diff_cancel_left' append_eq_conv_conj drop_Suc_Cons drop_append drop_0 Suc_eq_plus1 diff_Suc_Suc drop_all le_add1 append_Nil)
  then show ?thesis by (simp add: name_in_def)
qed

lemma dns_answer_record:
  assumes "response_at d datalen ls pre (dns_record_bytes r @ rest)" "record_ok r" "length qname = 256"
    "length pre + length (dns_record_bytes r) \<le> datalen"
  shows "dns_answer d datalen (int (length pre)) qname =
    Some (Some (found_in (name_in ls qname) r, int (length pre + length (dns_record_bytes r)), name_in ls qname))"
proof -
  let ?q = "name_in ls qname"
  have d: "d = pre @ dns_record_bytes r @ rest" and ok: "name_ok ls" using assms(1) by (simp_all add: response_at_def)
  note f = dns_record_fields [OF d]
  have g: "get_qname d datalen (word_of_int (int (length pre))) qname = Some (int (length pre + 2), ?q)"
    using response_at_name [OF assms(1,3) f(1,2)] assms(4) by (simp add: name_in_def)
  have l: "uint (of_nat (length (r_data r)) :: u16) = int (length (r_data r))"
    using assms(2) by (simp add: record_ok_def uint_nat unat_of_nat)
  define k where "k = length pre + 2"
  have f': "rd_be16 d k = Some (r_type r)" "rd_be16 d (k + 2) = Some (r_class r)" "rd_be32 d (k + 4) = Some (r_ttl r)"
    "rd_be16 d (k + 8) = Some (of_nat (length (r_data r)))"
    "n \<le> length (r_data r) \<Longrightarrow> rd_block d (k + 10) n = Some (take n (r_data r))" for n
    using f(3-7) by (simp_all add: k_def numeral_eq_Suc)
  have le: "k + 10 + length (r_data r) \<le> datalen" using assms(4) by (simp add: k_def)
  have "0 < k" by (simp add: k_def)
  have n: "nat (int k + 10) = k + 10" "nat (int k) = k" by simp_all
  have "dns_answer d datalen (int (length pre)) qname =
      Some (Some (found_in ?q r, int k + 10 + int (length (r_data r)), ?q))"
    unfolding dns_answer_def g [folded k_def] bind.bind_lunit prod.case Let_def n f'(1-4) l
    using assms(2) le \<open>0 < k\<close> f'(5) [of 4] f'(5) [of 16] by (auto simp: record_ok_def found_in_def)
  moreover have "int k + 10 + int (length (r_data r)) = int (length pre + length (dns_record_bytes r))"
    by (simp add: k_def)
  ultimately show ?thesis by simp
qed

lemma dns_answers_records:
  assumes "response_at d datalen ls pre (concat (map dns_record_bytes rs) @ rest)" "list_all record_ok rs"
    "length qname = 256" "length pre + length (concat (map dns_record_bytes rs)) \<le> datalen"
  shows "dns_answers (length rs) d datalen (int (length pre)) qname =
    Some (map (found_in (name_in ls qname)) rs, int (length pre + length (concat (map dns_record_bytes rs))))"
  using assms
proof (induction rs arbitrary: pre qname)
  case (Cons r rs)
  have r: "response_at d datalen ls pre (dns_record_bytes r @ concat (map dns_record_bytes rs) @ rest)"
    using Cons.prems(1) by simp
  let ?q = "name_in ls qname"
  have ok: "name_ok ls" using r by (simp add: response_at_def)
  have a: "dns_answer d datalen (int (length pre)) qname =
      Some (Some (found_in ?q r, int (length pre + length (dns_record_bytes r)), ?q))"
    by (rule dns_answer_record [OF r]) (use Cons.prems in simp_all)
  have "response_at d datalen ls (pre @ dns_record_bytes r) (concat (map dns_record_bytes rs) @ rest)"
    unfolding response_at_def
  proof (intro conjI)
    obtain head more where "pre = head @ dns_labels ls @ 0 # more" "length head = 12"
      using Cons.prems(1) by (auto simp: response_at_def)
    then show "\<exists>head more. pre @ dns_record_bytes r = head @ dns_labels ls @ 0 # more \<and> length head = 12"
      by (intro exI [of _ head] exI [of _ "more @ dns_record_bytes r"]) simp
  qed (use Cons.prems(1,4) in \<open>simp_all add: response_at_def\<close>)
  from Cons.IH [OF this _ name_buffer [OF ok Cons.prems(3)]] Cons.prems(2,4) have
    "dns_answers (length rs) d datalen (int (length (pre @ dns_record_bytes r))) ?q =
      Some (map (found_in ?q) rs, int (length (pre @ dns_record_bytes r) + length (concat (map dns_record_bytes rs))))"
    by (simp add: name_in_again [OF ok])
  then show ?case using a by simp
qed simp

section \<open>A query and its response\<close>

text \<open>C17: a query is read back: from the bytes of a query with the name \<open>ls\<close>, whatever follows them in
  the buffer, \<open>get_dns_query\<close> gets the type, the class and the name with dots between its labels, for any
  name of at most 254 characters with labels of 1 to 63.\<close>

theorem get_dns_query_roundtrip:
  assumes "name_ok ls" "flags AND 0x80 = 0" "drop_bit 3 flags AND 0xF = 0" "qcount > 0" "length qname = 256"
  shows "get_dns_query (dns_head ident flags flags2 qcount acount others @ dns_question ls qtype qclass @ rest)
      (12 + length (dns_question ls qtype qclass)) qname =
    Some (0, Some (qtype, qclass), butlast (dotted ls) @ 0 # drop (length (dotted ls)) qname)"
proof -
  let ?h = "dns_head ident flags flags2 qcount acount others"
  have l: "length (dns_labels ls) \<le> 255" using assms(1) length_dotted [of ls] by (simp add: name_ok_def)
  have "ls \<noteq> []" "list_all label_ok ls" using assms(1) by (simp_all add: name_ok_def)
  note q = dns_question_read [OF assms(1), of ?h "12 + length (dns_question ls qtype qclass)" qname qtype qclass rest,
      OF _ _ _ assms(5)]
  have n: "nat (int (13 + length (dns_labels ls))) = 13 + length (dns_labels ls)" by simp
  show ?thesis
    unfolding get_dns_query_def dns_qr_def dns_opcode_def dns_head_fields
    using assms(2-4) l q n by (simp add: dns_header_size_def del: nat_int_add)
qed

theorem get_dns_query_roundtrip_witness:
  "get_dns_query (dns_head 7 1 0 1 0 0 @ dns_question [[97], [111, 114, 103]] 28 1 @ [5, 6])
      (12 + length (dns_question [[97], [111, 114, 103]] 28 1)) (replicate 256 0) =
    Some (0, Some (28, 1), butlast (dotted [[97], [111, 114, 103]]) @ 0 # drop (length (dotted [[97], [111, 114, 103 :: byte]])) (replicate 256 0))"
  by (rule get_dns_query_roundtrip) (simp_all add: name_ok_def label_ok_def drop_bit_eq_div)

text \<open>C18: a response is read to its end: from the bytes of a response with one question and any positive number of
  answers whose names point to the question's, \<open>parse_dns_response\<close> reads without leaving the message
  the name, type and class of the question and then every answer in order (its name, type, class, time to live,
  length and, for A and AAAA, the address), and stops exactly at the end of the message, provided that the
  data of an A or AAAA record are not shorter than the address.\<close>

theorem parse_dns_response_reads:
  assumes "name_ok ls" "flags AND 0x80 \<noteq> 0" "drop_bit 3 flags AND 0xF = 0" "qcount > 0" "list_all record_ok rs"
    "rs \<noteq> []" "length rs < 65536" "length qname = 256"
    "d = dns_head ident flags flags2 qcount (of_nat (length rs)) others @ dns_question ls qtype qclass @
       concat (map dns_record_bytes rs)" "length d \<le> 65535"
  shows "parse_dns_response d (length d) qname =
    Some (Some (name_in ls qname, qtype, qclass, map (found_in (name_in ls qname)) rs, int (length d)))"
proof -
  let ?h = "dns_head ident flags flags2 qcount (of_nat (length rs)) others"
  let ?q = "name_in ls qname"
  have a: "unat (of_nat (length rs) :: u16) = length rs" using assms(7) by (simp add: unat_of_nat)
  then have nz: "(of_nat (length rs) :: u16) > 0" using assms(6) by (metis length_0_conv unat_0 word_neq_0_conv)
  have len: "length d = 17 + length (dns_labels ls) + length (concat (map dns_record_bytes rs))"
    by (simp add: assms(9))
  have l: "length (dns_labels ls) \<le> 255" using assms(1) length_dotted [of ls] by (simp add: name_ok_def)
  note q = dns_question_read [OF assms(1), of ?h "length d" qname qtype qclass "concat (map dns_record_bytes rs)",
      OF _ _ _ assms(8), folded assms(9)]
  have r: "response_at d (length d) ls (?h @ dns_question ls qtype qclass) (concat (map dns_record_bytes rs) @ [])"
    using assms(1,10) unfolding response_at_def by (auto simp: assms(9) dns_question_def)
  have p: "int (length (?h @ dns_question ls qtype qclass)) = int (13 + length (dns_labels ls)) + 4"
    "int (length (?h @ dns_question ls qtype qclass) + length (concat (map dns_record_bytes rs))) = int (length d)"
    by (simp_all add: len)
  have "dns_answers (length rs) d (length d) (int (length (?h @ dns_question ls qtype qclass))) ?q =
      Some (map (found_in (name_in ls ?q)) rs, int (length (?h @ dns_question ls qtype qclass) + length (concat (map dns_record_bytes rs))))"
    by (rule dns_answers_records [OF r assms(5) name_buffer [OF assms(1,8)]]) (simp add: len)
  then have w: "dns_answers (length rs) d (length d) (int (13 + length (dns_labels ls)) + 4) ?q =
      Some (map (found_in ?q) rs, int (length d))"
    unfolding p name_in_again [OF assms(1)] .
  have f: "rd d 2 = Some flags" "rd_be16 d 4 = Some qcount" "rd_be16 d 6 = Some (of_nat (length rs))"
    by (simp_all add: assms(9) dns_head_fields)
  have n: "nat (int (13 + length (dns_labels ls))) = 13 + length (dns_labels ls)" by simp
  have qs: "get_qname d (length d) (of_nat dns_header_size) qname = Some (int (13 + length (dns_labels ls)), ?q)"
    "rd_be16 d (13 + length (dns_labels ls)) = Some qtype" "rd_be16 d (13 + length (dns_labels ls) + 2) = Some qclass"
    using q l len by (simp_all add: name_in_def)
  show ?thesis
    unfolding parse_dns_response_def dns_qr_def dns_opcode_def f bind.bind_lunit qs prod.case n a w
    using assms(2-4) nz len by (simp add: dns_header_size_def)
qed

definition example_record :: dns_record where
  "example_record = \<lparr>r_type = 1, r_class = 1, r_ttl = 3600, r_data = [93, 184, 216, 34]\<rparr>"

theorem parse_dns_response_reads_witness:
  "\<exists>d. d = dns_head 7 0x80 0 1 (of_nat 2) 0 @ dns_question [[97], [111, 114, 103]] 1 1 @
      concat (map dns_record_bytes [example_record, example_record]) \<and> length d = 55 \<and>
    parse_dns_response d (length d) (replicate 256 0) =
      Some (Some (name_in [[97], [111, 114, 103]] (replicate 256 0), 1, 1,
        map (found_in (name_in [[97], [111, 114, 103]] (replicate 256 0))) [example_record, example_record], 55))"
proof -
  let ?n = "name_in [[97], [111, 114, 103]] (replicate 256 0)"
  have "parse_dns_response d (length d) (replicate 256 0) =
      Some (Some (?n, 1, 1, map (found_in ?n) [example_record, example_record], int (length d)))"
    if "d = dns_head 7 0x80 0 1 (of_nat (length [example_record, example_record])) 0 @ dns_question [[97], [111, 114, 103]] 1 1 @
      concat (map dns_record_bytes [example_record, example_record])" for d
    by (rule parse_dns_response_reads [OF _ _ _ _ _ _ _ _ that])
      (simp_all add: that name_ok_def label_ok_def record_ok_def example_record_def drop_bit_eq_div)
  then show ?thesis by (simp add: example_record_def)
qed

end
