(* ===== verification/Jvm.thy ===== *)
theory Jvm
  imports Prelude
begin

text \<open>
  The calls of the JVM (\<^verbatim>\<open>tun2http.c\<close>, \<open>sdk_int\<close> of \<^verbatim>\<open>util.c\<close>): what the native thread asks of it, the
  exceptions it may leave pending and the references it hands out. The answers are a parameter \<open>jvm\<close>,
  one for every call; by the JNI's documentation a class or a method that is not found is reported by \<open>NULL\<close> and a
  pending exception, and a local reference lives until it is deleted or the thread returns to the JVM,
  which a native thread does only at its end. \<open>None\<close> is a call with \<open>NULL\<close> where an object is required.
\<close>

section \<open>State and answers\<close>

text \<open>The number of calls, the live local references, whether an exception is pending, and the cached method
  \<open>midProtect\<close>.\<close>

record jni =
  jcalls :: nat
  local_refs :: nat
  pending_ex :: bool
  mid_protect :: bool

text \<open>Whether a class and a method are found, and what a method returns and whether it throws.\<close>

record jvm =
  jv_class :: "nat \<Rightarrow> bool"
  jv_method :: "nat \<Rightarrow> bool"
  jv_call :: "nat \<Rightarrow> bool \<times> bool"
  jv_int :: "nat \<Rightarrow> int"
  jv_global :: "nat \<Rightarrow> bool"

section \<open>The helpers\<close>

text \<open>The reference to the exception is deleted again.\<close>

definition jniCheckException :: "jni \<Rightarrow> bool \<times> jni" where
  "jniCheckException st =
     (if pending_ex st then (True, st\<lparr>jcalls := jcalls st + 1, pending_ex := False\<rparr>)
      else (False, st\<lparr>jcalls := jcalls st + 1\<rparr>))"

text \<open>Exceptions are looked for when the class was found, not when it was missing.\<close>

definition jniFindClass :: "jvm \<Rightarrow> jni \<Rightarrow> bool \<times> jni" where
  "jniFindClass jv st =
     (if \<not> jv_class jv (jcalls st) then (False, st\<lparr>jcalls := jcalls st + 1, pending_ex := True\<rparr>)
      else (True, snd (jniCheckException (st\<lparr>jcalls := jcalls st + 1, local_refs := local_refs st + 1\<rparr>))))"

definition jniGetMethodID :: "jvm \<Rightarrow> jni \<Rightarrow> bool \<times> jni" where
  "jniGetMethodID jv st =
     (if \<not> jv_method jv (jcalls st)
      then (False, snd (jniCheckException (st\<lparr>jcalls := jcalls st + 1, pending_ex := True\<rparr>)))
      else (True, st\<lparr>jcalls := jcalls st + 1\<rparr>))"

definition jniGlobalRef :: "jvm \<Rightarrow> jni \<Rightarrow> bool \<times> jni" where
  "jniGlobalRef jv st = (jv_global jv (jcalls st), st\<lparr>jcalls := jcalls st + 1\<rparr>)"

definition sdk_int :: "jvm \<Rightarrow> jni \<Rightarrow> (int \<times> jni) option" where
  "sdk_int jv st =
     (let (found, st) = jniFindClass jv st
      in if \<not> found then None else Some (jv_int jv (jcalls st), st\<lparr>jcalls := jcalls st + 2\<rparr>))"

section \<open>Protecting a socket\<close>

text \<open>The reference to the class is deleted on success only.\<close>

definition protect_socket :: "jvm \<Rightarrow> jni \<Rightarrow> (int \<times> jni) option" where
  "protect_socket jv st = do {
     let st = st\<lparr>jcalls := jcalls st + 1, local_refs := local_refs st + 1\<rparr>;
     let (mid, st) = (if mid_protect st then (True, st) else jniGetMethodID jv st);
     let st = st\<lparr>mid_protect := mid\<rparr>;
     if \<not> mid then None
     else do {
       let (protected, throws) = jv_call jv (jcalls st);
       let st = snd (jniCheckException (st\<lparr>jcalls := jcalls st + 1, pending_ex := throws\<rparr>));
       if \<not> protected then Some (- 1, st)
       else Some (0, st\<lparr>jcalls := jcalls st + 1, local_refs := local_refs st - 1\<rparr>)
     }
   }"

lemma jniCheckException_refs [simp]:
  "local_refs (snd (jniCheckException st)) = local_refs st" "mid_protect (snd (jniCheckException st)) = mid_protect st"
  "pending_ex (snd (jniCheckException st)) = False"
  by (simp_all add: jniCheckException_def)

lemma jniGetMethodID_refs: "jniGetMethodID jv st = (found, st') \<Longrightarrow> local_refs st' = local_refs st"
  by (auto simp: jniGetMethodID_def split: if_splits)

text \<open>The result, and what is left behind: no exception, and one reference when the socket is not protected.\<close>

lemma protect_socket_effect:
  assumes "protect_socket jv st = Some (r, st')"
  shows "(r = 0 \<or> r = - 1) \<and> local_refs st' = local_refs st + (if r = 0 then 0 else 1) \<and>
    \<not> pending_ex st' \<and> mid_protect st'"
  using assms
  by (auto simp: protect_socket_def Let_def split: prod.splits if_splits dest!: jniGetMethodID_refs)

text \<open>Protecting one socket after another, as the sessions of a thread are opened.\<close>

fun protects :: "jvm \<Rightarrow> nat \<Rightarrow> jni \<Rightarrow> (int list \<times> jni) option" where
  "protects jv 0 st = Some ([], st)"
| "protects jv (Suc n) st = do {
     (r, st) \<leftarrow> protect_socket jv st;
     (rs, st) \<leftarrow> protects jv n st;
     Some (r # rs, st)
   }"

lemma protect_socket_cached: "mid_protect st \<Longrightarrow> \<exists>r st'. protect_socket jv st = Some (r, st')"
  by (simp add: protect_socket_def Let_def split: prod.split)

text \<open>C36: a socket that cannot be protected costs a local reference for the rest of the thread: of any number of calls
  of \<open>protect_socket\<close>, each one that fails leaves one reference more, and one that succeeds leaves none; no
  exception stays pending. The id of the Java method has been looked up before.\<close>

theorem protect_failures_leak:
  assumes "mid_protect st"
  shows "\<exists>rs st'. protects jv n st = Some (rs, st') \<and> length rs = n \<and> set rs \<subseteq> {0, - 1} \<and>
    local_refs st' = local_refs st + length (filter (\<lambda>r. r \<noteq> 0) rs) \<and> (n > 0 \<longrightarrow> \<not> pending_ex st')"
  using assms
proof (induction n arbitrary: st)
  case (Suc n)
  obtain r st1 where p: "protect_socket jv st = Some (r, st1)" using protect_socket_cached [OF Suc.prems] by blast
  note e = protect_socket_effect [OF p]
  obtain rs st' where ps: "protects jv n st1 = Some (rs, st')" "length rs = n" "set rs \<subseteq> {0, - 1}"
    "local_refs st' = local_refs st1 + length (filter (\<lambda>r. r \<noteq> 0) rs)" "n > 0 \<longrightarrow> \<not> pending_ex st'"
    using Suc.IH [of st1] e by auto
  have "\<not> pending_ex st'" using ps e by (cases "n = 0") auto
  moreover have "protects jv (Suc n) st = Some (r # rs, st')" using p ps(1) by simp
  ultimately show ?case using ps e by (intro exI [of _ "r # rs"] exI [of _ st']) auto
qed simp

theorem protect_failures_leak_witness:
  "\<exists>rs st'. protects \<lparr>jv_class = \<lambda>_. True, jv_method = \<lambda>_. True, jv_call = \<lambda>_. (False, False), jv_int = \<lambda>_. 21,
      jv_global = \<lambda>_. True\<rparr> 3 \<lparr>jcalls = 0, local_refs = 1, pending_ex = False, mid_protect = True\<rparr> = Some (rs, st') \<and>
    rs = [- 1, - 1, - 1] \<and> local_refs st' = 4"
proof -
  let ?jv = "\<lparr>jv_class = \<lambda>_. True, jv_method = \<lambda>_. True, jv_call = \<lambda>_. (False, False), jv_int = \<lambda>_. 21, jv_global = \<lambda>_. True\<rparr>"
  let ?st = "\<lparr>jcalls = 0, local_refs = 1, pending_ex = False, mid_protect = True\<rparr>"
  obtain rs st' where p: "protects ?jv 3 ?st = Some (rs, st')" "local_refs st' = local_refs ?st + length (filter (\<lambda>r. r \<noteq> 0) rs)"
    using protect_failures_leak [of ?st ?jv 3] by auto
  moreover have "rs = [- 1, - 1, - 1]"
    using p(1) by (auto simp: numeral_eq_Suc protect_socket_def jniCheckException_def)
  ultimately show ?thesis by simp
qed

section \<open>System properties and the MTU\<close>

text \<open>\<open>jni_getprop\<close>: a property that is not set reads as the empty string.\<close>

definition jni_getprop :: "(string \<Rightarrow> string option) \<Rightarrow> string \<Rightarrow> string" where
  "jni_getprop props name = (case props name of None \<Rightarrow> [] | Some v \<Rightarrow> v)"

end
