(* ===== verification/Spec2Isabelle.thy ===== *)
theory Spec2Isabelle
  imports Jni Flows Reclaim Tcp_Stream Dns_Messages Jvm
begin

text \<open>
  Verification of \<^verbatim>\<open>tun2http\<close>, the native part of the VPN client
  (\<^verbatim>\<open>app/src/main/cpp\<close>): a user-space network stack that reads the IP packets the apps of
  the device write to a tun device, ends their TCP connections itself and carries the data over
  ordinary sockets, through an HTTP proxy for the ports 80 and 443; UDP datagrams and ICMP echo
  requests are relayed.

  \<^bold>\<open>The program and its parts.\<close> One native thread (\<^verbatim>\<open>handle_events\<close>, session.c) polls a signal
  pipe, the tun device and one socket per session. A packet goes \<^verbatim>\<open>check_tun\<close> \<open>\<rightarrow>\<close>
  \<^verbatim>\<open>handle_ip\<close> (ip.c) \<open>\<rightarrow>\<close> \<^verbatim>\<open>handle_icmp\<close>, \<^verbatim>\<open>handle_udp\<close> or \<^verbatim>\<open>handle_tcp\<close>, which find or create
  the session and send its data; an event on a socket goes to \<^verbatim>\<open>check_icmp_socket\<close>,
  \<^verbatim>\<open>check_udp_socket\<close> or \<^verbatim>\<open>check_tcp_socket\<close>, which write packets to the tun device. The sessions
  are one linked list that lives on between two runs of the thread; the periodic checks expire
  sessions, close their sockets and unlink them.

  \<^bold>\<open>The theories, in the order of their imports.\<close>

  \<^item> \<^bold>\<open>Prelude\<close>: bytes, checked reads of a buffer (\<open>rd\<close> is \<open>None\<close> outside of it: an over-read
    of the C code is a value of the model), byte orders, C strings.
  \<^item> \<^bold>\<open>Util\<close> (util.c): \<open>calc_checksum\<close>, \<open>compare_u32\<close>, the hexadecimal routines, \<open>trim\<close>. The checksum is
    the sum of the 16-bit words in ones' complement, through the locale \<open>ones_sum\<close>; the comparison
    is compared with the serial numbers of RFC 1982.
  \<^item> \<^bold>\<open>Kernel\<close>: the operating system as a parameter. An \<open>os\<close> holds the answer of the n-th call,
    \<open>io\<close> counts the calls, holds the open descriptors and what \<^verbatim>\<open>recv\<close> will find on each, and
    records every effect in order; \<open>clean\<close> says that none of them was the close of a descriptor that
    was not open. What POSIX promises of an answer is built into the calls (a count is at most the
    bytes offered, a new descriptor is not one that is open); nothing else is assumed of it.
  \<^item> \<^bold>\<open>Packets\<close>: the IPv4 and IPv6 headers and pseudo headers of the writers.
  \<^item> \<^bold>\<open>Sessions\<close>: the structs of tun2http.h as records, \<open>session\<close> the union of the three kinds;
    the linked list is a list of them, the head first, and a pointer to a session its \<open>sid\<close>.
  \<^item> \<^bold>\<open>Contracts\<close>: the interface of the event loop to the protocols. The locales
    \<open>session_frame\<close>, \<open>session_op\<close> and \<open>session_check\<close> state what an operation on one session
    promises (it keeps the session's invariant and touches no other descriptor) and give what a
    walk over the list keeps; every protocol interprets them.
  \<^item> \<^bold>\<open>Tls\<close> (tls.c), \<^bold>\<open>Http\<close> (http.c), \<^bold>\<open>Dns\<close> (dns.c): the parsers and the rewriting of requests.
  \<^item> \<^bold>\<open>Tcp_Write\<close>, \<^bold>\<open>Tcp_Session\<close>, \<^bold>\<open>Tcp_Queue\<close>, \<^bold>\<open>Tcp_Socket\<close>, \<^bold>\<open>Tcp_Handle\<close>, \<^bold>\<open>Tcp_Machine\<close>
    (tcp.c): the packets that are written; the periodic check, the monitoring and the windows; the
    queue of segments; an event of a socket; a packet of the app; and the protocol automaton
    \<open>tcp_next\<close> that all of them refine (\<open>tcp_life\<close> is the life of one session, a step for each
    thing the event loop does with it).
  \<^item> \<^bold>\<open>Tcp_Relay\<close>, \<^bold>\<open>Tcp_Stream\<close>: a TCP session as a relay. \<open>tcp_relay\<close> is a run of a session
    with the history of its own effects, the steps those of \<open>tcp_life\<close>; the locale \<open>relay_history\<close> asks of a
    property of history and session that the few operations that touch a stream keep it (all others are
    mute), and gives that every run does. It is interpreted on \<open>upload\<close>, \<open>download\<close> and \<open>stuck\<close>. A
    stream gives the byte at each 32-bit sequence number, so the app's is shorter than 4 GiB; port 80 is
    left out, whose data is rewritten on the way (\<open>Http\<close>).
  \<^item> \<^bold>\<open>Udp\<close> (udp.c, dhcp.c), \<^bold>\<open>Icmp\<close> (icmp.c), \<^bold>\<open>Uid\<close> (\<^verbatim>\<open>get_uid\<close> of ip.c).
  \<^item> \<^bold>\<open>Ip\<close> (ip.c): \<open>parse_ip\<close>, \<open>transport\<close> and \<open>handle_ip\<close>; \<open>check_tun\<close>.
  \<^item> \<^bold>\<open>Session_List\<close>: the invariant \<open>list_inv\<close> of all sessions together, kept by every packet.
  \<^item> \<^bold>\<open>Events\<close> (session.c): the preparation of the thread, the counting, monitoring and checking
    of the sessions and \<open>events_round\<close>, one pass of the loop; \<open>events_step\<close> is its step relation.
    The locale \<open>loop_invariant\<close> asks of a property of the list that the four operations of the loop keep
    it, and gives that every round keeps it; it is interpreted on \<open>list_inv\<close> and, in \<open>Flows\<close>, on \<open>flows_inv\<close>.
  \<^item> \<^bold>\<open>Jni\<close> (tun2http.c): the calls of the Java side, \<open>vpn_step\<close> a step for each; the locale's lemmas
    are carried on to the whole library.
  \<^item> \<^bold>\<open>Jvm\<close> (tun2http.c): what the native thread asks of the JVM, \<open>protect_socket\<close> in particular;
    the answers are a parameter \<open>jvm\<close>.
  \<^item> \<^bold>\<open>Receiver\<close>, \<^bold>\<open>Framing\<close>, \<^bold>\<open>Tcp_Proxy\<close>, \<^bold>\<open>Flows\<close>: the receiver's checks \<open>packet_ok\<close> and that the writers
    meet them; that each operation keeps the addresses and ports of its session and writes
    such packets only (the collection \<open>framing\<close>); where the CONNECT request of a session and its answer are in the history
    of effects (\<open>handshake\<close>), and that the operations keep this (\<open>meets\<close>) and hand the app nothing
    before (\<open>keeps_back\<close>); and the invariant of the whole library that follows from all of it.
  \<^item> \<^bold>\<open>Reclaim\<close>: two rounds after the timeouts no session is left.
  \<^item> \<^bold>\<open>Dns_Messages\<close>: queries and responses as they are written, and what the parsers of \<open>Dns\<close> make of them.
  \<^item> This theory: what holds of the TCP sessions in every state of the library
    and of their CONNECT requests (\<open>library_proxy_first\<close>). \<open>Tcp_Machine\<close> adds the invariant of the automaton to the contracts of
    the TCP operations (\<open>tcp_ok\<close>), and the walks over the list carry it through every round.

  \<^bold>\<open>What the groups of lemmas show.\<close> The descriptors are safe: over any run of the library no two
  sessions share a descriptor, none is closed twice, and none is left open by a session that is
  deleted or by a stop; idle sessions go. The list is a table of flows: a packet has one session. A TCP session follows its automaton, and \<open>CLOSE\<close> is final. On a
  proxied port the app is handed nothing before the proxy has answered the CONNECT request, where any \<^verbatim>\<open>recv\<close> without an error is
  an answer, an end of file as well; the other way round there is no such order: \<^verbatim>\<open>check_tcp_socket\<close> sends what the app has
  queued as soon as the session is in \<open>SYN_RECV\<close>, answered or not. The stream is kept: over any run of a
  session the socket takes the app's stream in order, as long as no send fails, and the app gets the
  server's; a segment that overlaps what was forwarded and a FIN that comes too early break this. Every packet written has
  checksums that its receiver accepts, and its header reads back as written. The parsers stay inside
  their buffers or the theorem says where they do not. The rest are bounds, totality and the places
  where the code does something other than it means to (the findings).

  \<^bold>\<open>How the code is modelled.\<close> Integers have their width (\<open>u16\<close>, \<open>u32\<close>, \<open>u64\<close>), and a signed
  \<open>int\<close> is an \<open>int\<close> where the code does not rely on its wrapping. The time is the \<open>os\<close>'s. A loop
  that may not end is a \<open>partial_function (option)\<close>, and \<open>None\<close> means that it does not return or
  that the code reads outside of a buffer (\<open>qname_loop\<close>, \<open>ext_loop\<close>, \<open>tcp_options_loop\<close>,
  \<open>tun_loop\<close>, \<open>udp_loop\<close>); every other loop is a total function. Where a theorem says that a loop does not end, the loop's
  body is a definition of its own (\<open>qname_pass\<close>, \<open>tcp_options_pass\<close>), and \<open>passes\<close> shows that it
  goes on after every number of passes, so that this is told from an over-read. No fuel is used. The
  memory of the heap is not modelled: allocation succeeds, a \<open>free\<close> is that the value is gone.

  \<^bold>\<open>Not modelled.\<close> Logging and the strings made for it (so \<^verbatim>\<open>strstate\<close> and \<^verbatim>\<open>hex\<close> are modelled as
  functions, and their callers are not), and \<^verbatim>\<open>JNI_OnUnload\<close>, which only logs; the result of opening epoll
  and of adding the pipe and the tun device to it beyond the branch it selects; the conversion of the strings
  of Java; the mutex, which the thread locks around its checks and its dispatch (\<^verbatim>\<open>handle_events\<close>) and no other thread that is
  modelled competes for;
  pages of the process that are not its own (an over-read ends the model's run with \<open>None\<close>). A stop whose
  write to the pipe fails is a step between two rounds, or comes between the poll and the dispatch of one
  (\<open>raced_round\<close>); the interleavings inside of an operation are not modelled. In \<open>Kernel\<close>, \<^verbatim>\<open>protect_socket\<close> is
  one answer of \<open>os\<close>: \<open>Jvm\<close> says how it comes about. The prototypes of tun2http.h, some of
  functions that do not exist (\<^verbatim>\<open>write_pcap\<close> and the like), have no counterpart. The
  Kotlin service, the prebuilt libraries under \<^verbatim>\<open>jniLibs\<close> and the files that CMake generated under
  \<^verbatim>\<open>app/.cxx\<close> (the compiler's identification sources) are outside of this development.
\<close>

section \<open>The library as a whole\<close>

text \<open>A session whose CONNECT request has been sent, as the history says, with the proxy's reply waiting on its
  socket.\<close>

definition example_connecting :: "tcp_session ng_session" where
  "example_connecting = \<lparr>sid = 1, socket = 7, ev_events = 9,
     sess = example_tcp\<lparr>t_dest := 443, t_state := TCP_LISTEN, connect_sent := TCP_CONNECT_SENT\<rparr>\<rparr>"

definition example_loop :: event_loop where
  "example_loop = \<lparr>el_sessions = [Tcp example_connecting], el_last = 1000000, el_running = True, el_timeout = 0,
     el_io = empty_io\<lparr>tick := 2, fds := [7], rxq := (\<lambda>_. [])(7 := [Rx_Data (cstr ''HTTP/1.0 200'')]),
       trace := [Sock_Send 7 (connect_request (cstr ''a'') 443) False 26]\<rparr>\<rparr>"

lemma example_connecting_good: "tcp_ok example_connecting (el_io example_loop)"
  by (simp add: example_connecting_def example_loop_def example_tcp_def tcp_ok_def conf_ok_def tcp_conf_def proxied_port_def
      tcp_good_def sock_ok_def socket_state_def tcp_wf_def tcp_addrs_def drop_bit_eq_div)

lemma example_connecting_flows: "flows_inv [Tcp example_connecting] (el_io example_loop)"
proof -
  have "requested 443 7 (trace (el_io example_loop))" by (force simp: requested_def example_loop_def)
  then show ?thesis
    by (simp add: flows_inv_def example_loop_def example_connecting_def example_tcp_def met_def tun_ok_def tcp_flow_def
        addr_size_def)
qed

text \<open>A round in which the reply is reported.\<close>

lemma example_reply:
  obtains st' where "events_round calm_os example_args 5 3 409 (Wait_Ready [(From_Session 1, EPOLLIN)]) example_loop = Some st'"
    "el_sessions st' = [Tcp (example_connecting\<lparr>sess := (sess example_connecting)\<lparr>
       connect_sent := TCP_CONNECT_ESTABLISHED, t_state := TCP_ESTABLISHED\<rparr>\<rparr>)]"
proof -
  let ?s = "example_connecting" and ?w = "el_io example_loop"
  have "monitor_tcp_session calm_os ?s w = (False, ?s, w)" for w
    by (simp add: monitor_tcp_session_def monitor_events_def example_connecting_def example_tcp_def EPOLLERR_def EPOLLIN_def)
  then have "before_poll calm_os 409 example_loop =
      Some (1, example_loop\<lparr>el_timeout := EPOLL_MIN_CHECK, el_io := step_io [] ?w\<rparr>)"
    by (simp add: before_poll_def sys_ms_def calm_os_def example_loop_def example_connecting_def example_tcp_def
        closing_state_def EPOLL_MIN_CHECK_def)
  moreover have "\<exists>w. check_tcp_socket calm_os EPOLLIN ?s (step_io [] ?w) = Some (?s\<lparr>sess := (sess ?s)\<lparr>
       connect_sent := TCP_CONNECT_ESTABLISHED, t_state := TCP_ESTABLISHED\<rparr>\<rparr>, w)"
    by (simp add: check_tcp_socket_def tcp_connect_reply_def sys_recv_stream_def EPOLLIN_def EPOLLERR_def
        example_connecting_def example_loop_def example_tcp_def empty_io_def cstr_def)
  ultimately show ?thesis
    using that by (auto simp: events_round_def session_at_def example_loop_def example_connecting_def)
qed

text \<open>C2: in every state that the library reaches, through any starts, packets, events, periodic checks and stops,
  from one in which its invariants hold (as they do when it is loaded: \<open>jni_init_inv\<close>, \<open>jni_init_flows\<close>), a TCP session is
  consistent with what has happened. On a port of the proxy: if the session is established or past it, its request is marked
  as answered; a request that is marked as sent is in the history, a CONNECT with the session's port sent
  successfully on its descriptor; and one that is marked as answered is followed there by a \<open>recv\<close> of that descriptor without an
  error (an end of file counts, as in the code). On another port no request is marked. The session holds an open descriptor
  in the states before the socket is given up and none in those after, and its window fits into the
  header's field.\<close>

theorem library_proxy_first:
  assumes "thread_inv th" "flows_inv (thread_sessions th) (thread_io th)" "vpn_steps os loglevel tun th th'"
    "Tcp s \<in> set (thread_sessions th')"
  shows "(t_state (sess s) \<in> {TCP_ESTABLISHED, TCP_CLOSE_WAIT, TCP_FIN_WAIT1, TCP_LAST_ACK} \<longrightarrow>
      proxied_port (t_dest (sess s)) \<longrightarrow> connect_sent (sess s) = TCP_CONNECT_ESTABLISHED) \<and>
    (\<exists>fd. (socket s = fd \<or> socket s = - 1) \<and>
      handshake (t_dest (sess s)) fd (connect_sent (sess s)) (trace (thread_io th'))) \<and>
    (\<not> proxied_port (t_dest (sess s)) \<longrightarrow> connect_sent (sess s) = TCP_CONNECT_NOT_SENT) \<and>
    (t_state (sess s) \<in> {TCP_LISTEN, TCP_SYN_RECV, TCP_ESTABLISHED, TCP_CLOSE_WAIT} \<longrightarrow>
      socket s \<in> set (fds (thread_io th'))) \<and>
    (t_state (sess s) \<in> {TCP_FIN_WAIT1, TCP_LAST_ACK, TCP_CLOSE} \<longrightarrow> socket s = - 1) \<and>
    unat (drop_bit (unat (recv_scale (sess s))) (recv_window (sess s))) \<le> 65535"
proof -
  have "session_good (Tcp s) (thread_io th')"
    using vpn_steps_inv [OF assms(3,1)] assms(4) unfolding thread_inv_def list_inv_def all_inv_def by blast
  then have g: "tcp_good s (thread_io th')" "conf_ok (sess s)" by (simp_all add: tcp_ok_def)
  let ?t = "sess s"
  have "met_of (Tcp s) (trace (thread_io th'))"
    using flow_table.vpn_steps_kept [OF assms(3,2)] assms(4) unfolding flows_inv_def by blast
  then have m: "\<exists>fd. (socket s = fd \<or> socket s = - 1) \<and> handshake (t_dest ?t) fd (connect_sent ?t) (trace (thread_io th'))"
    by (simp add: met_def)
  have c: "t_state ?t \<in> {TCP_ESTABLISHED, TCP_CLOSE_WAIT, TCP_FIN_WAIT1, TCP_LAST_ACK} \<longrightarrow>
      talking (proxied_port (t_dest ?t)) (connect_sent ?t)"
    "\<not> proxied_port (t_dest ?t) \<longrightarrow> connect_sent ?t = TCP_CONNECT_NOT_SENT"
    using g(2) unfolding conf_ok_def tcp_conf_def conf_inv.simps by blast+
  have "sock_ok (socket s) (thread_io th')" using g(1) by (simp add: tcp_good_def)
  then have o: "0 \<le> socket s \<longrightarrow> socket s \<in> set (fds (thread_io th'))" by (auto simp: sock_ok_def)
  have f: "socket_state (t_state ?t) (socket s)"
    "unat (drop_bit (unat (recv_scale ?t)) (recv_window ?t)) \<le> 65535"
    using g(1) unfolding tcp_good_def tcp_wf_def by blast+
  show ?thesis using c f o m unfolding talking_def socket_state_def by blast
qed

theorem library_proxy_first_witness:
  "\<exists>th s. vpn_steps calm_os 5 3 (Live example_args 409 example_loop) th \<and> thread_sessions th = [Tcp s] \<and>
    t_state (sess s) = TCP_ESTABLISHED \<and> connect_sent (sess s) = TCP_CONNECT_ESTABLISHED \<and>
    socket s \<in> set (fds (thread_io th)) \<and> answered 443 7 (trace (thread_io th))"
proof -
  obtain st' where e: "events_round calm_os example_args 5 3 409 (Wait_Ready [(From_Session 1, EPOLLIN)]) example_loop = Some st'"
    and ss: "el_sessions st' = [Tcp (example_connecting\<lparr>sess := (sess example_connecting)\<lparr>
       connect_sent := TCP_CONNECT_ESTABLISHED, t_state := TCP_ESTABLISHED\<rparr>\<rparr>)]" by (rule example_reply)
  let ?s = "example_connecting\<lparr>sess := (sess example_connecting)\<lparr>
       connect_sent := TCP_CONNECT_ESTABLISHED, t_state := TCP_ESTABLISHED\<rparr>\<rparr>"
  have "events_step calm_os example_args 5 3 409 example_loop st'"
    using e by (intro events_step.round) (simp add: example_loop_def)
  then have r: "vpn_steps calm_os 5 3 (Live example_args 409 example_loop) (Live example_args 409 st')"
    by (intro r_into_rtranclp vpn_step.run)
  have i: "thread_inv (Live example_args 409 example_loop)"
    using example_connecting_good by (simp add: thread_inv_def list_inv_def all_inv_def held_def clean_def example_loop_def empty_io_def)
  have fl: "flows_inv (thread_sessions (Live example_args 409 example_loop)) (thread_io (Live example_args 409 example_loop))"
    using example_connecting_flows by (simp add: example_loop_def)
  have th: "thread_sessions (Live example_args 409 st') = [Tcp ?s]" using ss by simp
  have t: "t_state (sess ?s) = TCP_ESTABLISHED" "t_dest (sess ?s) = 443" "socket ?s = 7"
    by (simp_all add: example_connecting_def example_tcp_def)
  have "socket ?s \<in> set (fds (thread_io (Live example_args 409 st'))) \<and> answered 443 7 (trace (thread_io (Live example_args 409 st')))"
    using library_proxy_first [OF i fl r, of ?s] th t by simp
  then show ?thesis using r th t(1)
    by (intro exI [of _ "Live example_args 409 st'"] exI [of _ ?s]) simp
qed

end
